(* ===== verification/NF_Prelude.thy ===== *)
theory NF_Prelude
  imports Main "HOL-Library.Word"
begin

text \<open>
  Shared vocabulary of the development: machine integers at the widths of the C sources, the
  faults a C/C++ execution can raise, results that carry a fault as a value, executions that
  may also fail to return, and the generic word and list lemmas the components rely on.
\<close>

named_theorems exec_simps "rewrite rules of the result and execution binds"
named_theorems layout_simps "numeric facts about sizes and ring lengths"

type_synonym u8 = "8 word"
type_synonym u16 = "16 word"
type_synonym u32 = "32 word"
type_synonym u64 = "64 word"
type_synonym addr = "64 word"

abbreviation NULL :: addr where
  "NULL \<equiv> 0"

section \<open>Faults, results, executions\<close>

text \<open>
  \<open>Segv\<close>: access through a null or unmapped pointer; \<open>Out_of_bounds\<close>: a C array index
  outside its array; \<open>Out_of_range\<close>: the exception of \<open>std::vector::at\<close>;
  \<open>Assertion\<close>: a failed \<open>assert\<close>; \<open>Signed_overflow\<close> and \<open>Div_by_zero\<close>: the
  arithmetic C leaves undefined.
\<close>

datatype fault = Segv | Out_of_bounds | Out_of_range | Assertion | Signed_overflow | Div_by_zero

text \<open>A result is a fault or a value; an execution may besides never return (\<open>None\<close>).\<close>

type_synonym 'a res = "fault + 'a"
type_synonym 'a exec = "(fault + 'a) option"

definition bindR :: "'a res \<Rightarrow> ('a \<Rightarrow> 'b res) \<Rightarrow> 'b res" where
  "bindR r f = (case r of Inl e \<Rightarrow> Inl e | Inr a \<Rightarrow> f a)"

definition bindE :: "'a exec \<Rightarrow> ('a \<Rightarrow> 'b exec) \<Rightarrow> 'b exec" where
  "bindE r f = (case r of None \<Rightarrow> None | Some (Inl e) \<Rightarrow> Some (Inl e) | Some (Inr a) \<Rightarrow> f a)"

definition of_option :: "fault \<Rightarrow> 'a option \<Rightarrow> 'a res" where
  "of_option e r = (case r of None \<Rightarrow> Inl e | Some a \<Rightarrow> Inr a)"

text \<open>C array access, with the undefined out-of-range case written out.\<close>

definition arr_get :: "'a list \<Rightarrow> nat \<Rightarrow> 'a res" where
  "arr_get xs i = (if i < length xs then Inr (xs ! i) else Inl Out_of_bounds)"

definition arr_set :: "'a list \<Rightarrow> nat \<Rightarrow> 'a \<Rightarrow> 'a list res" where
  "arr_set xs i v = (if i < length xs then Inr (xs[i := v]) else Inl Out_of_bounds)"

text \<open>\<open>std::vector::at\<close>, which throws \<open>std::out_of_range\<close>.\<close>

definition vec_at :: "'a list \<Rightarrow> nat \<Rightarrow> 'a res" where
  "vec_at xs i = (if i < length xs then Inr (xs ! i) else Inl Out_of_range)"

definition vec_set :: "'a list \<Rightarrow> nat \<Rightarrow> 'a \<Rightarrow> 'a list res" where
  "vec_set xs i v = (if i < length xs then Inr (xs[i := v]) else Inl Out_of_range)"

lemma bindR_simps [simp, exec_simps]:
  "bindR (Inl e) f = Inl e"
  "bindR (Inr a) f = f a"
  by (simp_all add: bindR_def)

lemma bindE_simps [simp, exec_simps]:
  "bindE None f = None"
  "bindE (Some (Inl e)) f = Some (Inl e)"
  "bindE (Some (Inr a)) f = f a"
  by (simp_all add: bindE_def)

lemma bindR_eq_Inr: "bindR r f = Inr b \<longleftrightarrow> (\<exists>a. r = Inr a \<and> f a = Inr b)"
  by (cases r) auto

lemma bindR_eq_Inl: "bindR r f = Inl e \<longleftrightarrow> r = Inl e \<or> (\<exists>a. r = Inr a \<and> f a = Inl e)"
  by (cases r) auto

lemma bindE_eq_Inr:
  "bindE r f = Some (Inr b) \<longleftrightarrow> (\<exists>a. r = Some (Inr a) \<and> f a = Some (Inr b))"
  by (auto simp: bindE_def split: option.splits sum.splits)

lemma of_option_simps [simp, exec_simps]:
  "of_option e None = Inl e"
  "of_option e (Some a) = Inr a"
  by (simp_all add: of_option_def)

lemma arr_get_in [simp]: "i < length xs \<Longrightarrow> arr_get xs i = Inr (xs ! i)"
  by (simp add: arr_get_def)

lemma arr_set_in [simp]: "i < length xs \<Longrightarrow> arr_set xs i v = Inr (xs[i := v])"
  by (simp add: arr_set_def)

lemma vec_at_in [simp]: "i < length xs \<Longrightarrow> vec_at xs i = Inr (xs ! i)"
  by (simp add: vec_at_def)

lemma vec_set_in [simp]: "i < length xs \<Longrightarrow> vec_set xs i v = Inr (xs[i := v])"
  by (simp add: vec_set_def)

lemma arr_get_Inr_iff: "arr_get xs i = Inr x \<longleftrightarrow> i < length xs \<and> x = xs ! i"
  by (auto simp: arr_get_def)

lemma arr_set_Inr_iff: "arr_set xs i v = Inr ys \<longleftrightarrow> i < length xs \<and> ys = xs[i := v]"
  by (auto simp: arr_set_def)

lemma vec_at_Inr_iff: "vec_at xs i = Inr x \<longleftrightarrow> i < length xs \<and> x = xs ! i"
  by (auto simp: vec_at_def)

lemma vec_set_Inr_iff: "vec_set xs i v = Inr ys \<longleftrightarrow> i < length xs \<and> ys = xs[i := v]"
  by (auto simp: vec_set_def)

lemmas access_iffs = arr_get_Inr_iff arr_set_Inr_iff vec_at_Inr_iff vec_set_Inr_iff

section \<open>Row-major indices\<close>

lemma row_index_less:
  fixes x n y k :: nat
  assumes "x < n" "y < k"
  shows "x * k + y < n * k"
proof -
  have "x * k + y < Suc x * k" using assms(2) by simp
  also have "\<dots> \<le> n * k" using assms(1) by (intro mult_right_mono) simp_all
  finally show ?thesis .
qed

lemma row_index_inj:
  fixes x1 x2 y1 y2 k :: nat
  assumes "y1 < k" "y2 < k"
  shows "x1 * k + y1 = x2 * k + y2 \<longleftrightarrow> x1 = x2 \<and> y1 = y2"
proof
  assume e: "x1 * k + y1 = x2 * k + y2"
  have "x1 = (x1 * k + y1) div k" "x2 = (x2 * k + y2) div k" using assms by simp_all
  with e have "x1 = x2" by simp
  with e show "x1 = x2 \<and> y1 = y2" by simp
qed simp

section \<open>Signed 32-bit arithmetic\<close>

text \<open>The result of an \<open>int\<close> operation, undefined outside the range of the type.\<close>

definition c_int :: "int \<Rightarrow> int res" where
  "c_int v = (if - 2147483648 \<le> v \<and> v < 2147483648 then Inr v else Inl Signed_overflow)"

lemma c_int_in [simp]: "- 2147483648 \<le> v \<Longrightarrow> v < 2147483648 \<Longrightarrow> c_int v = Inr v"
  by (simp add: c_int_def)

section \<open>Words\<close>

text \<open>Successor of an unsigned counter that is below a bound.\<close>

lemma unat_Suc_less:
  fixes w :: "'a::len word"
  assumes "unat w < n" and "n < 2 ^ LENGTH('a)"
  shows "unat (w + 1) = Suc (unat w)"
proof -
  have "unat w + 1 < 2 ^ LENGTH('a)" using assms by simp
  then show ?thesis by (simp add: unat_word_ariths)
qed

lemma unat_of_nat_less:
  "n < 2 ^ LENGTH('a::len) \<Longrightarrow> unat (of_nat n :: 'a word) = n"
  by (simp add: unat_of_nat take_bit_nat_eq_self)

lemma unat_u64_less: "unat (w :: u64) < 18446744073709551616"
  using unsigned_less [of w] by simp

lemma unat_u32_less: "unat (w :: u32) < 4294967296"
  using unsigned_less [of w] by simp

lemma unat_ucast_u32: "unat (ucast (w :: u32) :: u64) = unat w"
  using unat_u32_less [of w] by (simp add: unsigned_ucast_eq unsigned_take_bit_eq take_bit_nat_eq_self)

lemma unat_mult_less:
  fixes a b :: "'a::len word"
  shows "unat a * unat b < 2 ^ LENGTH('a) \<Longrightarrow> unat (a * b) = unat a * unat b"
  by (simp add: unat_word_ariths)

lemma unat_add_less:
  fixes a b :: "'a::len word"
  shows "unat a + unat b < 2 ^ LENGTH('a) \<Longrightarrow> unat (a + b) = unat a + unat b"
  by (simp add: unat_word_ariths)

end
