(* ===== verification/C_Memory.thy ===== *)
theory C_Memory
  imports NF_Prelude
begin

unbundle bit_operations_syntax

text \<open>
  Byte-addressed memory of an x86-64 process and the C library calls the sources make on it:
  \<open>memcpy\<close>/\<open>mempcpy\<close>, \<open>memset\<close>, loads and stores of 16- and 32-bit integers in
  little-endian order, and the byte-order conversions \<open>htonl\<close>, \<open>htons\<close>,
  \<open>ntohl\<close>, \<open>ntohs\<close> of a little-endian host.
\<close>

type_synonym memory = "addr \<Rightarrow> u8"

definition load_bytes :: "memory \<Rightarrow> addr \<Rightarrow> nat \<Rightarrow> u8 list" where
  "load_bytes m a n = map (\<lambda>i. m (a + of_nat i)) [0..<n]"

definition store_bytes :: "memory \<Rightarrow> addr \<Rightarrow> u8 list \<Rightarrow> memory" where
  "store_bytes m a bs = (\<lambda>x. let d = unat (x - a) in if d < length bs then bs ! d else m x)"

text \<open>Two byte ranges that do not meet.\<close>

definition disjoint_ranges :: "addr \<Rightarrow> nat \<Rightarrow> addr \<Rightarrow> nat \<Rightarrow> bool" where
  "disjoint_ranges a n b k \<longleftrightarrow> n \<le> unat (b - a) \<and> k \<le> unat (a - b) \<or> n = 0 \<or> k = 0"

definition c_memcpy :: "memory \<Rightarrow> addr \<Rightarrow> addr \<Rightarrow> nat \<Rightarrow> memory" where
  "c_memcpy m dst src n = store_bytes m dst (load_bytes m src n)"

definition c_memset :: "memory \<Rightarrow> addr \<Rightarrow> u8 \<Rightarrow> nat \<Rightarrow> memory" where
  "c_memset m dst v n = store_bytes m dst (replicate n v)"

definition le16 :: "u16 \<Rightarrow> u8 list" where
  "le16 w = [ucast w, ucast (drop_bit 8 w)]"

definition le32 :: "u32 \<Rightarrow> u8 list" where
  "le32 w = [ucast w, ucast (drop_bit 8 w), ucast (drop_bit 16 w), ucast (drop_bit 24 w)]"

definition le64 :: "u64 \<Rightarrow> u8 list" where
  "le64 w = le32 (ucast w) @ le32 (ucast (drop_bit 32 w))"

definition from_le16 :: "u8 list \<Rightarrow> u16" where
  "from_le16 bs = ucast (bs ! 0) OR push_bit 8 (ucast (bs ! 1))"

definition from_le32 :: "u8 list \<Rightarrow> u32" where
  "from_le32 bs = ucast (bs ! 0) OR push_bit 8 (ucast (bs ! 1))
     OR push_bit 16 (ucast (bs ! 2)) OR push_bit 24 (ucast (bs ! 3))"

definition from_le64 :: "u8 list \<Rightarrow> u64" where
  "from_le64 bs = ucast (from_le32 (take 4 bs)) OR push_bit 32 (ucast (from_le32 (drop 4 bs)))"

definition store16 :: "memory \<Rightarrow> addr \<Rightarrow> u16 \<Rightarrow> memory" where
  "store16 m a w = store_bytes m a (le16 w)"

definition store32 :: "memory \<Rightarrow> addr \<Rightarrow> u32 \<Rightarrow> memory" where
  "store32 m a w = store_bytes m a (le32 w)"

definition load16 :: "memory \<Rightarrow> addr \<Rightarrow> u16" where
  "load16 m a = from_le16 (load_bytes m a 2)"

definition load32 :: "memory \<Rightarrow> addr \<Rightarrow> u32" where
  "load32 m a = from_le32 (load_bytes m a 4)"

definition htons :: "u16 \<Rightarrow> u16" where
  "htons w = push_bit 8 w OR drop_bit 8 w"

definition htonl :: "u32 \<Rightarrow> u32" where
  "htonl w = push_bit 24 w OR push_bit 8 (w AND 0xFF00) OR drop_bit 8 (w AND 0xFF0000)
     OR drop_bit 24 w"

definition ntohs :: "u16 \<Rightarrow> u16" where
  "ntohs w = htons w"

definition ntohl :: "u32 \<Rightarrow> u32" where
  "ntohl w = htonl w"

section \<open>Loads after stores\<close>

lemma length_load_bytes [simp]: "length (load_bytes m a n) = n"
  by (simp add: load_bytes_def)

lemma nth_load_bytes [simp]: "i < n \<Longrightarrow> load_bytes m a n ! i = m (a + of_nat i)"
  by (simp add: load_bytes_def)

lemma length_le [simp]: "length (le16 w) = 2" "length (le32 v) = 4" "length (le64 d) = 8"
  by (simp_all add: le16_def le32_def le64_def)

lemma store_bytes_at:
  assumes "i < length bs" and "length bs \<le> 2 ^ 64"
  shows "store_bytes m a bs (a + of_nat i) = bs ! i"
proof -
  have "unat (a + of_nat i - a) = i"
    using assms by (simp add: unat_of_nat_less)
  with assms(1) show ?thesis by (simp add: store_bytes_def)
qed

lemma load_store_same:
  assumes "length bs \<le> 2 ^ 64"
  shows "load_bytes (store_bytes m a bs) a (length bs) = bs"
  by (rule nth_equalityI) (simp_all add: store_bytes_at [OF _ assms])

lemma store_bytes_outside:
  "length bs \<le> unat (x - a) \<Longrightarrow> store_bytes m a bs x = m x"
  by (simp add: store_bytes_def)

text \<open>An offset below the distance to the next range stays outside that range.\<close>

lemma offset_outside:
  fixes a b :: addr
  assumes "n \<le> unat (b - a)" "k \<le> unat (a - b)" "i < k"
  shows "n \<le> unat (b + of_nat i - a)"
proof (cases "a = b")
  case True
  with assms show ?thesis by simp
next
  case False
  have "i < 18446744073709551616" using unat_u64_less [of "a - b"] assms(2,3) by linarith
  then have i: "unat (of_nat i :: addr) = i" by (intro unat_of_nat_less) simp
  have s: "unat (b - a) + unat (a - b) = 2 ^ 64"
  proof -
    have ne: "unat a \<noteq> unat b" using False by (simp add: word_unat_eq_iff)
    have "unat a < 2 ^ 64" "unat b < 2 ^ 64"
      using unsigned_less [of a] unsigned_less [of b] by simp_all
    with ne show ?thesis
      unfolding unat_sub_if_size by (cases "unat a \<le> unat b") (auto simp: word_size)
  qed
  have e: "b + of_nat i - a = (b - a) + of_nat i" by simp
  have "unat (b - a) + i < 2 ^ 64" using s assms(2,3) by linarith
  then have "unat ((b - a) + of_nat i) = unat (b - a) + i"
    using i by (simp add: unat_word_ariths)
  with assms(1) show ?thesis unfolding e by simp
qed

lemma load_store_disjoint:
  assumes "disjoint_ranges a (length bs) b n"
  shows "load_bytes (store_bytes m a bs) b n = load_bytes m b n"
proof (cases "length bs = 0 \<or> n = 0")
  case True
  then show ?thesis by (auto simp: load_bytes_def store_bytes_def)
next
  case False
  with assms have "length bs \<le> unat (b - a)" "n \<le> unat (a - b)"
    by (auto simp: disjoint_ranges_def)
  then show ?thesis
    by (intro nth_equalityI) (simp_all add: store_bytes_outside offset_outside)
qed

lemma disjoint_ranges_shrink:
  "disjoint_ranges a n b k \<Longrightarrow> n1 \<le> n \<Longrightarrow> disjoint_ranges a n1 b k"
  by (auto simp: disjoint_ranges_def)

lemma load_bytes_prefix: "k \<le> n \<Longrightarrow> load_bytes m a k = take k (load_bytes m a n)"
  by (simp add: load_bytes_def take_map)

section \<open>Stores that build one image\<close>

lemma unat_minus_offset:
  fixes x a :: addr
  assumes "n \<le> unat (x - a)"
  shows "unat (x - (a + of_nat n)) = unat (x - a) - n"
proof -
  have "n < 2 ^ 64" using assms unat_u64_less [of "x - a"] by simp
  then have n: "unat (of_nat n :: addr) = n" by (intro unat_of_nat_less) simp
  have "unat ((x - a) - of_nat n) = unat (x - a) - n"
    using assms n by (simp add: unat_sub word_le_nat_alt)
  then show ?thesis by (simp add: diff_diff_eq)
qed

lemma store_store_append:
  assumes "length xs + length ys \<le> 2 ^ 64"
  shows "store_bytes (store_bytes m a xs) (a + of_nat (length xs)) ys = store_bytes m a (xs @ ys)"
proof
  fix x
  let ?n = "length xs" and ?d = "unat (x - a)" and ?e = "unat (x - (a + of_nat (length xs)))"
  show "store_bytes (store_bytes m a xs) (a + of_nat ?n) ys x = store_bytes m a (xs @ ys) x"
  proof (cases "?n \<le> ?d")
    case True
    then show ?thesis by (auto simp: store_bytes_def unat_minus_offset nth_append Let_def)
  next
    case False
    have "length ys \<le> ?e"
    proof (cases "ys = []")
      case False
      with assms have "?n < 2 ^ 64" by (cases ys) auto
      then have n: "unat (of_nat ?n :: addr) = ?n" by (intro unat_of_nat_less) simp
      have e: "x - (a + of_nat ?n) = (x - a) - of_nat ?n" by simp
      have "?e = ?d + 2 ^ 64 - ?n"
        unfolding e using \<open>\<not> ?n \<le> ?d\<close> n unat_sub_if_size [of "x - a" "of_nat ?n"]
        by (simp add: word_size)
      with assms \<open>\<not> ?n \<le> ?d\<close> show ?thesis by simp
    qed simp
    with False show ?thesis by (simp add: store_bytes_def nth_append Let_def)
  qed
qed

lemma store_bytes_Nil [simp]: "store_bytes m a [] = m"
  by (simp add: store_bytes_def)

lemma store_bytes_own [simp]: "store_bytes m a (load_bytes m a k) = m"
  by (rule ext) (simp add: store_bytes_def Let_def)

lemma load_in_image:
  assumes "k + n \<le> length bs" and "length bs \<le> 2 ^ 64"
  shows "load_bytes (store_bytes m a bs) (a + of_nat k) n = take n (drop k bs)"
proof (rule nth_equalityI)
  fix i
  assume "i < length (load_bytes (store_bytes m a bs) (a + of_nat k) n)"
  then have i: "i < n" by simp
  have e: "a + of_nat k + of_nat i = a + of_nat (k + i)" by (simp add: add.assoc)
  from i assms show "load_bytes (store_bytes m a bs) (a + of_nat k) n ! i = take n (drop k bs) ! i"
    using store_bytes_at [of "k + i" bs m a] unfolding e [symmetric] by (simp add: e del: of_nat_add)
qed (use assms in simp)

text \<open>Bytes that are left alone belong to the image with the value they have.\<close>

lemma store_gap:
  assumes "length xs + k \<le> 2 ^ 64"
  shows "store_bytes m a xs = store_bytes m a (xs @ load_bytes m (a + of_nat (length xs)) k)"
proof
  fix x
  let ?n = "length xs" and ?d = "unat (x - a)"
  show "store_bytes m a xs x = store_bytes m a (xs @ load_bytes m (a + of_nat ?n) k) x"
  proof (cases "?n \<le> ?d \<and> ?d < ?n + k")
    case True
    have "a + of_nat ?n + of_nat (?d - ?n) = a + of_nat (?n + (?d - ?n))" by (simp only: add.assoc of_nat_add)
    also have "\<dots> = x" using True by simp
    finally have x: "a + of_nat ?n + of_nat (?d - ?n) = x" .
    have "?d - ?n < k" using True by linarith
    then have "load_bytes m (a + of_nat ?n) k ! (?d - ?n) = m x"
      using x by (simp only: nth_load_bytes)
    with True show ?thesis by (simp add: store_bytes_def nth_append Let_def)
  qed (auto simp: store_bytes_def nth_append Let_def)
qed

section \<open>Integer codecs\<close>

lemma from_le16_le16 [simp]: "from_le16 (le16 w) = w"
  by (rule bit_word_eqI) (auto simp: from_le16_def le16_def bit_simps)

lemma from_le32_le32 [simp]: "from_le32 (le32 w) = w"
proof (rule bit_word_eqI)
  fix n :: nat
  assume "n < LENGTH(32)"
  then consider "n < 8" | "8 \<le> n" "n < 16" | "16 \<le> n" "n < 24" | "24 \<le> n" "n < 32"
    by fastforce
  then show "bit (from_le32 (le32 w)) n = bit w n"
    by cases (auto simp: from_le32_def le32_def bit_simps)
qed

lemma from_le64_le64 [simp]: "from_le64 (le64 w) = w"
  by (rule bit_word_eqI) (auto simp: from_le64_def le64_def bit_simps)

lemma load16_store16 [simp]: "load16 (store16 m a w) a = w"
  using load_store_same [of "le16 w" m a] by (simp add: load16_def store16_def)

lemma load32_store32 [simp]: "load32 (store32 m a w) a = w"
  using load_store_same [of "le32 w" m a] by (simp add: load32_def store32_def)

lemma ntohs_htons [simp]: "ntohs (htons w) = w"
  by (rule bit_word_eqI) (auto simp: ntohs_def htons_def bit_simps)

lemma htonl_masks: "(0xFF00 :: u32) = push_bit 8 (mask 8)" "(0xFF0000 :: u32) = push_bit 16 (mask 8)"
  by (simp_all add: mask_eq_exp_minus_1 push_bit_eq_mult)

lemma ntohl_htonl [simp]: "ntohl (htonl w) = w"
proof (rule bit_word_eqI)
  fix n :: nat
  assume "n < LENGTH(32)"
  then consider "n < 8" | "8 \<le> n" "n < 16" | "16 \<le> n" "n < 24" | "24 \<le> n" "n < 32"
    by fastforce
  then show "bit (ntohl (htonl w)) n = bit w n"
    by cases (auto simp: ntohl_def htonl_def htonl_masks bit_simps dest: bit_imp_le_length)
qed

end
