(* ===== verification/Sense_Ring.thy ===== *)
theory Sense_Ring
  imports NF_Prelude
begin

text \<open>
  The cursor discipline shared by the work queue, the completion queue and the circular
  receive buffer: a position that runs over \<open>0..<N\<close> and a sense bit that flips every time
  the position wraps. The position alone says where the next slot is; together with the sense
  bit it says in which of two consecutive turns of the ring the cursor is, which is how producer
  and consumer tell a fresh slot from a stale one without a shared counter.
\<close>

locale sense_ring =
  fixes N :: nat
    and ok :: "'s \<Rightarrow> bool"
    and pos :: "'s \<Rightarrow> nat"
    and sense :: "'s \<Rightarrow> bool"
    and adv :: "'s \<Rightarrow> 's"
  assumes pos_bound: "ok s \<Longrightarrow> pos s < N"
    and adv_ok: "ok s \<Longrightarrow> ok (adv s)"
    and adv_pos: "ok s \<Longrightarrow> pos (adv s) = (if Suc (pos s) < N then Suc (pos s) else 0)"
    and adv_sense: "ok s \<Longrightarrow> sense (adv s) = (if Suc (pos s) < N then sense s else \<not> sense s)"
begin

lemma pow_ok: "ok s \<Longrightarrow> ok ((adv ^^ k) s)"
  by (induction k) (auto intro: adv_ok)

lemma adv_pos_mod: "ok s \<Longrightarrow> pos (adv s) = Suc (pos s) mod N"
  using adv_pos [of s] pos_bound [of s] by (auto simp: mod_Suc)

lemma pow_pos: "ok s \<Longrightarrow> pos ((adv ^^ k) s) = (pos s + k) mod N"
proof (induction k)
  case 0
  then show ?case by (simp add: pos_bound)
next
  case (Suc k)
  then show ?case by (simp add: adv_pos_mod pow_ok mod_Suc_eq)
qed

lemma pow_sense: "ok s \<Longrightarrow> sense ((adv ^^ k) s) = (sense s \<noteq> odd ((pos s + k) div N))"
proof (induction k)
  case 0
  then show ?case by (simp add: pos_bound)
next
  case (Suc k)
  let ?m = "pos s + k"
  have "0 < N" using pos_bound [OF Suc.prems] by simp
  have "Suc ?m div N = (if Suc (?m mod N) < N then ?m div N else Suc (?m div N))"
    using mod_less_divisor [OF \<open>0 < N\<close>, of ?m] unfolding div_Suc mod_Suc by simp
  with Suc show ?case by (simp add: adv_sense pow_ok pow_pos)
qed

text \<open>A whole turn comes back to the same slot with the sense reversed.\<close>

lemma full_turn:
  assumes "ok s"
  shows "pos ((adv ^^ N) s) = pos s" and "sense ((adv ^^ N) s) = (\<not> sense s)"
proof -
  have "N \<noteq> 0" "pos s < N" using pos_bound [OF assms] by simp_all
  then have "(pos s + N) div N = 1" by (simp add: div_add_self2)
  then show "pos ((adv ^^ N) s) = pos s" and "sense ((adv ^^ N) s) = (\<not> sense s)"
    using assms \<open>pos s < N\<close> by (simp_all add: pow_pos pow_sense)
qed

text \<open>Fewer than \<open>N\<close> steps never come back to the same slot.\<close>

lemma fresh_slot:
  assumes "ok s" "0 < k" "k < N"
  shows "pos ((adv ^^ k) s) \<noteq> pos s"
proof -
  have "pos s < N" using pos_bound [OF assms(1)] .
  with assms show ?thesis by (auto simp: pow_pos mod_if)
qed

text \<open>
  Position and sense name the cursor's place in two turns exactly: cursors reached from the
  same state by fewer than \<open>2 * N\<close> steps and agreeing on both took the same number of steps.
\<close>

lemma two_turns_distinct:
  assumes "ok s" "i < 2 * N" "j < 2 * N"
    and "pos ((adv ^^ i) s) = pos ((adv ^^ j) s)"
    and "sense ((adv ^^ i) s) = sense ((adv ^^ j) s)"
  shows "i = j"
proof -
  let ?a = "pos s + i" and ?b = "pos s + j"
  have "0 < N" "pos s < N" using pos_bound [OF assms(1)] by simp_all
  have m: "?a mod N = ?b mod N" and d: "odd (?a div N) = odd (?b div N)"
    using assms by (auto simp: pow_pos pow_sense)
  have a: "?a = ?a div N * N + ?a mod N" and b: "?b = ?b div N * N + ?b mod N" by simp_all
  have "?a div N < 3" "?b div N < 3"
    using assms(2,3) \<open>pos s < N\<close> by (auto simp: div_less_iff_less_mult \<open>0 < N\<close>)
  with d have "?a div N = ?b div N \<or> {?a div N, ?b div N} = {0, 2}"
    by (auto simp: less_Suc_eq numeral_eq_Suc)
  moreover have "{?a div N, ?b div N} \<noteq> {0, 2}"
  proof
    assume "{?a div N, ?b div N} = {0, 2}"
    then have "?a div N = 0 \<and> ?b div N = 2 \<or> ?a div N = 2 \<and> ?b div N = 0"
      by (auto simp: doubleton_eq_iff)
    then have "?b = ?a + 2 * N \<or> ?a = ?b + 2 * N"
      using a b m by (metis add.commute add_0 mult_0)
    with assms(2,3) show False by linarith
  qed
  ultimately have "?a = ?b" using a b m by metis
  then show ?thesis by simp
qed

end

end
