(* ===== verification/Cbuf.thy ===== *)
theory Cbuf
  imports C_Memory Sense_Ring
begin

text \<open>
  The circular receive buffer of \<open>rpc_shm/cbuf.h\<close> and \<open>rpc_shm/cbuf.cpp\<close>: a ring of
  \<open>numEntries\<close> slots with the receiver's \<open>head\<close>, the sender's \<open>tail\<close> and the
  sender's copy \<open>senders_head\<close> of how far the receiver has freed slots, and one sense bit per
  slot. The sender's bookkeeping is refined to a count of slots in flight.
\<close>

section \<open>State and operations\<close>

record CircularReceiveBuffer =
  cb_is_full :: bool
  cb_basePointer :: addr
  cb_entryByteSize :: u64
  cb_numEntries :: u64
  cb_head :: u64
  cb_tail :: u64
  cb_buffer_sr :: bool
  cb_sr_vector :: "bool list"
  cb_senders_head :: u64
  cb_is_sender :: bool

definition newCircularReceiveBuffer :: "addr \<Rightarrow> u64 \<Rightarrow> u64 \<Rightarrow> bool \<Rightarrow> CircularReceiveBuffer" where
  "newCircularReceiveBuffer aBase aSize aNumEntries senderCopy =
     \<lparr>cb_is_full = False, cb_basePointer = aBase, cb_entryByteSize = aSize,
      cb_numEntries = aNumEntries, cb_head = 0, cb_tail = 0, cb_buffer_sr = False,
      cb_sr_vector = replicate (unat aNumEntries) True, cb_senders_head = 0,
      cb_is_sender = senderCopy\<rparr>"

definition getBasePointer :: "CircularReceiveBuffer \<Rightarrow> addr" where
  "getBasePointer b = cb_basePointer b"

definition getHeadAddress :: "CircularReceiveBuffer \<Rightarrow> addr" where
  "getHeadAddress b = cb_basePointer b + cb_head b * cb_entryByteSize b"

definition getTailAddress :: "CircularReceiveBuffer \<Rightarrow> addr" where
  "getTailAddress b = cb_basePointer b + cb_tail b * cb_entryByteSize b"

definition getHeadOffset :: "CircularReceiveBuffer \<Rightarrow> u64" where
  "getHeadOffset b = cb_head b * cb_entryByteSize b"

definition getTailOffset :: "CircularReceiveBuffer \<Rightarrow> u64" where
  "getTailOffset b = cb_tail b * cb_entryByteSize b"

definition getHeadIdxValue :: "CircularReceiveBuffer \<Rightarrow> u64" where
  "getHeadIdxValue b = cb_head b"

definition getTailIdxValue :: "CircularReceiveBuffer \<Rightarrow> u64" where
  "getTailIdxValue b = cb_tail b"

text \<open>The first half of \<open>incTail\<close>: the increment, the wrap-around and the sense reversal.\<close>

definition bump_tail :: "CircularReceiveBuffer \<Rightarrow> CircularReceiveBuffer" where
  "bump_tail b =
     (let b1 = b\<lparr>cb_tail := cb_tail b + 1\<rparr>
      in if cb_numEntries b1 \<le> cb_tail b1
         then b1\<lparr>cb_tail := 0, cb_buffer_sr := \<not> cb_buffer_sr b1\<rparr> else b1)"

definition incTail :: "CircularReceiveBuffer \<Rightarrow> CircularReceiveBuffer res" where
  "incTail b =
     (if \<not> cb_is_sender b then Inl Assertion
      else
        let b1 = bump_tail b;
            b2 = (if cb_tail b1 = cb_senders_head b1 then b1\<lparr>cb_is_full := True\<rparr> else b1)
        in bindR (vec_at (cb_sr_vector b2) (unat (cb_tail b2))) (\<lambda>sr.
           if sr \<noteq> cb_buffer_sr b2 then Inr b2 else Inl Assertion))"

definition incHeadAfterMsgProcessed :: "CircularReceiveBuffer \<Rightarrow> CircularReceiveBuffer" where
  "incHeadAfterMsgProcessed b =
     (let b1 = b\<lparr>cb_head := cb_head b + 1\<rparr>
      in if cb_numEntries b1 \<le> cb_head b1 then b1\<lparr>cb_head := 0\<rparr> else b1)"

definition incSendersHeadToFreeSpace :: "u32 \<Rightarrow> CircularReceiveBuffer \<Rightarrow> CircularReceiveBuffer res" where
  "incSendersHeadToFreeSpace inc b =
     (if \<not> cb_is_sender b then Inl Assertion
      else
        let b1 = b\<lparr>cb_senders_head := cb_senders_head b + ucast inc\<rparr>;
            b2 = (if cb_numEntries b1 \<le> cb_senders_head b1 then b1\<lparr>cb_senders_head := 0\<rparr> else b1)
        in Inr (if cb_tail b2 \<noteq> cb_senders_head b2 then b2\<lparr>cb_is_full := False\<rparr> else b2))"

definition zeroEntryNumber :: "u64 \<Rightarrow> CircularReceiveBuffer \<Rightarrow> memory \<Rightarrow> memory" where
  "zeroEntryNumber index b m =
     (let offset = index * cb_entryByteSize b
      in c_memset m (cb_basePointer b + offset) 0 (unat (cb_entryByteSize b)))"

definition writeSRMetadata :: "u64 \<Rightarrow> CircularReceiveBuffer \<Rightarrow> CircularReceiveBuffer res" where
  "writeSRMetadata entry b =
     bindR (vec_set (cb_sr_vector b) (unat entry) (cb_buffer_sr b)) (\<lambda>v. Inr (b\<lparr>cb_sr_vector := v\<rparr>))"

definition GetReservedMemoryBytes :: "CircularReceiveBuffer \<Rightarrow> u64" where
  "GetReservedMemoryBytes b = cb_numEntries b * cb_entryByteSize b"

definition isEmpty :: "CircularReceiveBuffer \<Rightarrow> bool" where
  "isEmpty b \<longleftrightarrow> \<not> cb_is_full b \<and> cb_senders_head b = cb_tail b"

definition getBufferSize :: "CircularReceiveBuffer \<Rightarrow> u64" where
  "getBufferSize b =
     (if \<not> isEmpty b then
        (if cb_senders_head b \<le> cb_tail b then cb_tail b - cb_senders_head b
         else (cb_numEntries b - cb_senders_head b) + cb_tail b)
      else cb_numEntries b)"

definition getAvailSlots :: "CircularReceiveBuffer \<Rightarrow> u64" where
  "getAvailSlots b =
     (if \<not> isEmpty b then cb_numEntries b - getBufferSize b else cb_numEntries b)"

text \<open>
  The sender's protocol around one slot, in the order the compiled-out client
  \<open>remoteBufferWrite\<close> of \<open>rpc.cpp\<close> calls the class: mark the tail slot with the
  current sense, then advance the tail.
\<close>

definition sender_write :: "CircularReceiveBuffer \<Rightarrow> CircularReceiveBuffer res" where
  "sender_write b = bindR (writeSRMetadata (getTailIdxValue b) b) incTail"

section \<open>The invariant\<close>

definition wf_cbuf :: "CircularReceiveBuffer \<Rightarrow> bool" where
  "wf_cbuf b \<longleftrightarrow> cb_head b < cb_numEntries b \<and> cb_tail b < cb_numEntries b \<and>
     cb_senders_head b < cb_numEntries b \<and> length (cb_sr_vector b) = unat (cb_numEntries b)"

text \<open>Slots before the tail carry the current sense, the others the previous one.\<close>

definition sr_ok :: "CircularReceiveBuffer \<Rightarrow> bool" where
  "sr_ok b \<longleftrightarrow> (\<forall>i < unat (cb_numEntries b).
     cb_sr_vector b ! i = (if i < unat (cb_tail b) then cb_buffer_sr b else \<not> cb_buffer_sr b))"

text \<open>\<open>n\<close> slots, starting at \<open>senders_head\<close>, are in flight.\<close>

fun cb_inv :: "nat \<times> CircularReceiveBuffer \<Rightarrow> bool" where
  "cb_inv (n, b) \<longleftrightarrow>
     wf_cbuf b \<and> sr_ok b \<and> cb_is_sender b \<and> n \<le> unat (cb_numEntries b) \<and>
     unat (cb_tail b) = (unat (cb_senders_head b) + n) mod unat (cb_numEntries b) \<and>
     cb_is_full b = (n = unat (cb_numEntries b))"

lemma unat_less_Suc:
  "(x :: u64) < n \<Longrightarrow> unat (x + 1) = Suc (unat x)"
  by (rule unat_Suc_less [of _ "unat n"]) (simp_all add: word_less_nat_alt unat_u64_less)

lemma wrap_iff: "(x :: u64) < n \<Longrightarrow> (n \<le> x + 1) = (Suc (unat x) = unat n)"
  by (auto simp: word_le_nat_alt word_less_nat_alt unat_less_Suc)

interpretation cb_cursor: sense_ring "unat n" "\<lambda>b. wf_cbuf b \<and> cb_numEntries b = n"
  "\<lambda>b. unat (cb_tail b)" cb_buffer_sr bump_tail for n
proof unfold_locales
  fix b
  assume ok: "wf_cbuf b \<and> cb_numEntries b = n"
  then have t: "cb_tail b < n" by (auto simp: wf_cbuf_def)
  then show "unat (cb_tail b) < unat n" by (simp add: word_less_nat_alt)
  note w = wrap_iff [OF t] unat_less_Suc [OF t]
  show "unat (cb_tail (bump_tail b)) = (if Suc (unat (cb_tail b)) < unat n then Suc (unat (cb_tail b)) else 0)"
    "cb_buffer_sr (bump_tail b) = (if Suc (unat (cb_tail b)) < unat n then cb_buffer_sr b else \<not> cb_buffer_sr b)"
    using ok t w by (auto simp: bump_tail_def Let_def word_less_nat_alt)
  show "wf_cbuf (bump_tail b) \<and> cb_numEntries (bump_tail b) = n"
    using ok t w by (auto simp: bump_tail_def Let_def wf_cbuf_def word_less_nat_alt)
qed

lemma bump_tail_simps [simp]:
  "cb_is_full (bump_tail b) = cb_is_full b" "cb_numEntries (bump_tail b) = cb_numEntries b"
  "cb_head (bump_tail b) = cb_head b" "cb_senders_head (bump_tail b) = cb_senders_head b"
  "cb_sr_vector (bump_tail b) = cb_sr_vector b" "cb_is_sender (bump_tail b) = cb_is_sender b"
  "cb_basePointer (bump_tail b) = cb_basePointer b" "cb_entryByteSize (bump_tail b) = cb_entryByteSize b"
  by (simp_all add: bump_tail_def Let_def)

section \<open>The sender's writes\<close>

definition mark_tail :: "CircularReceiveBuffer \<Rightarrow> CircularReceiveBuffer" where
  "mark_tail b = b\<lparr>cb_sr_vector := (cb_sr_vector b)[unat (cb_tail b) := cb_buffer_sr b]\<rparr>"

definition set_full :: "CircularReceiveBuffer \<Rightarrow> CircularReceiveBuffer" where
  "set_full b = (if cb_tail b = cb_senders_head b then b\<lparr>cb_is_full := True\<rparr> else b)"

lemma set_full_simps [simp]:
  "cb_numEntries (set_full b) = cb_numEntries b" "cb_tail (set_full b) = cb_tail b"
  "cb_senders_head (set_full b) = cb_senders_head b" "cb_sr_vector (set_full b) = cb_sr_vector b"
  "cb_buffer_sr (set_full b) = cb_buffer_sr b" "cb_is_sender (set_full b) = cb_is_sender b"
  "cb_is_full (set_full b) = (cb_is_full b \<or> cb_tail b = cb_senders_head b)"
  "wf_cbuf (set_full b) = wf_cbuf b" "sr_ok (set_full b) = sr_ok b"
  by (simp_all add: set_full_def wf_cbuf_def sr_ok_def)

lemma mark_tail_simps [simp]:
  "cb_numEntries (mark_tail b) = cb_numEntries b" "cb_tail (mark_tail b) = cb_tail b"
  "cb_senders_head (mark_tail b) = cb_senders_head b" "cb_buffer_sr (mark_tail b) = cb_buffer_sr b"
  "cb_is_sender (mark_tail b) = cb_is_sender b" "cb_is_full (mark_tail b) = cb_is_full b"
  "wf_cbuf (mark_tail b) = wf_cbuf b"
  by (simp_all add: mark_tail_def wf_cbuf_def)

lemma mark_bump_sr:
  assumes "wf_cbuf b" "sr_ok b"
  shows "sr_ok (bump_tail (mark_tail b))"
    and "cb_sr_vector (mark_tail b) ! unat (cb_tail (bump_tail (mark_tail b))) \<noteq>
      cb_buffer_sr (bump_tail (mark_tail b))"
proof -
  let ?n = "cb_numEntries b" and ?b = "bump_tail (mark_tail b)"
  have ok: "wf_cbuf (mark_tail b) \<and> cb_numEntries (mark_tail b) = ?n" using assms(1) by simp
  note pos = cb_cursor.adv_pos [OF ok] and sense = cb_cursor.adv_sense [OF ok]
  have t: "unat (cb_tail b) < unat ?n" and len: "length (cb_sr_vector b) = unat ?n"
    using assms(1) by (simp_all add: wf_cbuf_def word_less_nat_alt)
  have v: "cb_sr_vector (mark_tail b) ! i =
      (if i \<le> unat (cb_tail b) then cb_buffer_sr b else \<not> cb_buffer_sr b)" if "i < unat ?n" for i
    using that t len assms(2) by (auto simp: mark_tail_def sr_ok_def nth_list_update)
  show "sr_ok ?b"
    unfolding sr_ok_def using v t by (auto simp: pos sense)
  have "0 < unat ?n" using t by simp
  then show "cb_sr_vector (mark_tail b) ! unat (cb_tail ?b) \<noteq> cb_buffer_sr ?b"
    using v t by (auto simp: pos sense)
qed

lemma sender_write_eq:
  assumes "wf_cbuf b" "sr_ok b" "cb_is_sender b"
  shows "sender_write b = Inr (set_full (bump_tail (mark_tail b)))"
proof -
  have t: "unat (cb_tail b) < length (cb_sr_vector b)"
    using assms(1) by (simp add: wf_cbuf_def word_less_nat_alt)
  let ?b = "bump_tail (mark_tail b)"
  have ok: "wf_cbuf (mark_tail b) \<and> cb_numEntries (mark_tail b) = cb_numEntries b" using assms(1) by simp
  have t1: "unat (cb_tail ?b) < length (cb_sr_vector ?b)"
    using cb_cursor.adv_ok [OF ok] by (simp add: wf_cbuf_def word_less_nat_alt)
  have "writeSRMetadata (getTailIdxValue b) b = Inr (mark_tail b)"
    using t by (simp add: writeSRMetadata_def getTailIdxValue_def mark_tail_def)
  moreover have "incTail (mark_tail b) = Inr (set_full ?b)"
    using assms(3) t1 mark_bump_sr(2) [OF assms(1,2)]
    by (auto simp: incTail_def Let_def set_full_def)
  ultimately show ?thesis by (simp add: sender_write_def)
qed

lemma cb_inv_write:
  assumes "cb_inv (n, b)" and "n < unat (cb_numEntries b)"
  shows "cb_inv (Suc n, set_full (bump_tail (mark_tail b)))"
proof -
  let ?N = "unat (cb_numEntries b)" and ?b = "bump_tail (mark_tail b)" and ?s = "unat (cb_senders_head b)"
  have wf: "wf_cbuf b" and sr: "sr_ok b" using assms(1) by simp_all
  have ok: "wf_cbuf (mark_tail b) \<and> cb_numEntries (mark_tail b) = cb_numEntries b" using wf by simp
  have s: "?s < ?N" using wf by (simp add: wf_cbuf_def word_less_nat_alt)
  have t: "unat (cb_tail ?b) = (?s + Suc n) mod ?N"
    using cb_cursor.adv_pos_mod [OF ok] assms(1) by (simp add: mod_Suc_eq)
  have full: "cb_tail ?b = cb_senders_head b \<longleftrightarrow> Suc n = ?N"
  proof -
    have "cb_tail ?b = cb_senders_head b \<longleftrightarrow> (?s + Suc n) mod ?N = ?s"
      using t by (simp add: word_unat_eq_iff)
    also have "\<dots> \<longleftrightarrow> Suc n = ?N"
      using s assms(2) by (auto simp: mod_if le_mod_geq)
    finally show ?thesis .
  qed
  show ?thesis
    using assms t full mark_bump_sr(1) [OF wf sr] cb_cursor.adv_ok [OF ok] by simp
qed

section \<open>Freeing slots\<close>

lemma cb_inv_free:
  assumes "cb_inv (Suc n, b)" and N: "1 < unat (cb_numEntries b)"
  shows "\<exists>b1. incSendersHeadToFreeSpace 1 b = Inr b1 \<and> cb_inv (n, b1) \<and>
    cb_numEntries b1 = cb_numEntries b"
proof -
  let ?N = "unat (cb_numEntries b)" and ?s = "unat (cb_senders_head b)"
  have h: "cb_senders_head b < cb_numEntries b" and t: "unat (cb_tail b) = (?s + Suc n) mod ?N"
    and n: "Suc n \<le> ?N"
    using assms(1) by (simp_all add: wf_cbuf_def)
  note w = wrap_iff [OF h] unat_less_Suc [OF h]
  let ?s1 = "if Suc ?s = ?N then 0 else cb_senders_head b + 1"
  have s: "?s < ?N" using h by (simp add: word_less_nat_alt)
  have us: "unat ?s1 = Suc ?s mod ?N" using w s by auto
  then have t1: "unat (cb_tail b) = (unat ?s1 + n) mod ?N"
    using t by (simp add: mod_add_left_eq)
  have ne: "cb_tail b \<noteq> ?s1 \<longleftrightarrow> n \<noteq> 0"
  proof -
    have "cb_tail b = ?s1 \<longleftrightarrow> (unat ?s1 + n) mod ?N = unat ?s1"
      unfolding word_unat_eq_iff t1 ..
    also have "\<dots> \<longleftrightarrow> n = 0"
      using us s n by (auto simp: mod_if le_mod_geq)
    finally show ?thesis by simp
  qed
  let ?b = "b\<lparr>cb_senders_head := ?s1, cb_is_full := False\<rparr>"
  have full: "cb_is_full b = (Suc n = ?N)" and snd: "cb_is_sender b" using assms(1) by simp_all
  have "n = 0 \<Longrightarrow> b\<lparr>cb_senders_head := ?s1\<rparr> = ?b" using full N by simp
  then have "incSendersHeadToFreeSpace 1 b = Inr ?b"
    using snd w ne by (auto simp: incSendersHeadToFreeSpace_def Let_def)
  moreover have "?s1 < cb_numEntries b"
    using s us by (simp add: word_less_nat_alt)
  with assms(1) have "wf_cbuf ?b" "sr_ok ?b" "cb_is_sender ?b"
    by (simp_all add: wf_cbuf_def sr_ok_def)
  then have "cb_inv (n, ?b)" using t1 n by simp
  ultimately show ?thesis by (intro exI [of _ ?b]) simp
qed

section \<open>Counting\<close>

lemma cb_inv_counts:
  assumes "cb_inv (n, b)"
  shows "isEmpty b \<longleftrightarrow> n = 0"
    and "0 < n \<Longrightarrow> unat (getBufferSize b) = n mod unat (cb_numEntries b)"
proof -
  let ?N = "unat (cb_numEntries b)" and ?s = "unat (cb_senders_head b)" and ?t = "unat (cb_tail b)"
  have s: "?s < ?N" and t: "?t = (?s + n) mod ?N" and n: "n \<le> ?N" and f: "cb_is_full b = (n = ?N)"
    and tN: "?t < ?N"
    using assms by (simp_all add: wf_cbuf_def word_less_nat_alt)
  have m: "(?s + n) mod ?N = (if ?s + n < ?N then ?s + n else ?s + n - ?N)"
    using s n by (simp add: le_mod_geq)
  show e: "isEmpty b \<longleftrightarrow> n = 0"
    unfolding isEmpty_def word_unat_eq_iff t using f s n by (auto simp: mod_if le_mod_geq)
  assume "0 < n"
  then have ne: "\<not> isEmpty b" using e by simp
  show "unat (getBufferSize b) = n mod ?N"
  proof (cases "cb_senders_head b \<le> cb_tail b")
    case True
    then have le: "?s \<le> ?t" by (simp add: word_le_nat_alt)
    have "unat (getBufferSize b) = ?t - ?s"
      using ne True by (simp add: getBufferSize_def unat_sub)
    also have "\<dots> = n mod ?N"
    proof (cases "?s + n < ?N")
      case True
      with t m show ?thesis by simp
    next
      case False
      with t m s n le have "n = ?N" "?t = ?s" by simp_all
      then show ?thesis by simp
    qed
    finally show ?thesis .
  next
    case False
    then have lt: "?t < ?s" by (simp add: word_less_nat_alt word_le_nat_alt)
    have wrap: "?t = ?s + n - ?N" and "n < ?N"
      using t s n lt by (auto simp: mod_if le_mod_geq split: if_splits)
    have d: "unat (cb_numEntries b - cb_senders_head b) = ?N - ?s"
      using s by (intro unat_sub) (simp add: word_le_nat_alt)
    have "(?N - ?s) + ?t < 18446744073709551616"
      using lt s unat_u64_less [of "cb_numEntries b"] by linarith
    then have "unat (getBufferSize b) = (?N - ?s) + ?t"
      using ne False d by (simp add: getBufferSize_def unat_word_ariths(1))
    then show ?thesis using wrap \<open>n < ?N\<close> lt s t by (auto simp: mod_if split: if_splits)
  qed
qed

section \<open>Reachable buffers\<close>

lemma cb_inv_new:
  "0 < N \<Longrightarrow> cb_inv (0, newCircularReceiveBuffer base esz N True)"
  by (auto simp: newCircularReceiveBuffer_def wf_cbuf_def sr_ok_def unat_gt_0 word_less_nat_alt)

lemma cb_inv_recv:
  assumes "cb_inv (n, b)"
  shows "cb_inv (n, incHeadAfterMsgProcessed b)"
proof -
  have "cb_head b < cb_numEntries b" using assms by (simp add: wf_cbuf_def)
  moreover from this have "0 < cb_numEntries b" by (rule le_less_trans [OF word_zero_le])
  ultimately show ?thesis
    using assms by (auto simp: incHeadAfterMsgProcessed_def Let_def wf_cbuf_def sr_ok_def not_le)
qed

text \<open>
  A sender's copy under the protocol: start empty, write a slot while one is free, learn that the
  receiver has freed one, advance the receiver's head; the index counts the slots in flight.
\<close>

inductive cb_reach :: "addr \<Rightarrow> u64 \<Rightarrow> u64 \<Rightarrow> nat \<Rightarrow> CircularReceiveBuffer \<Rightarrow> bool"
  for base :: addr and esz :: u64 and N :: u64 where
  fresh: "cb_reach base esz N 0 (newCircularReceiveBuffer base esz N True)"
| put: "cb_reach base esz N n b \<Longrightarrow> n < unat N \<Longrightarrow> sender_write b = Inr b1 \<Longrightarrow>
    cb_reach base esz N (Suc n) b1"
| free: "cb_reach base esz N (Suc n) b \<Longrightarrow> incSendersHeadToFreeSpace 1 b = Inr b1 \<Longrightarrow>
    cb_reach base esz N n b1"
| recv: "cb_reach base esz N n b \<Longrightarrow> cb_reach base esz N n (incHeadAfterMsgProcessed b)"

lemma cb_reach_inv:
  assumes "cb_reach base esz N n b" and "1 < unat N"
  shows "cb_inv (n, b) \<and> cb_numEntries b = N"
  using assms(1)
proof induction
  case fresh
  have "0 < N" using assms(2) by (simp add: word_less_nat_alt)
  then show ?case using cb_inv_new [of N base esz] by (simp add: newCircularReceiveBuffer_def del: cb_inv.simps)
next
  case (put n b b1)
  then have i: "cb_inv (n, b)" "cb_numEntries b = N" by simp_all
  then have "b1 = set_full (bump_tail (mark_tail b))"
    using put.hyps(3) sender_write_eq [of b] by simp
  with i cb_inv_write [OF i(1)] put.hyps(2) show ?case by (simp del: cb_inv.simps)
next
  case (free n b b1)
  with cb_inv_free [of n b] assms(2) show ?case by (auto simp del: cb_inv.simps)
next
  case (recv n b)
  then show ?case using cb_inv_recv [of n b]
    by (auto simp: incHeadAfterMsgProcessed_def Let_def simp del: cb_inv.simps)
qed

lemma unat_getAvailSlots:
  assumes "cb_inv (n, b)"
  shows "unat (getAvailSlots b) =
    (if n = unat (cb_numEntries b) then unat (cb_numEntries b) else unat (cb_numEntries b) - n)"
proof (cases "n = 0")
  case True
  then show ?thesis using cb_inv_counts(1) [OF assms] by (simp add: getAvailSlots_def)
next
  case False
  let ?N = "unat (cb_numEntries b)"
  have n: "n \<le> ?N" using assms by simp
  have "unat (getBufferSize b) = n mod ?N" using cb_inv_counts(2) [OF assms] False by simp
  moreover have "getBufferSize b \<le> cb_numEntries b"
    using n False calculation by (simp add: word_le_nat_alt)
  moreover have "\<not> isEmpty b" using cb_inv_counts(1) [OF assms] False by simp
  ultimately show ?thesis
    using n False by (auto simp: getAvailSlots_def unat_sub)
qed

section \<open>Properties\<close>

text \<open>
  C30. In every reachable sender's copy with \<open>n\<close> slots in flight (at least two slots in all),
  the buffer is empty exactly when \<open>n = 0\<close> and full exactly when every slot is in flight, the
  tail is \<open>n\<close> slots past the sender's head modulo the size, and a slot carries the current
  sense exactly when it lies before the tail.
\<close>

theorem cbuf_occupancy:
  assumes "1 < unat N" and "cb_reach base esz N n b"
  shows "isEmpty b = (n = 0) \<and> cb_is_full b = (n = unat N) \<and>
    unat (cb_tail b) = (unat (cb_senders_head b) + n) mod unat N \<and>
    length (cb_sr_vector b) = unat N \<and>
    (\<forall>i < unat N. (cb_sr_vector b ! i = cb_buffer_sr b) = (i < unat (cb_tail b)))"
proof -
  have i: "cb_inv (n, b)" "cb_numEntries b = N" using cb_reach_inv assms by blast+
  show ?thesis
    using cb_inv_counts(1) [OF i(1)] i by (auto simp: sr_ok_def wf_cbuf_def)
qed

lemma cb_reach_fill:
  assumes "1 < unat N" and "n \<le> unat N"
  shows "\<exists>b. cb_reach base esz N n b"
  using assms(2)
proof (induction n)
  case 0
  show ?case using cb_reach.fresh by blast
next
  case (Suc n)
  then obtain b where b: "cb_reach base esz N n b" by auto
  with cb_reach_inv [OF _ assms(1)] have "cb_inv (n, b)" by blast
  then obtain b1 where "sender_write b = Inr b1" using sender_write_eq [of b] by simp
  with cb_reach.put [OF b] Suc.prems show ?case by auto
qed

lemma demo_cbuf_full: "\<exists>b. cb_reach 0x4000 64 2 2 b"
  by (rule cb_reach_fill) simp_all

theorem cbuf_occupancy_witness:
  "\<exists>b. cb_reach 0x4000 64 2 2 b \<and> \<not> isEmpty b \<and> cb_is_full b"
  using demo_cbuf_full cbuf_occupancy [where N = 2 and base = "0x4000" and esz = 64 and n = 2] by fastforce

text \<open>
  C31. The sender's write never fails: on a reachable buffer neither the bounds check of
  \<open>sr_vector.at\<close> nor the assertion at the end of \<open>incTail\<close> can fire. This includes the full
  buffer, so the assertion does not detect an over-run.
\<close>

theorem sender_write_total:
  assumes "1 < unat N" and "cb_reach base esz N n b"
  shows "\<exists>b1. sender_write b = Inr b1 \<and>
    unat (cb_tail b1) = Suc (unat (cb_tail b)) mod unat N \<and>
    cb_buffer_sr b1 = (cb_buffer_sr b \<noteq> (cb_tail b1 = 0)) \<and>
    cb_sr_vector b1 = (cb_sr_vector b)[unat (cb_tail b) := cb_buffer_sr b]"
proof -
  have i: "cb_inv (n, b)" "cb_numEntries b = N" using cb_reach_inv assms by blast+
  then have ok: "wf_cbuf (mark_tail b) \<and> cb_numEntries (mark_tail b) = N" by simp
  let ?b = "bump_tail (mark_tail b)"
  have "sender_write b = Inr (set_full ?b)" using sender_write_eq [of b] i by simp
  moreover have "unat (cb_tail ?b) = Suc (unat (cb_tail b)) mod unat N"
    using cb_cursor.adv_pos_mod [OF ok] by simp
  moreover have "cb_buffer_sr ?b = (cb_buffer_sr b \<noteq> (cb_tail ?b = 0))"
    using cb_cursor.adv_sense [OF ok] cb_cursor.adv_pos [OF ok]
    by (auto simp: unat_eq_zero split: if_splits)
  ultimately show ?thesis by (intro exI [of _ "set_full ?b"]) (simp add: mark_tail_def)
qed

theorem sender_write_total_witness:
  "\<exists>b b1. cb_reach 0x4000 64 2 2 b \<and> sender_write b = Inr b1"
  using demo_cbuf_full sender_write_total [where N = 2 and base = "0x4000" and esz = 64 and n = 2] by fastforce

text \<open>
  C32. What the two counters return on a reachable buffer: \<open>getAvailSlots\<close> is the number of
  free slots except on a full buffer, where it is the whole size instead of zero;
  \<open>getBufferSize\<close> is the number of slots in flight except on the empty buffer, where it is
  the whole size, and on the full one, where it is zero.
\<close>

theorem cbuf_counters:
  assumes "1 < unat N" and "cb_reach base esz N n b"
  shows "unat (getAvailSlots b) = (if n = unat N then unat N else unat N - n) \<and>
    unat (getBufferSize b) = (if n = 0 then unat N else if n = unat N then 0 else n)"
proof -
  have i: "cb_inv (n, b)" "cb_numEntries b = N" using cb_reach_inv assms by blast+
  have "n \<le> unat N" using i by simp
  moreover have "n = 0 \<Longrightarrow> getBufferSize b = N"
    using cb_inv_counts(1) [OF i(1)] i(2) by (simp add: getBufferSize_def)
  ultimately show ?thesis
    using unat_getAvailSlots [OF i(1)] cb_inv_counts(2) [OF i(1)] i(2) by auto
qed

theorem cbuf_counters_witness:
  "\<exists>b. cb_reach 0x4000 64 2 2 b \<and> unat (getAvailSlots b) = 2 \<and> unat (getBufferSize b) = 0"
  using demo_cbuf_full cbuf_counters [where N = 2 and base = "0x4000" and esz = 64 and n = 2] by fastforce

text \<open>
  Freeing \<open>inc\<close> slots at once moves the sender's head by \<open>inc\<close> modulo the size only if
  that does not pass the end of the ring; past the end it restarts at slot zero.
\<close>

theorem incSendersHead_wrap:
  assumes "wf_cbuf b" and "cb_is_sender b" and "unat inc \<le> unat (cb_numEntries b)"
    and "unat (cb_senders_head b) + unat inc < 2 ^ 64"
  shows "\<exists>b1. incSendersHeadToFreeSpace inc b = Inr b1 \<and>
    unat (cb_senders_head b1) =
      (if unat (cb_senders_head b) + unat inc < unat (cb_numEntries b)
       then unat (cb_senders_head b) + unat inc else 0) \<and>
    (unat (cb_senders_head b1) = (unat (cb_senders_head b) + unat inc) mod unat (cb_numEntries b)
      \<longleftrightarrow> unat (cb_senders_head b) + unat inc \<le> unat (cb_numEntries b))"
proof -
  let ?s = "unat (cb_senders_head b)" and ?N = "unat (cb_numEntries b)" and ?i = "unat inc"
  have s: "?s < ?N" using assms(1) by (simp add: wf_cbuf_def word_less_nat_alt)
  have "unat (ucast inc :: u64) = ?i" by (simp add: unat_ucast_u32)
  then have u: "unat (cb_senders_head b + ucast inc) = ?s + ?i"
    using assms(4) by (simp add: unat_word_ariths)
  obtain b1 where b1: "incSendersHeadToFreeSpace inc b = Inr b1"
    and h: "cb_senders_head b1 = (if cb_numEntries b \<le> cb_senders_head b + ucast inc then 0
      else cb_senders_head b + ucast inc)"
    using assms(2) by (auto simp: incSendersHeadToFreeSpace_def Let_def)
  have v: "unat (cb_senders_head b1) = (if ?s + ?i < ?N then ?s + ?i else 0)"
    using h u by (auto simp: word_le_nat_alt)
  have "(?s + ?i) mod ?N = (if ?s + ?i < ?N then ?s + ?i else ?s + ?i - ?N)"
    using s assms(3) by (simp add: le_mod_geq)
  with v b1 show ?thesis by auto
qed

theorem incSendersHead_wrap_witness:
  "\<exists>b1. incSendersHeadToFreeSpace 3 (newCircularReceiveBuffer 0x4000 64 4 True\<lparr>cb_senders_head := 2\<rparr>)
     = Inr b1 \<and> unat (cb_senders_head b1) = 0"
  using incSendersHead_wrap [of "newCircularReceiveBuffer 0x4000 64 4 True\<lparr>cb_senders_head := 2\<rparr>" 3]
  by (auto simp: newCircularReceiveBuffer_def wf_cbuf_def)

end
