(* ===== verification/Zsim_Nic.thy ===== *)
theory Zsim_Nic
  imports C_Memory Sense_Ring
begin

unbundle bit_operations_syntax

text \<open>
  The NIC library \<open>libzsim/zsim_nic_defines.{hpp,cpp}\<close>: work-queue (WQ) and completion-queue
  (CQ) rings shared with the simulated NIC, the posting operations \<open>rmc_hw_send\<close> and
  \<open>rmc_hw_recv\<close>, and the polling loop \<open>rmc_check_cq\<close>.

  The NIC and the simulator are not part of the sources. They appear as a parameter
  \<open>nic\<close>, which also stands for the other threads of the process: at every point where the code
  re-reads a \<open>volatile\<close> ring slot, the NIC gets a turn and may change the machine in any way; what
  a theorem needs of it is a hypothesis of that theorem. The magic instruction of \<open>register_buffer\<close> is recorded in a log.
\<close>

section \<open>Constants and structures\<close>

definition MAX_NUM_WQ :: nat where
  "MAX_NUM_WQ = 512"

definition NOTIFY_WQ_WRITE :: u64 where
  "NOTIFY_WQ_WRITE = 0xA"

definition RMC_SABRE :: u32 where
  "RMC_SABRE = 4"

definition RMC_RECV :: u32 where
  "RMC_RECV = 5"

definition SEND_OP_SHIFT :: nat where
  "SEND_OP_SHIFT = 4"

definition INCOMING_SEND_SHIFT :: nat where
  "INCOMING_SEND_SHIFT = 1"

definition INCOMING_RESP_SHIFT :: nat where
  "INCOMING_RESP_SHIFT = 2"

definition RMC_SEND :: u32 where
  "RMC_SEND = push_bit SEND_OP_SHIFT 1"

definition RMC_INCOMING_SEND :: u32 where
  "RMC_INCOMING_SEND = push_bit SEND_OP_SHIFT 1 OR push_bit INCOMING_SEND_SHIFT 1"

definition RMC_INCOMING_RESP :: u32 where
  "RMC_INCOMING_RESP = push_bit SEND_OP_SHIFT 1 OR push_bit INCOMING_RESP_SHIFT 1"

definition RMC_INVAL :: u32 where
  "RMC_INVAL = 42"

definition CACHE_BLOCK_BITS :: nat where
  "CACHE_BLOCK_BITS = 6"

definition CACHE_BLOCK_SIZE :: u64 where
  "CACHE_BLOCK_SIZE = 64"

definition SR_CTX_ID :: u16 where
  "SR_CTX_ID = 7"

text \<open>The page size of the ZSIM build.\<close>

definition EMULATOR_SW_PAGE_SIZE :: u64 where
  "EMULATOR_SW_PAGE_SIZE = 8192"

record wq_entry_t =
  wqe_op :: u32
  wqe_SR :: bool
  wqe_valid :: bool
  wqe_buf_addr :: u64
  wqe_cid :: u32
  wqe_nid :: u64
  wqe_offset :: u64
  wqe_length :: u64

record cq_entry_t =
  cqe_SR :: bool
  cqe_valid :: bool
  cqe_success :: u32
  cqe_tid :: u32
  cqe_recv_buf_addr :: u64

record rmc_wq_t =
  wq_q :: "wq_entry_t list"
  wq_head :: u32
  wq_SR :: bool

record rmc_cq_t =
  cq_q :: "cq_entry_t list"
  cq_tail :: u32
  cq_SR :: bool

record successStruct =
  ss_success :: u32
  ss_op :: u32
  ss_tid :: u32
  ss_recv_buf_addr :: u64

text \<open>
  The machine: data memory, the rings and the shared flags by address, the number of NIC turns
  so far, the log of magic instructions, and two history variables that no code reads: for every
  queue, the work-queue entries written to it so far, and the incoming-send completions handed to
  the application from it.
\<close>

datatype magic_arg = Imm u64 | Var_addr

record machine =
  mem :: memory
  wq_at :: "addr \<rightharpoonup> rmc_wq_t"
  cq_at :: "addr \<rightharpoonup> rmc_cq_t"
  flag_at :: "addr \<rightharpoonup> bool"
  now :: nat
  magic :: "(magic_arg \<times> u64) list"
  posted :: "addr \<Rightarrow> wq_entry_t list"
  delivered :: "addr \<Rightarrow> cq_entry_t list"

type_synonym nic = "nat \<Rightarrow> machine \<Rightarrow> machine"

definition nic_turn :: "nic \<Rightarrow> machine \<Rightarrow> machine" where
  "nic_turn nic m = (nic (now m) m)\<lparr>now := Suc (now m)\<rparr>"

definition load_wq :: "addr \<Rightarrow> machine \<Rightarrow> rmc_wq_t res" where
  "load_wq p m = of_option Segv (wq_at m p)"

definition load_cq :: "addr \<Rightarrow> machine \<Rightarrow> rmc_cq_t res" where
  "load_cq p m = of_option Segv (cq_at m p)"

definition store_wq :: "addr \<Rightarrow> rmc_wq_t \<Rightarrow> machine \<Rightarrow> machine" where
  "store_wq p w m = m\<lparr>wq_at := (wq_at m)(p \<mapsto> w)\<rparr>"

definition store_cq :: "addr \<Rightarrow> rmc_cq_t \<Rightarrow> machine \<Rightarrow> machine" where
  "store_cq p c m = m\<lparr>cq_at := (cq_at m)(p \<mapsto> c)\<rparr>"

section \<open>Operations\<close>

text \<open>
  \<open>register_buffer(val, field)\<close> executes the magic instruction; when \<open>val\<close> is the address
  of a pointer variable of the caller (\<open>Var_addr\<close>), the simulator answers by storing a pointer
  there, which the callers receive as a parameter.
\<close>

definition register_buffer :: "magic_arg \<Rightarrow> u64 \<Rightarrow> machine \<Rightarrow> machine" where
  "register_buffer val field m = m\<lparr>magic := magic m @ [(val, field)]\<rparr>"

definition reg_wq :: "machine \<Rightarrow> int \<times> machine" where
  "reg_wq m = (0, register_buffer Var_addr 0 m)"

definition reg_cq :: "machine \<Rightarrow> int \<times> machine" where
  "reg_cq m = (0, register_buffer Var_addr 1 m)"

text \<open>The slot to write is named by its queue and its index.\<close>

definition create_wq_entry ::
  "u32 \<Rightarrow> bool \<Rightarrow> u32 \<Rightarrow> u64 \<Rightarrow> u64 \<Rightarrow> u64 \<Rightarrow> u64 \<Rightarrow> addr \<times> nat \<Rightarrow> machine \<Rightarrow> machine res" where
  "create_wq_entry op SR cid nid buf_addr offset len slot m =
     (case slot of (p, i) \<Rightarrow>
      let anEntry = \<lparr>wqe_op = op, wqe_SR = SR, wqe_valid = True, wqe_buf_addr = buf_addr,
                     wqe_cid = cid, wqe_nid = nid, wqe_offset = offset, wqe_length = len\<rparr>
      in bindR (load_wq p m) (\<lambda>w.
         bindR (arr_set (wq_q w) i anEntry) (\<lambda>q'.
         Inr (register_buffer (Imm NULL) NOTIFY_WQ_WRITE
                ((store_wq p (w\<lparr>wq_q := q'\<rparr>) m)\<lparr>posted := (posted m)(p := posted m p @ [anEntry])\<rparr>)))))"

text \<open>Advancing the head: the increment, the wrap-around and the sense reversal.\<close>

definition bump_wq :: "rmc_wq_t \<Rightarrow> rmc_wq_t" where
  "bump_wq w =
     (let w1 = w\<lparr>wq_head := wq_head w + 1\<rparr>
      in if MAX_NUM_WQ \<le> unat (wq_head w1) then w1\<lparr>wq_head := 0, wq_SR := \<not> wq_SR w1\<rparr> else w1)"

definition bump_cq :: "rmc_cq_t \<Rightarrow> rmc_cq_t" where
  "bump_cq c =
     (let c1 = c\<lparr>cq_tail := cq_tail c + 1\<rparr>
      in if MAX_NUM_WQ \<le> unat (cq_tail c1) then c1\<lparr>cq_tail := 0, cq_SR := \<not> cq_SR c1\<rparr> else c1)"

definition rmc_hw_send ::
  "addr \<Rightarrow> u32 \<Rightarrow> u64 \<Rightarrow> u64 \<Rightarrow> u64 \<Rightarrow> machine \<Rightarrow> (int \<times> machine) res" where
  "rmc_hw_send p ctx_id data_address len nid m =
     bindR (load_wq p m) (\<lambda>wq.
     let head = unat (wq_head wq) in
     bindR (arr_get (wq_q wq) head) (\<lambda>e.
     if wqe_valid e then Inr (-1, m)
     else
       let len1 = len + (CACHE_BLOCK_SIZE - 1);
           len2 = drop_bit CACHE_BLOCK_BITS len1
       in bindR (create_wq_entry RMC_SEND (wq_SR wq) ctx_id nid data_address 0 len2 (p, head) m) (\<lambda>m1.
          bindR (load_wq p m1) (\<lambda>wq1. Inr (0, store_wq p (bump_wq wq1) m1)))))"

definition rmc_hw_recv ::
  "addr \<Rightarrow> u32 \<Rightarrow> u64 \<Rightarrow> u64 \<Rightarrow> machine \<Rightarrow> (int \<times> machine) res" where
  "rmc_hw_recv p ctx_id recv_buf len m =
     bindR (load_wq p m) (\<lambda>wq.
     let head = unat (wq_head wq) in
     bindR (arr_get (wq_q wq) head) (\<lambda>e.
     if wqe_valid e then Inr (-1, m)
     else
       bindR (create_wq_entry RMC_RECV (wq_SR wq) ctx_id 0 recv_buf 0 len (p, head) m) (\<lambda>m1.
       bindR (load_wq p m1) (\<lambda>wq1. Inr (0, store_wq p (bump_wq wq1) m1)))))"

subsection \<open>Polling the completion queue\<close>

text \<open>
  The body of the inner loop ends the call (\<open>Returned\<close>) or goes on with a new
  \<open>cq_tail\<close> (\<open>Drained\<close>). \<open>raw\<close> is the local copy of the entry under the cursor
  \<open>ctail\<close>, \<open>n\<close> the loop's statistics counter after its increment.
\<close>

datatype drain = Returned successStruct machine | Drained successStruct u32 machine

definition check_cq_consume ::
  "addr \<Rightarrow> addr \<Rightarrow> nat \<Rightarrow> cq_entry_t \<Rightarrow> u32 \<Rightarrow> successStruct \<Rightarrow> machine \<Rightarrow> drain res" where
  "check_cq_consume wqp cqp n raw ctail ret m =
     (let m0 = (if 1 < n then register_buffer (Imm 1) 0x11 m else m) in
      bindR (load_cq cqp m0) (\<lambda>cq.
      bindR (arr_get (cq_q cq) (unat ctail)) (\<lambda>e.
      let cq1 = bump_cq (cq\<lparr>cq_q := (cq_q cq)[unat ctail := e\<lparr>cqe_valid := False\<rparr>]\<rparr>);
          m1 = store_cq cqp cq1 m0
      in if cqe_success raw = 0x7F then
           Inr (Returned (ret\<lparr>ss_recv_buf_addr := cqe_recv_buf_addr raw,
                              ss_op := RMC_INCOMING_SEND, ss_tid := cqe_tid raw\<rparr>)
                         (m1\<lparr>delivered := (delivered m1)(cqp := delivered m1 cqp @ [raw])\<rparr>))
         else if cqe_success raw = 1 then
           Inr (Returned (ret\<lparr>ss_recv_buf_addr := cqe_recv_buf_addr raw,
                              ss_op := RMC_INCOMING_RESP, ss_tid := cqe_tid raw\<rparr>) m1)
         else
           bindR (load_wq wqp m1) (\<lambda>wq.
           bindR (arr_get (wq_q wq) (unat (cqe_tid raw))) (\<lambda>we.
           let ret1 = ret\<lparr>ss_op := wqe_op we\<rparr>;
               ret2 = (if ss_op ret1 = RMC_SABRE then
                         let ret3 = ret1\<lparr>ss_success := cqe_success e\<rparr>
                         in if ss_success ret3 = 0 then ret3\<lparr>ss_tid := cqe_tid raw\<rparr> else ret3
                       else ret1\<lparr>ss_op := 0\<rparr>)
           in Inr (Drained ret2 (cq_tail cq1) m1))))))"

text \<open>The inner loop; the NIC gets a turn before the entry under the cursor is read again.\<close>

partial_function (option) check_cq_inner ::
  "nic \<Rightarrow> addr \<Rightarrow> addr \<Rightarrow> nat \<Rightarrow> cq_entry_t \<Rightarrow> u32 \<Rightarrow> successStruct \<Rightarrow> machine \<Rightarrow> drain exec" where
  "check_cq_inner nic wqp cqp n raw ctail ret m =
     (case load_cq cqp m of
        Inl e \<Rightarrow> Some (Inl e)
      | Inr cq \<Rightarrow>
          if cqe_SR raw = cq_SR cq \<and> ss_success ret \<noteq> 0 then
            (case check_cq_consume wqp cqp (Suc n) raw ctail ret m of
               Inl e \<Rightarrow> Some (Inl e)
             | Inr (Returned ret1 m1) \<Rightarrow> Some (Inr (Returned ret1 m1))
             | Inr (Drained ret1 ctail1 m1) \<Rightarrow>
                 (case bindR (load_cq cqp (nic_turn nic m1)) (\<lambda>cq2. arr_get (cq_q cq2) (unat ctail1)) of
                    Inl e \<Rightarrow> Some (Inl e)
                  | Inr raw1 \<Rightarrow>
                      check_cq_inner nic wqp cqp (Suc n) raw1 ctail1 ret1 (nic_turn nic m1)))
          else Some (Inr (Drained ret ctail m)))"

text \<open>What one turn of the outer loop reads: the entry at the WQ head and the one at \<open>ctail\<close>.\<close>

definition check_cq_fetch ::
  "addr \<Rightarrow> addr \<Rightarrow> u32 \<Rightarrow> machine \<Rightarrow> (wq_entry_t \<times> cq_entry_t) res" where
  "check_cq_fetch wqp cqp ctail m =
     bindR (load_wq wqp m) (\<lambda>wq.
     bindR (arr_get (wq_q wq) (unat (wq_head wq))) (\<lambda>raw_wqe.
     bindR (load_cq cqp m) (\<lambda>cq.
     bindR (arr_get (cq_q cq) (unat ctail)) (\<lambda>raw_cqe. Inr (raw_wqe, raw_cqe)))))"

definition outer_start :: "nic \<Rightarrow> nat \<Rightarrow> machine \<Rightarrow> machine" where
  "outer_start nic n m =
     nic_turn nic (if 1 < Suc n then register_buffer (Imm 1) 0x12 m else m)"

partial_function (option) check_cq_outer ::
  "nic \<Rightarrow> addr \<Rightarrow> addr \<Rightarrow> nat \<Rightarrow> u32 \<Rightarrow> successStruct \<Rightarrow> machine \<Rightarrow> (successStruct \<times> machine) exec" where
  "check_cq_outer nic wqp cqp n ctail ret m =
     (case check_cq_fetch wqp cqp ctail (outer_start nic n m) of
        Inl e \<Rightarrow> Some (Inl e)
      | Inr (raw_wqe, raw_cqe) \<Rightarrow>
          (case check_cq_inner nic wqp cqp 0 raw_cqe ctail ret (outer_start nic n m) of
             None \<Rightarrow> None
           | Some (Inl e) \<Rightarrow> Some (Inl e)
           | Some (Inr (Returned ret1 m1)) \<Rightarrow> Some (Inr (ret1, m1))
           | Some (Inr (Drained ret1 ctail1 m1)) \<Rightarrow>
               if wqe_valid raw_wqe \<and> ss_success ret1 \<noteq> 0
               then check_cq_outer nic wqp cqp (Suc n) ctail1 ret1 m1
               else Some (Inr (ret1, register_buffer (Imm 1) 0x11 m1))))"

text \<open>
  \<open>junk\<close> is the indeterminate content of the local \<open>successStruct ret\<close>, of which only
  \<open>success\<close> and \<open>op\<close> are assigned before the loop.
\<close>

definition rmc_check_cq ::
  "nic \<Rightarrow> successStruct \<Rightarrow> addr \<Rightarrow> addr \<Rightarrow> machine \<Rightarrow> (successStruct \<times> machine) exec" where
  "rmc_check_cq nic junk wqp cqp m =
     (case bindR (load_wq wqp m) (\<lambda>_. load_cq cqp m) of
        Inl e \<Rightarrow> Some (Inl e)
      | Inr cq \<Rightarrow> check_cq_outer nic wqp cqp 0 (cq_tail cq)
                    (junk\<lparr>ss_success := 1, ss_op := RMC_INVAL\<rparr>) m)"

end
