(* ===== verification/Nic_Kal.thy ===== *)
theory Nic_Kal
  imports Zsim_Nic
begin

text \<open>
  The registration calls of \<open>libzsim/zsim_nic_defines.cpp\<close> that allocate memory:
  \<open>kal_reg_ctx\<close> and \<open>kal_reg_send_recv_bufs\<close>. The allocators of the C library are
  parameters: a function from the requested size (and alignment) to the address of the new
  block, or \<open>None\<close> when the allocation fails.
\<close>

record send_buf_management_t =
  sbm_head :: u16
  sbm_tail :: u16
  sbm_lock :: u8

record ctx_entry_t =
  ce_ctx_id :: u16
  ce_ctx_base_addr :: addr
  ce_send_buf_addr :: addr
  ce_recv_buf_addr :: addr
  ce_num_nodes :: u16
  ce_msg_entry_size :: u64
  ce_msgs_per_dest :: u64
  ce_buf_management :: addr

text \<open>The size of the control structure: two 16-bit fields, the lock and the padding.\<close>

definition sizeof_send_buf_management :: u64 where
  "sizeof_send_buf_management = 2 + 2 + 1 + 59"

text \<open>
  \<open>ctx_size\<close> is an \<open>int\<close>, so the product is cut to 32 bits and then sign-extended to the
  \<open>size_t\<close> of \<open>posix_memalign\<close>, which leaves the pointer alone when it fails. The result
  is the return code and the new value of \<open>*ctx_ptr\<close>.
\<close>

definition kal_reg_ctx ::
  "(u64 \<Rightarrow> u64 \<Rightarrow> addr option) \<Rightarrow> int \<Rightarrow> u32 \<Rightarrow> addr \<Rightarrow> u32 \<Rightarrow> int \<times> addr" where
  "kal_reg_ctx posix_memalign fd ctx_id ctx_ptr num_pages =
     (let ctx_size = num_pages * ucast EMULATOR_SW_PAGE_SIZE
      in if ctx_ptr = NULL
         then (case posix_memalign EMULATOR_SW_PAGE_SIZE (scast ctx_size) of
                 None \<Rightarrow> (0, ctx_ptr)
               | Some a \<Rightarrow> (0, a))
         else (0, ctx_ptr))"

text \<open>
  The loop over the control structures; \<open>arr\<close> is the freshly allocated, uninitialised
  array.
\<close>

function init_send_ctrl ::
  "nat \<Rightarrow> nat \<Rightarrow> u64 \<Rightarrow> send_buf_management_t list \<Rightarrow> send_buf_management_t list res" where
  "init_send_ctrl i n entries arr =
     (if i < n then
        bindR (arr_get arr i) (\<lambda>e.
        bindR (arr_set arr i (e\<lparr>sbm_head := 0, sbm_tail := ucast (entries - 1), sbm_lock := 0\<rparr>))
          (init_send_ctrl (Suc i) n entries))
      else Inr arr)"
  by pat_completeness auto

termination init_send_ctrl
  by (relation "measure (\<lambda>(i, n, _, _). n - i)") auto

declare init_send_ctrl.simps [simp del]

text \<open>
  What the call leaves behind: the context entry, the pointer \<open>*send_ctrl\<close> and the array it
  points to.
\<close>

record kal_bufs =
  kb_ctx :: "ctx_entry_t option"
  kb_send_ctrl :: addr
  kb_ctrl :: "send_buf_management_t list"

definition kal_reg_send_recv_bufs ::
  "(u64 \<Rightarrow> addr option) \<Rightarrow> (nat \<Rightarrow> send_buf_management_t) \<Rightarrow> int \<Rightarrow> ctx_entry_t option \<Rightarrow>
   addr \<Rightarrow> u64 \<Rightarrow> u64 \<Rightarrow> u16 \<Rightarrow> addr \<Rightarrow> addr \<Rightarrow> (int \<times> kal_bufs) res" where
  "kal_reg_send_recv_bufs malloc junk kfd ctx_entry send_buf_base send_buf_entries msg_entry_size
     num_nodes recv_buf_base send_ctrl =
     (case ctx_entry of
        None \<Rightarrow> Inr (-1, \<lparr>kb_ctx = None, kb_send_ctrl = send_ctrl, kb_ctrl = []\<rparr>)
      | Some ce \<Rightarrow>
          if msg_entry_size mod CACHE_BLOCK_SIZE \<noteq> 0
          then Inr (-1, \<lparr>kb_ctx = Some ce, kb_send_ctrl = send_ctrl, kb_ctrl = []\<rparr>)
          else
            let ce1 = ce\<lparr>ce_msg_entry_size := msg_entry_size, ce_num_nodes := num_nodes,
                         ce_msgs_per_dest := send_buf_entries\<rparr>
            in if sizeof_send_buf_management \<noteq> CACHE_BLOCK_SIZE then Inl Assertion
               else (case malloc (ucast num_nodes * sizeof_send_buf_management) of
                   None \<Rightarrow> Inr (-1, \<lparr>kb_ctx = Some ce1, kb_send_ctrl = NULL, kb_ctrl = []\<rparr>)
                 | Some a \<Rightarrow>
                     bindR (init_send_ctrl 0 (unat num_nodes) send_buf_entries
                              (map junk [0..<unat num_nodes])) (\<lambda>arr.
                     Inr (0, \<lparr>kb_ctx = Some (ce1\<lparr>ce_send_buf_addr := send_buf_base,
                                ce_recv_buf_addr := recv_buf_base, ce_buf_management := a\<rparr>),
                              kb_send_ctrl = a, kb_ctrl = arr\<rparr>))))"

section \<open>Lemmas\<close>

lemma init_send_ctrl_run:
  assumes "i \<le> n" and "length arr = n"
  shows "\<exists>arr1. init_send_ctrl i n entries arr = Inr arr1 \<and> length arr1 = n \<and>
    (\<forall>j < n. arr1 ! j = (if i \<le> j
       then (arr ! j)\<lparr>sbm_head := 0, sbm_tail := ucast (entries - 1), sbm_lock := 0\<rparr> else arr ! j))"
  using assms
proof (induction "n - i" arbitrary: i arr)
  case 0
  then show ?case by (subst init_send_ctrl.simps) auto
next
  case (Suc k)
  then have i: "i < n" and k: "k = n - Suc i" by simp_all
  let ?e = "(arr ! i)\<lparr>sbm_head := 0, sbm_tail := ucast (entries - 1), sbm_lock := 0\<rparr>"
  have "init_send_ctrl i n entries arr = init_send_ctrl (Suc i) n entries (arr[i := ?e])"
    using i Suc.prems by (subst init_send_ctrl.simps) simp
  moreover obtain arr1 where "init_send_ctrl (Suc i) n entries (arr[i := ?e]) = Inr arr1"
    "length arr1 = n" "\<forall>j < n. arr1 ! j = (if Suc i \<le> j
       then (arr[i := ?e] ! j)\<lparr>sbm_head := 0, sbm_tail := ucast (entries - 1), sbm_lock := 0\<rparr>
       else arr[i := ?e] ! j)"
    using Suc.hyps(1) [OF k, of "arr[i := ?e]"] Suc.prems i by auto
  ultimately show ?case
    using Suc.prems by (intro exI [of _ arr1]) (auto simp: nth_list_update)
qed

lemma kal_reg_send_recv_bufs_ok:
  assumes "msg_entry_size mod CACHE_BLOCK_SIZE = 0"
    and "malloc (ucast num_nodes * sizeof_send_buf_management) = Some a"
  shows "\<exists>arr. kal_reg_send_recv_bufs malloc junk kfd (Some ce) sb entries msg_entry_size num_nodes rb sc =
    Inr (0, \<lparr>kb_ctx = Some (ce\<lparr>ce_msg_entry_size := msg_entry_size, ce_num_nodes := num_nodes,
        ce_msgs_per_dest := entries, ce_send_buf_addr := sb, ce_recv_buf_addr := rb,
        ce_buf_management := a\<rparr>), kb_send_ctrl = a, kb_ctrl = arr\<rparr>) \<and>
    length arr = unat num_nodes \<and>
    (\<forall>e \<in> set arr. sbm_head e = 0 \<and> sbm_tail e = ucast (entries - 1) \<and> sbm_lock e = 0)"
proof -
  let ?arr = "map junk [0..<unat num_nodes]"
  obtain arr where arr: "init_send_ctrl 0 (unat num_nodes) entries ?arr = Inr arr"
    "length arr = unat num_nodes" "\<forall>j < unat num_nodes. arr ! j =
      (?arr ! j)\<lparr>sbm_head := 0, sbm_tail := ucast (entries - 1), sbm_lock := 0\<rparr>"
    using init_send_ctrl_run [of 0 "unat num_nodes" ?arr entries] by auto
  have "\<forall>e \<in> set arr. sbm_head e = 0 \<and> sbm_tail e = ucast (entries - 1) \<and> sbm_lock e = 0"
    using arr(2,3) by (auto simp: in_set_conv_nth)
  moreover have "sizeof_send_buf_management = CACHE_BLOCK_SIZE"
    by (simp add: sizeof_send_buf_management_def CACHE_BLOCK_SIZE_def)
  ultimately show ?thesis
    using assms arr(1,2)
    by (intro exI [of _ arr]) (simp add: kal_reg_send_recv_bufs_def Let_def)
qed

section \<open>Properties\<close>

text \<open>
  \<open>kal_reg_send_recv_bufs\<close> never trips its assertion; it returns -1 for a missing
  context entry, for a message size that is no multiple of the cache block (both without touching
  anything) and when the control array cannot be allocated. Otherwise it returns 0, the context
  entry names the buffers and the dimensions, and every control structure starts with head 0,
  tail \<open>entries - 1\<close> cut to 16 bits, and the lock open.
\<close>

theorem kal_reg_send_recv_bufs_branches:
  "\<exists>rc kb. kal_reg_send_recv_bufs malloc junk kfd ctx sb entries msz nn rb sc = Inr (rc, kb) \<and>
    rc = (if ctx \<noteq> None \<and> 64 dvd unat msz \<and> malloc (ucast nn * 64) \<noteq> None then 0 else -1) \<and>
    (if ctx \<noteq> None \<and> 64 dvd unat msz
     then map_option ce_msg_entry_size (kb_ctx kb) = Some msz \<and>
       map_option ce_msgs_per_dest (kb_ctx kb) = Some entries \<and>
       map_option ce_num_nodes (kb_ctx kb) = Some nn
     else kb_ctx kb = ctx \<and> kb_send_ctrl kb = sc) \<and>
    (if rc = 0 then map_option ce_buf_management (kb_ctx kb) = malloc (ucast nn * 64) \<and>
       kb_ctrl kb = map (\<lambda>i. \<lparr>sbm_head = 0, sbm_tail = ucast (entries - 1), sbm_lock = 0\<rparr>)
                      [0..<unat nn]
     else kb_ctrl kb = [])"
proof -
  let ?k = "kal_reg_send_recv_bufs malloc junk kfd ctx sb entries msz nn rb sc"
  have sz: "sizeof_send_buf_management = 64" "CACHE_BLOCK_SIZE = 64"
    by (simp_all add: sizeof_send_buf_management_def CACHE_BLOCK_SIZE_def)
  have dvd: "msz mod 64 = 0 \<longleftrightarrow> 64 dvd unat msz"
    by (simp add: word_unat_eq_iff unat_mod dvd_eq_mod_eq_0)
  consider "ctx = None" | ce where "ctx = Some ce" "\<not> 64 dvd unat msz"
    | ce where "ctx = Some ce" "64 dvd unat msz" "malloc (ucast nn * 64) = None"
    | ce a where "ctx = Some ce" "64 dvd unat msz" "malloc (ucast nn * 64) = Some a"
    by fastforce
  then show ?thesis
  proof cases
    case 4
    then obtain arr where arr: "?k = Inr (0, \<lparr>kb_ctx = Some (ce\<lparr>ce_msg_entry_size := msz,
        ce_num_nodes := nn, ce_msgs_per_dest := entries, ce_send_buf_addr := sb,
        ce_recv_buf_addr := rb, ce_buf_management := a\<rparr>), kb_send_ctrl = a, kb_ctrl = arr\<rparr>)"
      "length arr = unat nn"
      "\<forall>e \<in> set arr. sbm_head e = 0 \<and> sbm_tail e = ucast (entries - 1) \<and> sbm_lock e = 0"
      using kal_reg_send_recv_bufs_ok [of msz malloc nn a junk kfd ce sb entries rb sc]
      by (auto simp: sz dvd)
    from arr(2,3) have "arr = map (\<lambda>i. \<lparr>sbm_head = 0, sbm_tail = ucast (entries - 1), sbm_lock = 0\<rparr>)
        [0..<unat nn]"
      by (intro nth_equalityI) (simp_all add: all_set_conv_all_nth send_buf_management_t.equality)
    with arr(1) 4 show ?thesis by simp
  qed (simp_all add: kal_reg_send_recv_bufs_def sz dvd Let_def)
qed

text \<open>
  \<open>kal_reg_ctx\<close> reports success whatever the allocator does: it returns 0 also when
  \<open>posix_memalign\<close> fails, and the context pointer is then still null.
\<close>

theorem kal_reg_ctx_always_succeeds:
  "kal_reg_ctx memalign fd cid ptr pages =
    (0, if ptr = NULL then (case memalign 8192 (scast (pages * 8192)) of None \<Rightarrow> NULL | Some a \<Rightarrow> a)
        else ptr)"
  by (simp add: kal_reg_ctx_def Let_def EMULATOR_SW_PAGE_SIZE_def split: option.splits)

end
