(* ===== verification/Stats.thy ===== *)
theory Stats
  imports C_Memory
begin

text \<open>
  The container of service times, \<open>rpc_shm/statContainer.tpp\<close>, at the element type
  \<open>double\<close> the sources use. No arithmetic is done on the elements, so a \<open>double\<close> is its
  64-bit pattern. The file system is a map from names to contents with the set of names that can
  be opened for writing; a stream that fails to open, or has hit the end of its file, ignores
  further transfers without an error the code would see.
\<close>

type_synonym double_bits = u64

record StatsContainer =
  underlyingContainer :: "double_bits list"

record file_system =
  fs_files :: "string \<rightharpoonup> u8 list"
  fs_writable :: "string \<Rightarrow> bool"

definition stats_append :: "double_bits \<Rightarrow> StatsContainer \<Rightarrow> StatsContainer" where
  "stats_append x c = c\<lparr>underlyingContainer := underlyingContainer c @ [x]\<rparr>"

definition stats_get :: "nat \<Rightarrow> StatsContainer \<Rightarrow> double_bits res" where
  "stats_get idx c = vec_at (underlyingContainer c) idx"

text \<open>The loop of \<open>writeToFile\<close>: the bytes the stream takes, element by element.\<close>

fun write_elems :: "double_bits list \<Rightarrow> u8 list \<Rightarrow> u8 list" where
  "write_elems [] out = out"
| "write_elems (x # xs) out = write_elems xs (out @ le64 x)"

definition writeToFile :: "string \<Rightarrow> StatsContainer \<Rightarrow> file_system \<Rightarrow> file_system" where
  "writeToFile fname c fs =
     (if fs_writable fs fname
      then fs\<lparr>fs_files := (fs_files fs)(fname \<mapsto> write_elems (underlyingContainer c) [])\<rparr>
      else fs)"

text \<open>\<open>std::vector::resize\<close>: new elements are zero.\<close>

definition vec_resize :: "nat \<Rightarrow> double_bits list \<Rightarrow> double_bits list" where
  "vec_resize n xs = take n xs @ replicate (n - length xs) 0"

text \<open>
  The loop of \<open>readFromFile\<close>. The stream is the bytes left, or \<open>None\<close> once it is in the
  failed state; a read that meets the end of the file stores the bytes it got and fails.
\<close>

fun read_elems :: "double_bits list \<Rightarrow> u8 list option \<Rightarrow> double_bits list" where
  "read_elems [] s = []"
| "read_elems (x # xs) None = x # read_elems xs None"
| "read_elems (x # xs) (Some bs) =
     (if 8 \<le> length bs
      then from_le64 (take 8 bs) # read_elems xs (Some (drop 8 bs))
      else from_le64 (bs @ drop (length bs) (le64 x)) # read_elems xs None)"

definition readFromFile :: "string \<Rightarrow> nat \<Rightarrow> file_system \<Rightarrow> StatsContainer \<Rightarrow> StatsContainer" where
  "readFromFile fname num_elements fs c =
     (let c1 = c\<lparr>underlyingContainer := vec_resize num_elements (underlyingContainer c)\<rparr>
      in c1\<lparr>underlyingContainer := read_elems (underlyingContainer c1) (fs_files fs fname)\<rparr>)"

section \<open>Lemmas\<close>

lemma length_vec_resize [simp]: "length (vec_resize n xs) = n"
  by (simp add: vec_resize_def)

lemma write_elems_append: "write_elems xs out = out @ concat (map le64 xs)"
  by (induction xs arbitrary: out) simp_all

lemma read_elems_failed [simp]: "read_elems xs None = xs"
  by (induction xs) simp_all

lemma read_elems_end [simp]: "read_elems xs (Some []) = xs"
  by (cases xs) simp_all

lemma read_write_elems:
  "read_elems xs (Some (concat (map le64 ys))) = take (length xs) ys @ drop (length ys) xs"
proof (induction ys arbitrary: xs)
  case (Cons y ys)
  then show ?case by (cases xs) simp_all
qed simp

section \<open>Properties\<close>

text \<open>
  C35. Round trip through a file: after a container has been written to a file that can be
  opened, reading \<open>n\<close> elements gives the first \<open>n\<close> of them; beyond the end of the file the
  reader keeps what its own container held after the resize.
\<close>

theorem stats_roundtrip:
  assumes "fs_writable fs fname"
  shows "underlyingContainer (readFromFile fname n (writeToFile fname c fs) d) =
    take n (underlyingContainer c) @
      drop (length (underlyingContainer c)) (vec_resize n (underlyingContainer d))"
  using assms by (simp add: readFromFile_def writeToFile_def write_elems_append read_write_elems)

theorem stats_roundtrip_witness:
  "underlyingContainer (readFromFile ''t'' 3
     (writeToFile ''t'' \<lparr>underlyingContainer = [5, 6]\<rparr> \<lparr>fs_files = Map.empty, fs_writable = \<lambda>_. True\<rparr>)
     \<lparr>underlyingContainer = []\<rparr>) = [5, 6, 0]"
  using stats_roundtrip [of "\<lparr>fs_files = Map.empty, fs_writable = \<lambda>_. True\<rparr>" "''t''" 3
      "\<lparr>underlyingContainer = [5, 6]\<rparr>" "\<lparr>underlyingContainer = []\<rparr>"]
  by (simp add: vec_resize_def)

text \<open>
  A file that is missing is not reported: \<open>readFromFile\<close> then only resizes the container,
  so old elements and zeros stand for data.
\<close>

theorem readFromFile_missing:
  assumes "fs_files fs fname = None"
  shows "readFromFile fname n fs c =
    c\<lparr>underlyingContainer := take n (underlyingContainer c) @
        replicate (n - length (underlyingContainer c)) 0\<rparr>"
  using assms by (simp add: readFromFile_def vec_resize_def Let_def)

theorem readFromFile_missing_witness:
  "underlyingContainer (readFromFile ''t'' 2 \<lparr>fs_files = Map.empty, fs_writable = \<lambda>_. True\<rparr>
     \<lparr>underlyingContainer = [7]\<rparr>) = [7, 0]"
  using readFromFile_missing [of "\<lparr>fs_files = Map.empty, fs_writable = \<lambda>_. True\<rparr>" "''t''" 2
      "\<lparr>underlyingContainer = [7]\<rparr>"]
  by (simp add: numeral_2_eq_2)

end
