(* ===== verification/Rpc_Wire.thy ===== *)
theory Rpc_Wire
  imports C_Memory
begin

unbundle bit_operations_syntax

text \<open>
  The encapsulation layer of \<open>rpc_shm/rpc.cpp\<close>: the RPC structure, its header layout, and the
  pair \<open>packPayload\<close>/\<open>unpackBufferToRPCLayer\<close>, both in the branch the ZSIM build compiles
  (host byte order) and in the branch of the other platforms (\<open>_vm\<close>, network byte order).
\<close>

section \<open>Structures and operations\<close>

record RPCWithHeader =
  rpc_len :: u32
  rpc_type :: u8
  rpc_id :: u16
  senders_qp :: u16
  senders_nid :: u16
  payload :: addr
  payload_len :: u32

definition getAlignmentReq :: u32 where
  "getAlignmentReq = 8"

definition calcTotalHeaderBytes :: u32 where
  "calcTotalHeaderBytes =
     (let hbytes = 4 + 2 * 1 + 2 + 2 + 2;
          alignmentBytes = hbytes mod getAlignmentReq
      in hbytes + alignmentBytes)"

definition getLenParamBytes :: u32 where
  "getLenParamBytes = 4"

definition getPayloadBytes :: "RPCWithHeader \<Rightarrow> u32" where
  "getPayloadBytes r = rpc_len r - calcTotalHeaderBytes"

definition createRPCStruct :: "u8 \<Rightarrow> u16 \<Rightarrow> u16 \<Rightarrow> u16 \<Rightarrow> u32 \<Rightarrow> addr \<Rightarrow> RPCWithHeader" where
  "createRPCStruct aType anRPCId aQPId aNID aPayloadLen aPayloadPointer =
     \<lparr>rpc_len = calcTotalHeaderBytes + aPayloadLen, rpc_type = aType, rpc_id = anRPCId,
      senders_qp = aQPId, senders_nid = aNID, payload = aPayloadPointer, payload_len = aPayloadLen\<rparr>"

text \<open>The alignment step both packing branches take before the payload.\<close>

definition align_payload :: "addr \<Rightarrow> addr" where
  "align_payload buf =
     (if buf mod ucast getAlignmentReq \<noteq> 0 then buf + buf mod ucast getAlignmentReq else buf)"

definition packPayload :: "RPCWithHeader \<Rightarrow> addr \<Rightarrow> memory \<Rightarrow> memory" where
  "packPayload rpc buf m =
     (let m1 = store32 m buf (rpc_len rpc); b1 = buf + 4;
          m2 = store_bytes m1 b1 [rpc_type rpc]; b2 = b1 + 2 * 1;
          m3 = store16 m2 b2 (rpc_id rpc); b3 = b2 + 2;
          m4 = store16 m3 b3 (senders_qp rpc); b4 = b3 + 2;
          m5 = store16 m4 b4 (senders_nid rpc); b5 = b4 + 2
      in c_memcpy m5 (align_payload b5) (payload rpc) (unat (payload_len rpc)))"

definition packPayload_vm :: "RPCWithHeader \<Rightarrow> addr \<Rightarrow> memory \<Rightarrow> memory" where
  "packPayload_vm rpc buf m =
     (let m1 = store32 m buf (htonl (rpc_len rpc)); b1 = buf + 4;
          m2 = store_bytes m1 b1 [rpc_type rpc]; b2 = b1 + 2 * 1;
          m3 = store16 m2 b2 (htons (rpc_id rpc)); b3 = b2 + 2;
          m4 = store16 m3 b3 (htons (senders_qp rpc)); b4 = b3 + 2;
          m5 = store16 m4 b4 (htons (senders_nid rpc)); b5 = b4 + 2
      in if payload_len rpc \<noteq> 0
         then c_memcpy m5 (align_payload b5) (payload rpc) (unat (payload_len rpc)) else m5)"

definition unpackBufferToRPCLayer :: "addr \<Rightarrow> memory \<Rightarrow> RPCWithHeader" where
  "unpackBufferToRPCLayer buf m =
     (let len = load32 m buf; b1 = buf + 4;
          typ = m b1; b2 = b1 + 2 * 1;
          rid = load16 m b2; b3 = b2 + 2;
          qp = load16 m b3; b4 = b3 + 2;
          nid = load16 m b4
      in createRPCStruct typ rid qp nid (len - calcTotalHeaderBytes) (buf + ucast calcTotalHeaderBytes))"

definition unpackBufferToRPCLayer_vm :: "addr \<Rightarrow> memory \<Rightarrow> RPCWithHeader" where
  "unpackBufferToRPCLayer_vm buf m =
     (let len = ntohl (load32 m buf); b1 = buf + 4;
          typ = m b1; b2 = b1 + 1;
          rid = ntohs (load16 m b2); b3 = b2 + 2;
          qp = ntohs (load16 m b3); b4 = b3 + 2;
          nid = ntohs (load16 m b4)
      in createRPCStruct typ rid qp nid (len - calcTotalHeaderBytes) (buf + ucast calcTotalHeaderBytes))"

section \<open>Layout\<close>

lemma header_bytes [simp]: "calcTotalHeaderBytes = 16" "getAlignmentReq = 8"
  by (simp_all add: calcTotalHeaderBytes_def getAlignmentReq_def)

lemma mod8_word: "(w :: addr) mod 8 = of_nat (unat w mod 8)"
  by (simp add: word_unat_eq_iff unat_mod unat_of_nat_less)

lemma unat_add12_mod8: "unat ((w :: addr) + 12) mod 8 = (unat w + 4) mod 8"
proof -
  have "unat (w + 12) mod 8 = ((unat w + 12) mod 2 ^ 64) mod 8"
    by (simp add: unat_word_ariths)
  also have "\<dots> = (unat w + 12) mod 8" by (simp add: mod_mod_cancel)
  also have "\<dots> = (unat w + 4) mod 8" by presburger
  finally show ?thesis .
qed

lemma align_payload_12:
  "align_payload (buf + 12) = buf + of_nat (12 + (unat buf + 4) mod 8)"
proof -
  have "(buf + 12) mod 8 = of_nat ((unat buf + 4) mod 8)"
    by (simp add: mod8_word unat_add12_mod8)
  then show ?thesis by (simp add: align_payload_def)
qed

text \<open>The header as one image: the byte after the type and the gap before the payload stay.\<close>

definition header_image :: "u32 \<Rightarrow> u8 \<Rightarrow> u8 \<Rightarrow> u16 \<Rightarrow> u16 \<Rightarrow> u16 \<Rightarrow> u8 list" where
  "header_image len typ gap rid qp nid =
     le32 len @ [typ, gap] @ le16 rid @ le16 qp @ le16 nid"

lemma length_header_image [simp]: "length (header_image len typ gap rid qp nid) = 12"
  by (simp add: header_image_def)

lemma header_stores:
  "store16 (store16 (store16 (store_bytes (store32 m buf len) (buf + 4) [typ]) (buf + 6) rid)
     (buf + 8) qp) (buf + 10) nid =
   store_bytes m buf (header_image len typ (m (buf + 5)) rid qp nid)"
proof -
  have s: "store_bytes (store_bytes m buf xs) b ys = store_bytes m buf (xs @ ys)"
    if "b = buf + of_nat (length xs)" "length xs + length ys \<le> 16" for b xs ys
    using that store_store_append [of xs ys m buf] by simp
  have "store_bytes (store32 m buf len) (buf + 4) [typ] = store_bytes m buf (le32 len @ [typ])"
    unfolding store32_def by (rule s) simp_all
  also have "\<dots> = store_bytes m buf (le32 len @ [typ, m (buf + 5)])"
    using store_gap [of "le32 len @ [typ]" 1 m buf] by (simp add: load_bytes_def)
  finally have h: "store_bytes (store32 m buf len) (buf + 4) [typ] =
    store_bytes m buf (le32 len @ [typ, m (buf + 5)])" .
  show ?thesis
    unfolding h store16_def header_image_def by (simp add: s)
qed

lemma header_loads:
  assumes img: "length img \<le> 2 ^ 64" "take 12 img = header_image len typ gap rid qp nid"
  shows "load32 (store_bytes m buf img) buf = len"
    and "store_bytes m buf img (buf + 4) = typ"
    and "load16 (store_bytes m buf img) (buf + 6) = rid"
    and "load16 (store_bytes m buf img) (buf + 8) = qp"
    and "load16 (store_bytes m buf img) (buf + 10) = nid"
proof -
  have l: "12 \<le> length img" using arg_cong [OF img(2), of length] by simp
  have f: "load_bytes (store_bytes m buf img) b n = take n (drop k (header_image len typ gap rid qp nid))"
    if "b = buf + of_nat k" "k + n \<le> 12" for b n k
    using that load_in_image [of k n img m buf] l img(1)
    by (simp add: drop_take min_def flip: img(2))
  show "load32 (store_bytes m buf img) buf = len"
    using f [of buf 0 4] by (simp add: load32_def header_image_def)
  show "store_bytes m buf img (buf + 4) = typ"
    using f [of "buf + 4" 4 1] by (simp add: header_image_def load_bytes_def)
  show "load16 (store_bytes m buf img) (buf + 6) = rid"
    "load16 (store_bytes m buf img) (buf + 8) = qp"
    "load16 (store_bytes m buf img) (buf + 10) = nid"
    using f [of "buf + 6" 6 2] f [of "buf + 8" 8 2] f [of "buf + 10" 10 2]
    by (simp_all add: load16_def header_image_def)
qed

lemma packPayload_header:
  "packPayload rpc buf m =
     c_memcpy (store_bytes m buf (header_image (rpc_len rpc) (rpc_type rpc) (m (buf + 5)) (rpc_id rpc)
        (senders_qp rpc) (senders_nid rpc)))
       (align_payload (buf + 12)) (payload rpc) (unat (payload_len rpc))"
  by (simp add: packPayload_def Let_def add.assoc flip: header_stores)

lemma packPayload_vm_header:
  "packPayload_vm rpc buf m =
     c_memcpy (store_bytes m buf (header_image (htonl (rpc_len rpc)) (rpc_type rpc) (m (buf + 5))
        (htons (rpc_id rpc)) (htons (senders_qp rpc)) (htons (senders_nid rpc))))
       (align_payload (buf + 12)) (payload rpc) (unat (payload_len rpc))"
proof -
  have "c_memcpy m1 a b 0 = m1" for m1 a b by (simp add: c_memcpy_def load_bytes_def)
  then show ?thesis
    by (cases "payload_len rpc = 0")
      (simp_all add: packPayload_vm_def Let_def add.assoc flip: header_stores)
qed

text \<open>The payload behind a header in an aligned buffer.\<close>

lemma payload_after_header:
  assumes "8 dvd unat buf" "length h = 12" "n \<le> 2 ^ 32" "disjoint_ranges buf 16 ptr n"
  shows "c_memcpy (store_bytes m buf h) (align_payload (buf + 12)) ptr n =
    store_bytes m buf (h @ load_bytes m (buf + 12) 4 @ load_bytes m ptr n)"
proof -
  let ?h = "h @ load_bytes m (buf + 12) 4"
  have "store_bytes m buf h = store_bytes m buf ?h"
    using store_gap [of h 4 m buf] assms(2) by simp
  moreover have "load_bytes (store_bytes m buf ?h) ptr n = load_bytes m ptr n"
    using assms(2,4) by (intro load_store_disjoint) simp
  moreover obtain k where "unat buf = 8 * k" using assms(1) by (rule dvdE)
  then have "align_payload (buf + 12) = buf + of_nat (length ?h)"
    using assms(2) by (simp add: align_payload_12)
  moreover have "length ?h + length (load_bytes m ptr n) \<le> 2 ^ 64" using assms(2,3) by simp
  ultimately show ?thesis
    using store_store_append [of ?h "load_bytes m ptr n" m buf] by (simp add: c_memcpy_def)
qed

lemma ntohs_shifted:
  "ntohs (from_le16 [g, ucast (htons w)]) = push_bit 8 (ucast g) OR drop_bit 8 w"
  by (rule bit_word_eqI)
    (auto simp: ntohs_def htons_def from_le16_def bit_simps dest: bit_imp_le_length)

section \<open>Properties\<close>

text \<open>
  C24. Round trip of the wire format: packing an RPC into an 8-byte aligned buffer that does not
  overlap its payload, and unpacking the buffer, gives the same RPC with the payload pointer
  moved into the buffer, and that pointer addresses the payload bytes.
\<close>

theorem pack_unpack_roundtrip:
  assumes "8 dvd unat buf" and "disjoint_ranges buf (16 + unat len) ptr (unat len)"
    and "rpc = createRPCStruct typ rid qp nid len ptr" and "m1 = packPayload rpc buf m"
  shows "unpackBufferToRPCLayer buf m1 = rpc\<lparr>payload := buf + 16\<rparr> \<and>
    load_bytes m1 (buf + 16) (unat len) = load_bytes m ptr (unat len)"
proof -
  have len: "unat len \<le> 2 ^ 32" using unat_u32_less [of len] by simp
  have "disjoint_ranges buf 16 ptr (unat len)" using assms(2) by (rule disjoint_ranges_shrink) simp
  note p = payload_after_header [OF assms(1) _ len this]
  let ?h = "header_image (16 + len) typ (m (buf + 5)) rid qp nid"
  let ?img = "?h @ load_bytes m (buf + 12) 4 @ load_bytes m ptr (unat len)"
  have m1: "m1 = store_bytes m buf ?img"
    unfolding assms(3,4) packPayload_header using p by (simp add: createRPCStruct_def)
  have l: "length ?img \<le> 2 ^ 64" using len by simp
  have "unpackBufferToRPCLayer buf m1 = rpc\<lparr>payload := buf + 16\<rparr>"
    unfolding m1 using header_loads [OF l, of "16 + len" "typ" "m (buf + 5)" rid qp nid m buf] assms(3)
    by (simp add: unpackBufferToRPCLayer_def createRPCStruct_def add.assoc)
  moreover have "load_bytes m1 (buf + 16) (unat len) = load_bytes m ptr (unat len)"
    unfolding m1 using load_in_image [of 16 "unat len" ?img m buf] l by simp
  ultimately show ?thesis ..
qed

theorem pack_unpack_roundtrip_witness:
  "unpackBufferToRPCLayer 0x1000 (packPayload (createRPCStruct 7 1 2 3 100 0x2000) 0x1000 (\<lambda>_. 0)) =
    createRPCStruct 7 1 2 3 100 0x1010"
  using pack_unpack_roundtrip [of "0x1000" 100 "0x2000" "createRPCStruct 7 1 2 3 100 0x2000" 7 1 2 3
      "packPayload (createRPCStruct 7 1 2 3 100 0x2000) 0x1000 (\<lambda>_. 0)" "\<lambda>_. 0"]
  by (simp add: disjoint_ranges_def createRPCStruct_def)

text \<open>
  The payload is written where the other side looks for it exactly when the buffer is 8-byte
  aligned: the alignment step adds the remainder instead of what is missing to the next multiple.
\<close>

theorem payload_offset_iff_aligned:
  "align_payload (buf + 12) = payload (unpackBufferToRPCLayer buf m) \<longleftrightarrow> 8 dvd unat buf"
proof -
  let ?k = "(unat buf + 4) mod 8"
  have "align_payload (buf + 12) = payload (unpackBufferToRPCLayer buf m) \<longleftrightarrow>
      (of_nat (12 + ?k) :: addr) = of_nat 16"
    unfolding align_payload_12 by (simp add: unpackBufferToRPCLayer_def createRPCStruct_def Let_def)
  also have "\<dots> \<longleftrightarrow> ?k = 4"
  proof -
    have "12 + ?k < 2 ^ 64" by (rule less_trans [of _ 20]) simp_all
    then have "unat (of_nat (12 + ?k) :: addr) = 12 + ?k" by (intro unat_of_nat_less) simp
    moreover have "unat (of_nat 16 :: addr) = 16" by simp
    ultimately show ?thesis unfolding word_unat_eq_iff by (simp only:) arith
  qed
  also have "\<dots> \<longleftrightarrow> 8 dvd unat buf" by presburger
  finally show ?thesis .
qed

text \<open>
  The branch for the other platforms does not invert its own packing: unpacking steps one
  byte past the type where packing stepped two, so every 16-bit field is read one byte early; the
  identifier's upper byte is the stale byte after the type.
\<close>

theorem vm_unpack_misreads:
  assumes "8 dvd unat buf" and "disjoint_ranges buf (16 + unat len) ptr (unat len)"
  shows "rpc_id (unpackBufferToRPCLayer_vm buf
      (packPayload_vm (createRPCStruct typ rid qp nid len ptr) buf m)) =
    push_bit 8 (ucast (m (buf + 5))) OR drop_bit 8 rid"
proof -
  have len: "unat len \<le> 2 ^ 32" using unat_u32_less [of len] by simp
  have "disjoint_ranges buf 16 ptr (unat len)" using assms(2) by (rule disjoint_ranges_shrink) simp
  note p = payload_after_header [OF assms(1) _ len this]
  let ?h = "header_image (htonl (16 + len)) typ (m (buf + 5)) (htons rid) (htons qp) (htons nid)"
  let ?img = "?h @ load_bytes m (buf + 12) 4 @ load_bytes m ptr (unat len)"
  have m1: "packPayload_vm (createRPCStruct typ rid qp nid len ptr) buf m = store_bytes m buf ?img"
    unfolding packPayload_vm_header using p by (simp add: createRPCStruct_def)
  have l: "length ?img \<le> 2 ^ 64" using len by simp
  have "load_bytes (store_bytes m buf ?img) (buf + 5) 2 = [m (buf + 5), ucast (htons rid)]"
    using load_in_image [of 5 2 ?img m buf] l by (simp add: header_image_def le32_def le16_def)
  then have "load16 (store_bytes m buf ?img) (buf + 5) = from_le16 [m (buf + 5), ucast (htons rid)]"
    by (simp only: load16_def)
  then show ?thesis
    unfolding m1
    by (simp add: unpackBufferToRPCLayer_vm_def createRPCStruct_def Let_def add.assoc ntohs_shifted)
qed

theorem vm_unpack_misreads_witness:
  "rpc_id (unpackBufferToRPCLayer_vm 0x1000
     (packPayload_vm (createRPCStruct 7 1 2 3 100 0x2000) 0x1000 (\<lambda>_. 0))) = 0"
  using vm_unpack_misreads [of "0x1000" 100 "0x2000" 7 1 2 3 "\<lambda>_. 0"]
  by (simp add: disjoint_ranges_def)

end
