(* ===== verification/Rpc_Context.thy ===== *)
theory Rpc_Context
  imports Cbuf Nic_Kal Stats Rpc_Wire
begin

text \<open>
  The RPC context of \<open>rpc_shm/rpc.h\<close> and \<open>rpc_shm/rpc.cpp\<close>: its classes, its creation,
  the registration of local buffers and queue pairs, the notifications to the simulator and the
  accessors of the circular buffers and the statistics container. A pointer to an object that
  is never shared between two owners is the object itself, an \<open>option\<close> where the code stores
  null pointers. Fields the code never initialises come from a parameter \<open>junk\<close>.
\<close>

section \<open>Classes\<close>

definition MSGS_PER_PAIR :: u64 where
  "MSGS_PER_PAIR = 256"

record NIExposedBuffer =
  underlyingBuffer :: addr

text \<open>The argument is an \<open>int\<close> that scales by the four bytes of the element type.\<close>

definition getUnderlyingAddress :: "u32 \<Rightarrow> NIExposedBuffer \<Rightarrow> addr" where
  "getUnderlyingAddress byteOffset b = underlyingBuffer b + 4 * scast byteOffset"

record soNUMAQP_T =
  qp_id :: u32
  qp_wq :: addr
  qp_cq :: addr

record soNUMAMessagingDomain =
  md_recv_slots :: addr
  md_ctx_struct :: ctx_entry_t
  md_send_buf :: addr
  md_send_ctrl :: addr
  md_ctrl :: "send_buf_management_t list"
  md_per_node_chunk :: u64

record rpcNUMAContext =
  rc_qps :: "soNUMAQP_T option list"
  rc_msg_domain :: soNUMAMessagingDomain
  rc_app_buffers :: "NIExposedBuffer option list"
  rc_circ_buffers :: "CircularReceiveBuffer list"
  rc_rpcServiceTimeStats :: StatsContainer
  rc_kfd :: int
  rc_pgas :: addr
  rc_nodeID :: u32
  rc_totalNodeCount :: u32
  rc_threadsPerClient :: u32
  rc_rpc_id :: u32
  rc_lbuf_size_bytes :: u64
  rc_isSenderCtx :: bool
  rc_poll_count :: u64

definition getPtrToExposedBuffer :: "u64 \<Rightarrow> rpcNUMAContext \<Rightarrow> NIExposedBuffer option res" where
  "getPtrToExposedBuffer idx ctx = vec_at (rc_app_buffers ctx) (unat idx)"

definition getNumClients :: "rpcNUMAContext \<Rightarrow> u32" where
  "getNumClients ctx = rc_totalNodeCount ctx - 1"

definition getRPCID :: "rpcNUMAContext \<Rightarrow> u32 \<times> rpcNUMAContext" where
  "getRPCID ctx = (rc_rpc_id ctx, ctx\<lparr>rc_rpc_id := rc_rpc_id ctx + 1\<rparr>)"

definition getLBufSizeBytes :: "rpcNUMAContext \<Rightarrow> u64" where
  "getLBufSizeBytes ctx = rc_lbuf_size_bytes ctx"

definition get_lbuf_size :: "rpcNUMAContext \<Rightarrow> u64" where
  "get_lbuf_size ctx = getLBufSizeBytes ctx"

text \<open>
  \<open>getCBufIdx\<close>: the products of two \<open>unsigned\<close> are cut to 32 bits, the one with
  \<open>bufsPerServThread\<close> is a \<open>size_t\<close>.
\<close>

definition getCBufIdx :: "u32 \<Rightarrow> u32 \<Rightarrow> u32 \<Rightarrow> rpcNUMAContext \<Rightarrow> u64" where
  "getCBufIdx cl_nid cl_tid sr_thread ctx =
     (let zeroShifted_clNid = cl_nid - 1;
          bufsPerServThread = ucast (getNumClients ctx * rc_threadsPerClient ctx) :: u64;
          serv_region_idx = ucast sr_thread * bufsPerServThread;
          client_buffer = ucast (zeroShifted_clNid * getNumClients ctx + cl_tid)
      in serv_region_idx + client_buffer)"

definition getBufferIDX :: "rpcNUMAContext \<Rightarrow> u32 \<Rightarrow> u32 \<Rightarrow> u32 \<Rightarrow> u64" where
  "getBufferIDX ctx cl_nid cl_tid serv_tid = getCBufIdx cl_nid cl_tid serv_tid ctx"

section \<open>Registration\<close>

text \<open>\<open>lbuf\<close> is the pointer the simulator stores for the second magic instruction.\<close>

definition registerNewLocalBuffer ::
  "addr \<Rightarrow> u64 \<Rightarrow> u64 \<Rightarrow> rpcNUMAContext \<Rightarrow> machine \<Rightarrow> (NIExposedBuffer \<times> rpcNUMAContext \<times> machine) res" where
  "registerNewLocalBuffer lbuf buf_size tidx ctx m =
     (let m1 = register_buffer (Imm buf_size) 3 m;
          m2 = register_buffer Var_addr 2 m1;
          newLBufForQP = \<lparr>underlyingBuffer = lbuf\<rparr>
      in bindR (vec_set (rc_app_buffers ctx) (unat tidx) (Some newLBufForQP)) (\<lambda>bufs.
         Inr (newLBufForQP, ctx\<lparr>rc_app_buffers := bufs\<rparr>, m2)))"

text \<open>\<open>wq\<close> and \<open>cq\<close> are the ring addresses the simulator stores.\<close>

definition registerNewSONUMAQP ::
  "addr \<Rightarrow> addr \<Rightarrow> u64 \<Rightarrow> rpcNUMAContext \<Rightarrow> machine \<Rightarrow> (soNUMAQP_T \<times> rpcNUMAContext \<times> machine) res" where
  "registerNewSONUMAQP wq cq tidx ctx m =
     (let m1 = register_buffer Var_addr 0 m;
          m2 = register_buffer Var_addr 1 m1;
          qp = \<lparr>qp_id = ucast tidx, qp_wq = wq, qp_cq = cq\<rparr>
      in bindR (vec_set (rc_qps ctx) (unat tidx) (Some qp)) (\<lambda>qps.
         Inr (qp, ctx\<lparr>rc_qps := qps\<rparr>, m2)))"

definition notify_done_to_zsim :: "machine \<Rightarrow> machine" where
  "notify_done_to_zsim = register_buffer (Imm 0) 0xdead"

definition monitor_client_done :: "machine \<Rightarrow> machine" where
  "monitor_client_done = register_buffer Var_addr 0xD"

definition register_done_sending :: "machine \<Rightarrow> machine" where
  "register_done_sending = register_buffer Var_addr 0x16"

definition notify_service_start :: "int \<Rightarrow> machine \<Rightarrow> machine" where
  "notify_service_start count = register_buffer (Imm (word_of_int count)) 0xE"

definition notify_service_end :: "int \<Rightarrow> machine \<Rightarrow> machine" where
  "notify_service_end count = register_buffer (Imm (word_of_int count)) 0xF"

definition timestamp :: "int \<Rightarrow> machine \<Rightarrow> machine" where
  "timestamp count = register_buffer (Imm (word_of_int count)) 0x13"

definition notify_fruitless_cq_check :: "int \<Rightarrow> machine \<Rightarrow> machine" where
  "notify_fruitless_cq_check count = register_buffer (Imm (word_of_int count)) 0x10"

section \<open>Creation\<close>

fun decimal_digits :: "nat \<Rightarrow> nat" where
  "decimal_digits n = (if n < 10 then 1 else Suc (decimal_digits (n div 10)))"

declare decimal_digits.simps [simp del]

text \<open>
  The number of characters \<open>sprintf\<close> writes for the name of the receive-slot file, the
  terminating null included; the node is printed as an \<open>int\<close>.
\<close>

definition slot_file_chars :: "u32 \<Rightarrow> nat" where
  "slot_file_chars aNodeID =
     length ''recv_slots_node'' + (if sint aNodeID < 0 then 1 else 0) +
     decimal_digits (nat \<bar>sint aNodeID\<bar>) + length ''.txt'' + 1"

text \<open>
  Arguments the function ignores are left out. \<open>None\<close> is the null pointer returned when the
  context cannot be registered; the return code of \<open>kal_reg_send_recv_bufs\<close> is not looked at.
\<close>

definition createRPCNUMAContext ::
  "(u64 \<Rightarrow> u64 \<Rightarrow> addr option) \<Rightarrow> (u64 \<Rightarrow> addr option) \<Rightarrow> rpcNUMAContext \<Rightarrow>
   (nat \<Rightarrow> send_buf_management_t) \<Rightarrow> u32 \<Rightarrow> u32 \<Rightarrow> u32 \<Rightarrow> u32 \<Rightarrow> u32 \<Rightarrow> rpcNUMAContext option res" where
  "createRPCNUMAContext memalign malloc junk junk_ctrl aNodeID totalNodes qp_start qp_end packet_size =
     (let ctx_size = EMULATOR_SW_PAGE_SIZE * 2;
          ctx0 = junk\<lparr>rc_qps := [], rc_app_buffers := [], rc_circ_buffers := [],
                      rc_rpcServiceTimeStats := \<lparr>underlyingContainer = []\<rparr>, rc_pgas := NULL\<rparr>;
          (rc, pgas) = kal_reg_ctx memalign 0 (ucast SR_CTX_ID) NULL
                         (ucast (ctx_size div EMULATOR_SW_PAGE_SIZE))
      in if rc < 0 then Inr None
         else if 25 < slot_file_chars aNodeID then Inl Out_of_bounds
         else
           let md = (rc_msg_domain junk)\<lparr>md_recv_slots := NULL, md_send_buf := NULL, md_send_ctrl := NULL,
                      md_ctx_struct := (md_ctx_struct (rc_msg_domain junk))\<lparr>ce_ctx_id := SR_CTX_ID\<rparr>\<rparr>;
               msgs_per_node = MSGS_PER_PAIR
           in bindR (kal_reg_send_recv_bufs malloc junk_ctrl (rc_kfd ctx0) (Some (md_ctx_struct md))
                       (md_send_buf md) msgs_per_node (scast packet_size) (ucast totalNodes)
                       (md_recv_slots md) (md_send_ctrl md)) (\<lambda>(_, kb).
              bindR (of_option Segv (kb_ctx kb)) (\<lambda>ce.
              let md1 = md\<lparr>md_ctx_struct := ce, md_send_ctrl := kb_send_ctrl kb, md_ctrl := kb_ctrl kb,
                           md_per_node_chunk := (ce_msg_entry_size ce + CACHE_BLOCK_SIZE) * ce_msgs_per_dest ce\<rparr>
              in bindR (c_int (uint msgs_per_node * sint packet_size)) (\<lambda>lbuf_size.
                 let num_qps = qp_end - qp_start + 1
                 in Inr (Some (ctx0\<lparr>rc_pgas := pgas, rc_msg_domain := md1,
                      rc_lbuf_size_bytes := word_of_int lbuf_size,
                      rc_qps := replicate (unat num_qps) None,
                      rc_app_buffers := replicate (unat num_qps) None\<rparr>))))))"

section \<open>Circular buffers of a context\<close>

definition flowControlUpdateSendersHead :: "u32 \<Rightarrow> CircularReceiveBuffer \<Rightarrow> CircularReceiveBuffer res" where
  "flowControlUpdateSendersHead inc buf = incSendersHeadToFreeSpace inc buf"

fun setup_cbufs :: "nat \<Rightarrow> addr \<Rightarrow> bool \<Rightarrow> CircularReceiveBuffer list" where
  "setup_cbufs 0 base copies = []"
| "setup_cbufs (Suc k) base copies =
     (let b = newCircularReceiveBuffer base EMULATOR_SW_PAGE_SIZE MSGS_PER_PAIR copies
      in b # setup_cbufs k (base + GetReservedMemoryBytes b) copies)"

text \<open>The arguments \<open>entryByteSize\<close> and \<open>numEntries\<close> are not used by the code either.\<close>

definition setupCircularBuffers ::
  "u64 \<Rightarrow> u64 \<Rightarrow> u64 \<Rightarrow> u64 \<Rightarrow> bool \<Rightarrow> rpcNUMAContext \<Rightarrow> rpcNUMAContext" where
  "setupCircularBuffers entryByteSize numEntries aNumberOfSenders aNumberOfReceivers are_sendersCopies ctx =
     (let numBuffers = aNumberOfSenders * aNumberOfReceivers
      in ctx\<lparr>rc_circ_buffers := setup_cbufs (unat numBuffers) (rc_pgas ctx) are_sendersCopies\<rparr>)"

text \<open>
  \<open>pollFunction\<close> decides on the polled location, may read memory and may move the pointer.
\<close>

definition pollOnBufferNumber ::
  "rpcNUMAContext \<Rightarrow> u64 \<Rightarrow> (addr \<Rightarrow> memory \<Rightarrow> bool \<times> addr) \<Rightarrow> memory \<Rightarrow> addr res" where
  "pollOnBufferNumber ctx bufNumber dec m =
     bindR (vec_at (rc_circ_buffers ctx) (unat bufNumber)) (\<lambda>rbuf.
     case dec (getHeadAddress rbuf) m of (ready, poll_loc) \<Rightarrow> Inr (if ready then poll_loc else NULL))"

definition zeroOutRBufHead :: "rpcNUMAContext \<Rightarrow> u64 \<Rightarrow> memory \<Rightarrow> memory res" where
  "zeroOutRBufHead ctx bufferNumber m =
     bindR (vec_at (rc_circ_buffers ctx) (unat bufferNumber)) (\<lambda>ptr.
     Inr (zeroEntryNumber (getHeadIdxValue ptr) ptr m))"

definition incrementBufferHead :: "u64 \<Rightarrow> rpcNUMAContext \<Rightarrow> rpcNUMAContext res" where
  "incrementBufferHead bufNumber ctx =
     bindR (vec_at (rc_circ_buffers ctx) (unat bufNumber)) (\<lambda>b.
     Inr (ctx\<lparr>rc_circ_buffers := (rc_circ_buffers ctx)[unat bufNumber := incHeadAfterMsgProcessed b]\<rparr>))"

definition getBufferHeadIndex :: "rpcNUMAContext \<Rightarrow> u64 \<Rightarrow> u64 res" where
  "getBufferHeadIndex ctx bufferNumber =
     bindR (vec_at (rc_circ_buffers ctx) (unat bufferNumber)) (\<lambda>b. Inr (getHeadIdxValue b))"

section \<open>Destruction\<close>

text \<open>
  \<open>destroyRPCNUMAContext\<close> as the sequence of the objects it deletes, an entry of a vector being
  named by its index; deleting a null pointer has no effect.
\<close>

datatype heap_obj = Obj_buffer nat | Obj_qp nat | Obj_circ nat | Obj_domain | Obj_context

fun delete_entries :: "(nat \<Rightarrow> heap_obj) \<Rightarrow> nat \<Rightarrow> 'a option list \<Rightarrow> heap_obj list" where
  "delete_entries obj i [] = []"
| "delete_entries obj i (p # ps) = (case p of None \<Rightarrow> [] | Some _ \<Rightarrow> [obj i]) @ delete_entries obj (Suc i) ps"

definition destroyRPCNUMAContext :: "rpcNUMAContext \<Rightarrow> heap_obj list" where
  "destroyRPCNUMAContext ctx =
     delete_entries Obj_buffer 0 (rc_app_buffers ctx) @ delete_entries Obj_qp 0 (rc_qps ctx) @
     delete_entries Obj_circ 0 (map Some (rc_circ_buffers ctx)) @ [Obj_domain, Obj_context]"

section \<open>Statistics of a context\<close>

definition addToContainer :: "double_bits \<Rightarrow> rpcNUMAContext \<Rightarrow> rpcNUMAContext" where
  "addToContainer element ctx =
     ctx\<lparr>rc_rpcServiceTimeStats := stats_append element (rc_rpcServiceTimeStats ctx)\<rparr>"

definition writeContainerToFile :: "rpcNUMAContext \<Rightarrow> string \<Rightarrow> file_system \<Rightarrow> file_system" where
  "writeContainerToFile ctx fname fs = writeToFile fname (rc_rpcServiceTimeStats ctx) fs"

definition readContainerFromFile :: "string \<Rightarrow> nat \<Rightarrow> file_system \<Rightarrow> rpcNUMAContext \<Rightarrow> rpcNUMAContext" where
  "readContainerFromFile fname num_elements fs ctx =
     ctx\<lparr>rc_rpcServiceTimeStats := readFromFile fname num_elements fs (rc_rpcServiceTimeStats ctx)\<rparr>"

section \<open>Lemmas\<close>

lemma decimal_digits_5: "n < 100000 \<Longrightarrow> decimal_digits n \<le> 5"
proof -
  assume "n < 100000"
  then have "n div 10 div 10 div 10 div 10 < 10" by simp
  then show ?thesis by (simp add: decimal_digits.simps [of n] decimal_digits.simps [of "n div 10"]
      decimal_digits.simps [of "n div 100"] decimal_digits.simps [of "n div 1000"]
      decimal_digits.simps [of "n div 10000"] flip: div_mult2_eq)
qed

lemma sint_small_u32: "unat (w :: u32) < 2 ^ 31 \<Longrightarrow> sint w = int (unat w)"
proof -
  assume "unat w < 2 ^ 31"
  then have "int (unat w) < int (2 ^ 31)" by (simp only: of_nat_less_iff)
  then have "uint w < 2 ^ 31" by simp
  then have "signed_take_bit 31 (uint w) = uint w"
    by (intro signed_take_bit_int_eq_self) (simp_all add: order_trans [OF _ uint_ge_0])
  then show ?thesis by (simp add: sint_uint)
qed

lemma slot_file_fits:
  assumes "unat aNodeID < 100000"
  shows "slot_file_chars aNodeID \<le> 25"
proof -
  have "sint aNodeID = int (unat aNodeID)" using assms by (intro sint_small_u32) simp
  then show ?thesis using decimal_digits_5 [OF assms] by (simp add: slot_file_chars_def)
qed

lemma scast_small_u32: "unat (w :: u32) < 2 ^ 31 \<Longrightarrow> (scast w :: u64) = of_nat (unat w)"
  using sint_small_u32 [of w] by (metis of_int_of_nat_eq scast_eq)

lemma unat_scast_u32: "unat (w :: u32) < 2 ^ 31 \<Longrightarrow> unat (scast w :: u64) = unat w"
  by (simp add: scast_small_u32 unat_ucast_u32)

subsection \<open>Creating a context\<close>

text \<open>The message domain before its registration.\<close>

definition fresh_domain :: "rpcNUMAContext \<Rightarrow> soNUMAMessagingDomain" where
  "fresh_domain junk = (rc_msg_domain junk)\<lparr>md_recv_slots := NULL, md_send_buf := NULL, md_send_ctrl := NULL,
     md_ctx_struct := (md_ctx_struct (rc_msg_domain junk))\<lparr>ce_ctx_id := SR_CTX_ID\<rparr>\<rparr>"

definition fresh_context :: "rpcNUMAContext \<Rightarrow> addr \<Rightarrow> kal_bufs \<Rightarrow> ctx_entry_t \<Rightarrow> u32 \<Rightarrow> u32 \<Rightarrow> rpcNUMAContext" where
  "fresh_context junk pgas kb ce packet_size num_qps =
     junk\<lparr>rc_qps := replicate (unat num_qps) None, rc_app_buffers := replicate (unat num_qps) None,
       rc_circ_buffers := [], rc_rpcServiceTimeStats := \<lparr>underlyingContainer = []\<rparr>, rc_pgas := pgas,
       rc_lbuf_size_bytes := of_nat (256 * unat packet_size),
       rc_msg_domain := (fresh_domain junk)\<lparr>md_ctx_struct := ce, md_send_ctrl := kb_send_ctrl kb,
         md_ctrl := kb_ctrl kb,
         md_per_node_chunk := (ce_msg_entry_size ce + CACHE_BLOCK_SIZE) * ce_msgs_per_dest ce\<rparr>\<rparr>"

lemma createRPCNUMAContext_eq:
  assumes "slot_file_chars aNodeID \<le> 25" and "unat packet_size < 8388608"
    and "kal_reg_send_recv_bufs malloc junk_ctrl (rc_kfd junk) (Some (md_ctx_struct (fresh_domain junk)))
      NULL 256 (scast packet_size) (ucast totalNodes) NULL NULL = Inr (rc, kb)"
    and "kb_ctx kb = Some ce"
  shows "createRPCNUMAContext memalign malloc junk junk_ctrl aNodeID totalNodes qp_start qp_end packet_size =
    Inr (Some (fresh_context junk (case memalign 8192 16384 of None \<Rightarrow> NULL | Some a \<Rightarrow> a) kb ce packet_size
      (qp_end - qp_start + 1)))"
proof -
  let ?pg = "case memalign 8192 16384 of None \<Rightarrow> NULL | Some a \<Rightarrow> a"
  have reg: "kal_reg_ctx memalign 0 (ucast SR_CTX_ID) NULL 2 = (0, ?pg)"
    by (simp add: kal_reg_ctx_def EMULATOR_SW_PAGE_SIZE_def Let_def split: option.splits)
  have s: "sint packet_size = int (unat packet_size)"
    using assms(2) by (intro sint_small_u32) simp
  then have c: "c_int (256 * sint packet_size) = Inr (int (256 * unat packet_size))"
    using assms(2) unfolding s by (subst c_int_in) (simp_all del: of_nat_unat)
  have "kal_reg_send_recv_bufs malloc junk_ctrl (rc_kfd junk)
      (Some ((md_ctx_struct (rc_msg_domain junk))\<lparr>ce_ctx_id := SR_CTX_ID\<rparr>))
      NULL 256 (scast packet_size) (ucast totalNodes) NULL NULL = Inr (rc, kb)"
    using assms(3) by (simp add: fresh_domain_def)
  then show ?thesis
    using assms(1,4) c reg
    by (simp add: createRPCNUMAContext_def Let_def EMULATOR_SW_PAGE_SIZE_def MSGS_PER_PAIR_def
        fresh_context_def fresh_domain_def del: of_nat_mult)
qed

lemma scast_mod_block:
  fixes packet_size :: u32
  assumes "unat packet_size < 8388608"
  shows "(scast packet_size :: u64) mod CACHE_BLOCK_SIZE = 0 \<longleftrightarrow> 64 dvd unat packet_size"
  using unat_scast_u32 [of packet_size] assms
  by (simp add: CACHE_BLOCK_SIZE_def word_unat_eq_iff unat_mod dvd_eq_mod_eq_0)

lemma create_misaligned:
  assumes "slot_file_chars aNodeID \<le> 25" and "unat packet_size < 8388608"
    and "\<not> 64 dvd unat packet_size"
  shows "createRPCNUMAContext memalign malloc junk junk_ctrl aNodeID totalNodes qp_start qp_end packet_size =
    Inr (Some (fresh_context junk (case memalign 8192 16384 of None \<Rightarrow> NULL | Some a \<Rightarrow> a)
      \<lparr>kb_ctx = Some (md_ctx_struct (fresh_domain junk)), kb_send_ctrl = NULL, kb_ctrl = []\<rparr>
      (md_ctx_struct (fresh_domain junk)) packet_size (qp_end - qp_start + 1)))"
  using scast_mod_block [OF assms(2)] assms(3)
  by (intro createRPCNUMAContext_eq [OF assms(1,2)])
    (simp_all add: kal_reg_send_recv_bufs_def)

subsection \<open>Destroying a context\<close>

lemma set_delete_entries: "set (delete_entries obj i ps) = obj ` {i + j | j. j < length ps \<and> ps ! j \<noteq> None}"
proof (induction ps arbitrary: i)
  case (Cons p ps)
  have "{i + j | j. j < length (p # ps) \<and> (p # ps) ! j \<noteq> None} =
      (if p = None then {} else {i}) \<union> {Suc i + j | j. j < length ps \<and> ps ! j \<noteq> None}" (is "?L = ?R")
  proof
    show "?L \<subseteq> ?R" by (auto simp: less_Suc_eq_0_disj)
    show "?R \<subseteq> ?L"
    proof
      fix x assume "x \<in> ?R"
      then consider "x = i" "p \<noteq> None" | j where "x = Suc i + j" "j < length ps" "ps ! j \<noteq> None"
        by (auto split: if_splits)
      then show "x \<in> ?L"
      proof cases
        case 1
        then have "x = i + 0 \<and> 0 < length (p # ps) \<and> (p # ps) ! 0 \<noteq> None" by simp
        then show ?thesis by blast
      next
        case 2
        then have "x = i + Suc j \<and> Suc j < length (p # ps) \<and> (p # ps) ! Suc j \<noteq> None" by simp
        then show ?thesis by blast
      qed
    qed
  qed
  then show ?case using Cons.IH [of "Suc i"] by (cases p) auto
qed simp

lemma distinct_delete_entries: "inj obj \<Longrightarrow> distinct (delete_entries obj i ps)"
proof (induction ps arbitrary: i)
  case (Cons p ps)
  then show ?case by (cases p) (auto simp: set_delete_entries inj_eq)
qed simp

lemma destroy_deletes_once: "distinct (destroyRPCNUMAContext ctx)"
  by (auto simp: destroyRPCNUMAContext_def distinct_delete_entries set_delete_entries inj_def)

lemma destroy_deletes_buffer:
  "Obj_buffer i \<in> set (destroyRPCNUMAContext ctx) \<longleftrightarrow> i < length (rc_app_buffers ctx) \<and> rc_app_buffers ctx ! i \<noteq> None"
  by (auto simp: destroyRPCNUMAContext_def set_delete_entries)

lemma destroy_deletes_qp:
  "Obj_qp i \<in> set (destroyRPCNUMAContext ctx) \<longleftrightarrow> i < length (rc_qps ctx) \<and> rc_qps ctx ! i \<noteq> None"
  by (auto simp: destroyRPCNUMAContext_def set_delete_entries)

text \<open>A registration adds its object, and nothing else, to what the destruction deletes.\<close>

lemma destroy_after_registration:
  assumes "registerNewLocalBuffer lbuf sz tidx ctx m = Inr (b, ctx1, m1)"
    and "registerNewSONUMAQP wq cq tidx ctx1 m1 = Inr (qp, ctx2, m2)"
  shows "set (destroyRPCNUMAContext ctx2) =
    set (destroyRPCNUMAContext ctx) \<union> {Obj_buffer (unat tidx), Obj_qp (unat tidx)}"
proof -
  from assms have c: "ctx2 = ctx\<lparr>rc_app_buffers := (rc_app_buffers ctx)[unat tidx := Some b],
      rc_qps := (rc_qps ctx)[unat tidx := Some qp]\<rparr>"
    and l: "unat tidx < length (rc_app_buffers ctx)" "unat tidx < length (rc_qps ctx)"
    by (auto simp: registerNewLocalBuffer_def registerNewSONUMAQP_def Let_def bindR_eq_Inr access_iffs)
  have e: "{j. j < length xs \<and> xs[k := Some v] ! j \<noteq> None} = insert k {j. j < length xs \<and> xs ! j \<noteq> None}"
    if "k < length xs" for k and v :: 'a and xs using that by (auto simp: nth_list_update)
  show ?thesis
    using e [OF l(1), of b] e [OF l(2), of qp] by (auto simp: c destroyRPCNUMAContext_def set_delete_entries)
qed

subsection \<open>The circular buffers\<close>

lemma getCBufIdx_nat:
  assumes "0 < unat (rc_totalNodeCount ctx)" and "0 < unat cl_nid"
    and "(unat (rc_totalNodeCount ctx) - 1) * unat (rc_threadsPerClient ctx) < 2 ^ 32"
    and "(unat cl_nid - 1) * (unat (rc_totalNodeCount ctx) - 1) + unat cl_tid < 2 ^ 31"
    and "unat sr_thread * ((unat (rc_totalNodeCount ctx) - 1) * unat (rc_threadsPerClient ctx)) < 2 ^ 63"
  shows "unat (getCBufIdx cl_nid cl_tid sr_thread ctx) =
    unat sr_thread * ((unat (rc_totalNodeCount ctx) - 1) * unat (rc_threadsPerClient ctx)) +
    ((unat cl_nid - 1) * (unat (rc_totalNodeCount ctx) - 1) + unat cl_tid)"
proof -
  let ?C = "getNumClients ctx" and ?T = "rc_threadsPerClient ctx" and ?z = "cl_nid - 1"
  have C: "unat ?C = unat (rc_totalNodeCount ctx) - 1"
    using assms(1) by (simp add: getNumClients_def unat_gt_0 unat_minus_one)
  have z: "unat ?z = unat cl_nid - 1"
    using assms(2) by (simp add: unat_minus_one unat_gt_0)
  have b: "unat (ucast (?C * ?T) :: u64) = unat ?C * unat ?T"
    using assms(3) C by (simp add: unat_ucast_u32 unat_mult_less)
  have zc: "unat (?z * ?C) = unat ?z * unat ?C"
    using assms(4) C z by (intro unat_mult_less) simp
  have c: "unat (ucast (?z * ?C + cl_tid) :: u64) = unat ?z * unat ?C + unat cl_tid"
    using assms(4) C z zc by (simp add: unat_ucast_u32 unat_add_less)
  have s: "unat (ucast sr_thread * ucast (?C * ?T) :: u64) = unat sr_thread * (unat ?C * unat ?T)"
    using assms(5) C b by (subst unat_mult_less) (simp_all add: unat_ucast_u32)
  show ?thesis
    unfolding getCBufIdx_def Let_def
    by (subst unat_add_less) (use assms(4,5) s c C z in simp_all)
qed

lemma setup_cbufs_nth:
  assumes "i < k"
  shows "setup_cbufs k base copies ! i =
    newCircularReceiveBuffer (base + of_nat i * 0x200000) EMULATOR_SW_PAGE_SIZE MSGS_PER_PAIR copies"
  using assms
proof (induction k arbitrary: base i)
  case (Suc k)
  have r: "GetReservedMemoryBytes (newCircularReceiveBuffer base EMULATOR_SW_PAGE_SIZE MSGS_PER_PAIR copies) = 0x200000"
    by (simp add: GetReservedMemoryBytes_def newCircularReceiveBuffer_def EMULATOR_SW_PAGE_SIZE_def MSGS_PER_PAIR_def)
  show ?case
  proof (cases i)
    case (Suc j)
    with Suc.prems Suc.IH [of j "base + 0x200000"] r show ?thesis
      by (simp add: Let_def algebra_simps)
  qed (simp add: Let_def)
qed simp

lemma length_setup_cbufs [simp]: "length (setup_cbufs k base copies) = k"
  by (induction k arbitrary: base) (simp_all add: Let_def)

section \<open>Properties\<close>

text \<open>
  C25. Creating a context for packets of a whole number of cache blocks, below 8 MB, on a node with
  a short enough number, with working allocators, succeeds: the context entry carries the packet
  size, 256 messages per destination and the messaging context, the local buffer holds exactly 256
  packets, and there is one empty place per queue pair.
\<close>

theorem create_context_ok:
  assumes "64 dvd unat packet_size" and "unat packet_size < 8388608" and "unat aNodeID < 100000"
    and "malloc (ucast (ucast totalNodes :: u16) * 64) = Some a" and "memalign 8192 16384 = Some pg"
  shows "\<exists>ctx. createRPCNUMAContext memalign malloc junk junk_ctrl aNodeID totalNodes qp_start qp_end packet_size
      = Inr (Some ctx) \<and> rc_pgas ctx = pg \<and>
    ce_ctx_id (md_ctx_struct (rc_msg_domain ctx)) = 7 \<and>
    unat (ce_msg_entry_size (md_ctx_struct (rc_msg_domain ctx))) = unat packet_size \<and>
    ce_msgs_per_dest (md_ctx_struct (rc_msg_domain ctx)) = 256 \<and>
    length (md_ctrl (rc_msg_domain ctx)) = unat (ucast totalNodes :: u16) \<and>
    unat (rc_lbuf_size_bytes ctx) = 256 * unat packet_size \<and>
    rc_qps ctx = replicate (unat (qp_end - qp_start + 1)) None \<and>
    rc_app_buffers ctx = replicate (unat (qp_end - qp_start + 1)) None"
proof -
  have m: "(scast packet_size :: u64) mod CACHE_BLOCK_SIZE = 0"
    using scast_mod_block [OF assms(2)] assms(1) by simp
  have a: "malloc (ucast (ucast totalNodes :: u16) * sizeof_send_buf_management) = Some a"
    using assms(4) by (simp add: sizeof_send_buf_management_def)
  let ?ce = "(md_ctx_struct (fresh_domain junk))\<lparr>ce_msg_entry_size := scast packet_size,
    ce_num_nodes := ucast totalNodes, ce_msgs_per_dest := 256, ce_send_buf_addr := NULL,
    ce_recv_buf_addr := NULL, ce_buf_management := a\<rparr>"
  obtain arr where k: "kal_reg_send_recv_bufs malloc junk_ctrl (rc_kfd junk) (Some (md_ctx_struct (fresh_domain junk)))
      NULL 256 (scast packet_size) (ucast totalNodes) NULL NULL =
      Inr (0, \<lparr>kb_ctx = Some ?ce, kb_send_ctrl = a, kb_ctrl = arr\<rparr>)"
    and arr: "length arr = unat (ucast totalNodes :: u16)"
    using kal_reg_send_recv_bufs_ok [where malloc = malloc and ce = "md_ctx_struct (fresh_domain junk)" and sb = NULL and
        rb = NULL and sc = NULL and entries = 256 and kfd = "rc_kfd junk", OF m a] by blast
  have e: "unat (scast packet_size :: u64) = unat packet_size"
    using assms(2) by (intro unat_scast_u32) simp
  have l: "unat (of_nat (256 * unat packet_size) :: u64) = 256 * unat packet_size"
    using assms(2) by (intro unat_of_nat_less) simp
  show ?thesis
    using createRPCNUMAContext_eq [OF slot_file_fits [OF assms(3)] assms(2) k] arr e l assms(5)
    by (simp add: fresh_context_def fresh_domain_def SR_CTX_ID_def del: of_nat_mult)
qed

definition demo_junk :: rpcNUMAContext where
  "demo_junk = \<lparr>rc_qps = [], rc_msg_domain = \<lparr>md_recv_slots = 1, md_ctx_struct = \<lparr>ce_ctx_id = 0,
     ce_ctx_base_addr = 0, ce_send_buf_addr = 0, ce_recv_buf_addr = 0, ce_num_nodes = 0,
     ce_msg_entry_size = 0, ce_msgs_per_dest = 0, ce_buf_management = 0\<rparr>, md_send_buf = 1,
     md_send_ctrl = 1, md_ctrl = [], md_per_node_chunk = 0\<rparr>, rc_app_buffers = [], rc_circ_buffers = [],
     rc_rpcServiceTimeStats = \<lparr>underlyingContainer = []\<rparr>, rc_kfd = 0, rc_pgas = 0, rc_nodeID = 9,
     rc_totalNodeCount = 9, rc_threadsPerClient = 9, rc_rpc_id = 9, rc_lbuf_size_bytes = 9,
     rc_isSenderCtx = False, rc_poll_count = 0\<rparr>"

definition demo_ctrl :: "nat \<Rightarrow> send_buf_management_t" where
  "demo_ctrl i = \<lparr>sbm_head = 1, sbm_tail = 1, sbm_lock = 1\<rparr>"

theorem create_context_ok_witness:
  "\<exists>ctx. createRPCNUMAContext (\<lambda>_ _. Some 0x10000) (\<lambda>_. Some 0x20000) demo_junk demo_ctrl 1 2 0 3 512 =
     Inr (Some ctx) \<and> unat (rc_lbuf_size_bytes ctx) = 131072 \<and> length (rc_qps ctx) = 4"
  using create_context_ok [of 512 1 "\<lambda>_. Some 0x20000" 2 "0x20000" "\<lambda>_ _. Some 0x10000" "0x10000"
      demo_junk demo_ctrl 0 3]
  by auto

text \<open>
  C36. A packet size that is not a whole number of cache blocks is rejected by
  \<open>kal_reg_send_recv_bufs\<close>, but \<open>createRPCNUMAContext\<close> does not look at the code and returns a
  context all the same, whose message size and messages per destination were never initialised.
\<close>

theorem create_context_misaligned:
  assumes "\<not> 64 dvd unat packet_size" and "unat packet_size < 8388608" and "unat aNodeID < 100000"
  shows "\<exists>ctx. createRPCNUMAContext memalign malloc junk junk_ctrl aNodeID totalNodes qp_start qp_end packet_size
      = Inr (Some ctx) \<and>
    ce_msg_entry_size (md_ctx_struct (rc_msg_domain ctx)) =
      ce_msg_entry_size (md_ctx_struct (rc_msg_domain junk)) \<and>
    ce_msgs_per_dest (md_ctx_struct (rc_msg_domain ctx)) =
      ce_msgs_per_dest (md_ctx_struct (rc_msg_domain junk)) \<and>
    rc_totalNodeCount ctx = rc_totalNodeCount junk \<and> rc_threadsPerClient ctx = rc_threadsPerClient junk"
  using create_misaligned [OF slot_file_fits [OF assms(3)] assms(2,1)]
  by (simp add: fresh_context_def fresh_domain_def)

theorem create_context_misaligned_witness:
  "\<exists>ctx. createRPCNUMAContext (\<lambda>_ _. None) (\<lambda>_. None) demo_junk demo_ctrl 1 2 0 3 100 = Inr (Some ctx) \<and>
     ce_msgs_per_dest (md_ctx_struct (rc_msg_domain ctx)) = 0"
  using create_context_misaligned [of 100 1 "\<lambda>_ _. None" "\<lambda>_. None" demo_junk demo_ctrl 2 0 3]
  by (auto simp: demo_junk_def)

text \<open>
  With as many threads per client as clients, every client thread of every server thread has
  a buffer of its own, inside the region of its server thread (indices that fit their types).
\<close>

theorem getCBufIdx_layout:
  assumes "unat (rc_totalNodeCount ctx) = Suc C" and "unat (rc_threadsPerClient ctx) = C"
    and "C < 32768" and "unat s1 < 2 ^ 31" and "unat s2 < 2 ^ 31"
    and "1 \<le> unat n1" "unat n1 \<le> C" "unat t1 < C" and "1 \<le> unat n2" "unat n2 \<le> C" "unat t2 < C"
  shows "unat s1 * (C * C) \<le> unat (getCBufIdx n1 t1 s1 ctx) \<and>
    unat (getCBufIdx n1 t1 s1 ctx) < Suc (unat s1) * (C * C) \<and>
    (getCBufIdx n1 t1 s1 ctx = getCBufIdx n2 t2 s2 ctx \<longleftrightarrow> n1 = n2 \<and> t1 = t2 \<and> s1 = s2)"
proof -
  have cc: "C * C < 2 ^ 30"
    using mult_strict_mono' [OF assms(3) assms(3)] by simp
  have bound: "(unat n - 1) * C + unat t < C * C" if "1 \<le> unat n" "unat n \<le> C" "unat t < C" for n t :: u32
    using row_index_less [of "unat n - 1" C "unat t" C] that by linarith
  have idx: "unat (getCBufIdx n t s ctx) = unat s * (C * C) + ((unat n - 1) * C + unat t)"
    if n: "1 \<le> unat n" "unat n \<le> C" "unat t < C" and s: "unat s < 2 ^ 31" for n t s :: u32
  proof -
    have "unat s * (C * C) < 2 ^ 31 * 2 ^ 30" using s cc by (intro mult_strict_mono') simp_all
    then show ?thesis
      using getCBufIdx_nat [of ctx n t s] assms(1,2) n bound [OF n] cc by simp
  qed
  note b1 = bound [OF assms(6-8)] and b2 = bound [OF assms(9-11)]
  note i1 = idx [OF assms(6-8) assms(4)] and i2 = idx [OF assms(9-11) assms(5)]
  have "getCBufIdx n1 t1 s1 ctx = getCBufIdx n2 t2 s2 ctx \<longleftrightarrow>
      unat s1 = unat s2 \<and> unat n1 - 1 = unat n2 - 1 \<and> unat t1 = unat t2"
    unfolding word_unat_eq_iff i1 i2 row_index_inj [OF b1 b2] row_index_inj [OF assms(8,11)] ..
  then have "getCBufIdx n1 t1 s1 ctx = getCBufIdx n2 t2 s2 ctx \<longleftrightarrow> n1 = n2 \<and> t1 = t2 \<and> s1 = s2"
    using assms(6,9) by (auto simp: word_unat_eq_iff)
  then show ?thesis using i1 b1 by simp
qed

definition demo_clients :: "u32 \<Rightarrow> u32 \<Rightarrow> rpcNUMAContext" where
  "demo_clients nodes threads = demo_junk\<lparr>rc_totalNodeCount := nodes, rc_threadsPerClient := threads\<rparr>"

lemma demo_clients_simps [simp]:
  "rc_totalNodeCount (demo_clients n t) = n" "rc_threadsPerClient (demo_clients n t) = t"
  by (simp_all add: demo_clients_def)

theorem getCBufIdx_layout_witness:
  "getCBufIdx 1 1 0 (demo_clients 3 2) \<noteq> getCBufIdx 2 0 0 (demo_clients 3 2)"
  using getCBufIdx_layout [of "demo_clients 3 2" 2 0 0 1 1 2 0] by simp

text \<open>
  With fewer threads per client than clients the index leaves the region of the server
  thread: the last client's first thread gets an index at or past the next server's region,
  since the client number is multiplied by the number of clients and not of threads.
\<close>

theorem getCBufIdx_escapes_region:
  assumes "unat (rc_totalNodeCount ctx) = Suc C" and "unat (rc_threadsPerClient ctx) < C"
    and "C < 32768" and "unat s < 2 ^ 31" and "unat n = C"
  shows "Suc (unat s) * (C * unat (rc_threadsPerClient ctx)) \<le> unat (getCBufIdx n 0 s ctx)"
proof -
  let ?T = "unat (rc_threadsPerClient ctx)"
  have cc: "C * C < 2 ^ 30" using mult_strict_mono' [OF assms(3) assms(3)] by simp
  have ct: "C * ?T \<le> C * (C - 1)" using assms(2) by (intro mult_left_mono) simp_all
  moreover have "C * (C - 1) \<le> C * C" by (intro mult_left_mono) simp_all
  ultimately have small: "C * (C - 1) < 2 ^ 30" "C * ?T < 2 ^ 30" using cc by linarith+
  have "unat s * (C * ?T) < 2 ^ 31 * 2 ^ 30" using assms(4) small(2) by (intro mult_strict_mono') simp_all
  then have "unat (getCBufIdx n 0 s ctx) = unat s * (C * ?T) + (C - 1) * C"
    using getCBufIdx_nat [of ctx n 0 s] assms(1,2,5) small by (simp add: mult.commute)
  with ct show ?thesis by (simp add: mult.commute)
qed

theorem getCBufIdx_escapes_region_witness:
  "3 \<le> unat (getCBufIdx 3 0 0 (demo_clients 4 1))"
  using getCBufIdx_escapes_region [of "demo_clients 4 1" 3 0 3] by simp

text \<open>
  \<open>setupCircularBuffers\<close> makes one empty buffer of 256 slots of a page each per pair of
  sender and receiver, whatever slot size and count it is asked for, at consecutive 2 MB steps
  from the start of the context's memory; the buffers do not overlap while they fit into the
  address space.
\<close>

theorem setupCircularBuffers_layout:
  assumes "unat ns * unat nr * 0x200000 \<le> 2 ^ 64" and "i < j" and "j < unat ns * unat nr"
    and "bufs = rc_circ_buffers (setupCircularBuffers esz n ns nr True ctx)"
  shows "length bufs = unat ns * unat nr \<and>
    cb_inv (0, bufs ! i) \<and> cb_numEntries (bufs ! i) = 256 \<and> cb_entryByteSize (bufs ! i) = 8192 \<and>
    getBasePointer (bufs ! i) = rc_pgas ctx + of_nat i * 0x200000 \<and>
    disjoint_ranges (getBasePointer (bufs ! i)) (unat (GetReservedMemoryBytes (bufs ! i)))
      (getBasePointer (bufs ! j)) (unat (GetReservedMemoryBytes (bufs ! j)))"
proof -
  let ?k = "unat ns * unat nr" and ?st = "0x200000 :: nat"
  have "k < 2 ^ 64" if "k * 0x200000 \<le> 2 ^ 64" for k :: nat using that by simp
  from this [OF assms(1)]
  have nb: "unat (ns * nr) = ?k" by (intro unat_mult_less) simp
  have nth: "bufs ! l = newCircularReceiveBuffer (rc_pgas ctx + of_nat l * 0x200000) 8192 256 True"
    if "l < ?k" for l
    using that nb setup_cbufs_nth [of l ?k "rc_pgas ctx" True]
    by (simp add: assms(4) setupCircularBuffers_def Let_def EMULATOR_SW_PAGE_SIZE_def MSGS_PER_PAIR_def)
  have len: "length bufs = ?k" using nb by (simp add: assms(4) setupCircularBuffers_def Let_def)
  have "cb_inv (0, newCircularReceiveBuffer b 8192 256 True)" for b by (rule cb_inv_new) simp
  moreover have "disjoint_ranges (rc_pgas ctx + of_nat i * 0x200000) ?st (rc_pgas ctx + of_nat j * 0x200000) ?st"
  proof -
    let ?d = "(j - i) * ?st"
    have le: "?d + ?st \<le> 2 ^ 64"
    proof -
      have "(j - i) + 1 \<le> ?k" using assms(2,3) by simp
      then have "((j - i) + 1) * ?st \<le> ?k * ?st" by (rule mult_right_mono) simp
      also note assms(1)
      finally show ?thesis by (simp add: algebra_simps)
    qed
    then have d: "unat (of_nat ?d :: addr) = ?d" by (intro unat_of_nat_less) simp
    have e: "rc_pgas ctx + of_nat j * 0x200000 - (rc_pgas ctx + of_nat i * 0x200000) = (of_nat ?d :: addr)"
      using assms(2) by (simp add: algebra_simps)
    have f: "rc_pgas ctx + of_nat i * 0x200000 - (rc_pgas ctx + of_nat j * 0x200000) = 0 - (of_nat ?d :: addr)"
      unfolding e [symmetric] by simp
    have pos: "?st \<le> ?d" using assms(2) by simp
    then have "unat (0 - of_nat ?d :: addr) = 2 ^ 64 - ?d"
      using d unat_sub_if_size [of "0 :: addr" "of_nat ?d"] by (simp add: word_size del: of_nat_mult)
    with le pos show ?thesis unfolding disjoint_ranges_def e f d by simp
  qed
  ultimately show ?thesis
    using assms(2,3) nth len
    by (simp add: getBasePointer_def GetReservedMemoryBytes_def newCircularReceiveBuffer_def)
qed

theorem setupCircularBuffers_layout_witness:
  "getBasePointer (rc_circ_buffers (setupCircularBuffers 64 32 2 2 True demo_junk) ! 1) = 0x200000"
  using setupCircularBuffers_layout [of 2 2 1 3 "rc_circ_buffers (setupCircularBuffers 64 32 2 2 True demo_junk)"
      64 32 demo_junk]
  by (simp add: demo_junk_def)

end
