(* ===== verification/Bounded_Fifo.thy ===== *)
theory Bounded_Fifo
  imports NF_Prelude
begin

text \<open>
  The contract of a bounded first-in first-out queue, as the rings of the NIC promise it: an
  insertion is accepted while there is room and refused, without effect, when the ring is full;
  a removal takes the oldest item. From that contract follows once and for all that along any
  sequence of insertions and removals no item is lost, duplicated or reordered.
\<close>

text \<open>
  A client's schedule: \<open>Some x\<close> tries to insert \<open>x\<close>, \<open>None\<close> removes the oldest item if
  there is one. The run yields the final queue, the accepted and the removed items.
\<close>

fun fifo_run ::
  "('a \<Rightarrow> 'q \<Rightarrow> 'q option) \<Rightarrow> ('q \<Rightarrow> 'q) \<Rightarrow> ('q \<Rightarrow> 'a list) \<Rightarrow> 'a option list \<Rightarrow> 'q \<Rightarrow> 'q \<times> 'a list \<times> 'a list" where
  "fifo_run enq deq items [] q = (q, [], [])"
| "fifo_run enq deq items (Some x # cs) q =
     (case enq x q of
        None \<Rightarrow> fifo_run enq deq items cs q
      | Some q1 \<Rightarrow> (case fifo_run enq deq items cs q1 of (r, ins, outs) \<Rightarrow> (r, x # ins, outs)))"
| "fifo_run enq deq items (None # cs) q =
     (case items q of
        [] \<Rightarrow> fifo_run enq deq items cs q
      | x # _ \<Rightarrow> (case fifo_run enq deq items cs (deq q) of (r, ins, outs) \<Rightarrow> (r, ins, x # outs)))"

locale bounded_fifo =
  fixes cap :: nat
    and invar :: "'q \<Rightarrow> bool"
    and admissible :: "'a \<Rightarrow> bool"
    and items :: "'q \<Rightarrow> 'a list"
    and enq :: "'a \<Rightarrow> 'q \<Rightarrow> 'q option"
    and deq :: "'q \<Rightarrow> 'q"
  assumes items_bound: "invar q \<Longrightarrow> length (items q) \<le> cap"
    and enq_accepts: "invar q \<Longrightarrow> admissible x \<Longrightarrow> length (items q) < cap \<Longrightarrow>
      \<exists>q1. enq x q = Some q1 \<and> invar q1 \<and> items q1 = items q @ [x]"
    and enq_full: "invar q \<Longrightarrow> length (items q) = cap \<Longrightarrow> enq x q = None"
    and deq_tl: "invar q \<Longrightarrow> items q \<noteq> [] \<Longrightarrow> invar (deq q) \<and> items (deq q) = tl (items q)"
begin

lemma enq_cases:
  assumes "invar q" and "admissible x"
  obtains (accepted) q1 where "enq x q = Some q1" "invar q1" "items q1 = items q @ [x]"
  | (full) "enq x q = None" "length (items q) = cap"
proof (cases "length (items q) < cap")
  case True
  from enq_accepts [OF assms True] accepted show ?thesis by blast
next
  case False
  with items_bound [OF assms(1)] have "length (items q) = cap" by simp
  with enq_full [OF assms(1)] show ?thesis by (intro full) auto
qed

lemma run_fifo:
  "invar q \<Longrightarrow> list_all (\<lambda>c. case c of None \<Rightarrow> True | Some x \<Rightarrow> admissible x) cs \<Longrightarrow>
   fifo_run enq deq items cs q = (r, ins, outs) \<Longrightarrow>
   invar r \<and> items q @ ins = outs @ items r"
proof (induction cs arbitrary: q r ins outs)
  case Nil
  then show ?case by simp
next
  case (Cons c cs)
  show ?case
  proof (cases c)
    case None
    show ?thesis
    proof (cases "items q")
      case Nil
      with Cons.IH [of q] Cons.prems None show ?thesis by simp
    next
      case (Cons x xs)
      then have "invar (deq q)" "items (deq q) = xs"
        using deq_tl [OF Cons.prems(1)] by simp_all
      with Cons.IH [of "deq q"] Cons.prems \<open>c = None\<close> \<open>items q = x # xs\<close> show ?thesis
        by (auto split: prod.splits)
    qed
  next
    case (Some x)
    with Cons.prems have "admissible x" by simp
    with Cons.prems(1) show ?thesis
    proof (cases rule: enq_cases)
      case (accepted q1)
      with Cons.IH [of q1] Cons.prems Some show ?thesis
        by (auto split: prod.splits)
    next
      case full
      with Cons.IH [of q] Cons.prems Some show ?thesis by simp
    qed
  qed
qed

text \<open>The queue never holds more than its capacity, whatever the client does.\<close>

lemma run_bound:
  assumes "invar q" "list_all (\<lambda>c. case c of None \<Rightarrow> True | Some x \<Rightarrow> admissible x) cs"
    and "fifo_run enq deq items cs q = (r, ins, outs)"
  shows "length (items q) + length ins \<le> cap + length outs"
proof -
  from run_fifo [OF assms] have "items q @ ins = outs @ items r" "invar r" by simp_all
  then have "length (items q) + length ins = length outs + length (items r)"
    by (metis length_append)
  with items_bound [OF \<open>invar r\<close>] show ?thesis by simp
qed

end

section \<open>Indices around a ring\<close>

lemma ring_index_inj_le:
  fixes t :: nat
  assumes "i \<le> j" "j < N" "(t + i) mod N = (t + j) mod N"
  shows "i = j"
proof -
  have "N dvd (t + j) - (t + i)"
    using assms(1,3) by (subst mod_eq_dvd_iff_nat [symmetric]) simp_all
  then have "N dvd j - i" by simp
  with assms(1,2) show ?thesis by (cases "j = i") (auto dest: dvd_imp_le)
qed

lemma ring_index_inj:
  fixes t :: nat
  assumes "i < N" "j < N" "(t + i) mod N = (t + j) mod N"
  shows "i = j"
  using ring_index_inj_le [of i j N t] ring_index_inj_le [of j i N t] assms by linarith

lemma ring_index_eq_iff:
  fixes t :: nat
  shows "i < N \<Longrightarrow> j < N \<Longrightarrow> (t + i) mod N = (t + j) mod N \<longleftrightarrow> i = j"
  using ring_index_inj by blast

lemma ring_index_shift: "(Suc t mod N + i) mod N = (t + Suc i) mod N"
  by (simp add: mod_add_left_eq)

end
