(* ===== verification/Nic_Wq.thy ===== *)
theory Nic_Wq
  imports Zsim_Nic Bounded_Fifo
begin

unbundle bit_operations_syntax

text \<open>
  Correctness of the posting side of the NIC library: well-formedness of a work queue, the
  behaviour of \<open>rmc_hw_send\<close> and \<open>rmc_hw_recv\<close> on every branch, and the refinement of
  the work queue to a bounded first-in first-out queue whose producer is the application and
  whose consumer is the NIC.
\<close>

section \<open>Well-formed work queues\<close>

definition wf_wq :: "rmc_wq_t \<Rightarrow> bool" where
  "wf_wq w \<longleftrightarrow> length (wq_q w) = MAX_NUM_WQ \<and> unat (wq_head w) < MAX_NUM_WQ"

lemma MAX_NUM_WQ_bounds [simp, layout_simps]:
  "0 < MAX_NUM_WQ" "MAX_NUM_WQ < 2 ^ 32" "MAX_NUM_WQ \<noteq> 0"
  by (simp_all add: MAX_NUM_WQ_def)

lemma unat_head_Suc:
  "unat (h :: u32) < MAX_NUM_WQ \<Longrightarrow> unat (h + 1) = Suc (unat h)"
  by (rule unat_Suc_less [where n = MAX_NUM_WQ]) (simp_all add: MAX_NUM_WQ_def)

interpretation wq_cursor: sense_ring MAX_NUM_WQ wf_wq "\<lambda>w. unat (wq_head w)" wq_SR bump_wq
  by unfold_locales (auto simp: wf_wq_def bump_wq_def Let_def unat_head_Suc)

lemma bump_wq_q [simp]: "wq_q (bump_wq w) = wq_q w"
  by (simp add: bump_wq_def Let_def)

section \<open>Posting an entry\<close>

text \<open>The slot the next post would take, and what a post does to the queue and the machine.\<close>

abbreviation head_slot :: "rmc_wq_t \<Rightarrow> wq_entry_t" where
  "head_slot w \<equiv> wq_q w ! unat (wq_head w)"

definition wq_post :: "wq_entry_t \<Rightarrow> rmc_wq_t \<Rightarrow> rmc_wq_t" where
  "wq_post e w = bump_wq (w\<lparr>wq_q := (wq_q w)[unat (wq_head w) := e]\<rparr>)"

definition post_machine :: "addr \<Rightarrow> wq_entry_t \<Rightarrow> rmc_wq_t \<Rightarrow> machine \<Rightarrow> machine" where
  "post_machine p e w m =
     m\<lparr>wq_at := (wq_at m)(p \<mapsto> wq_post e w),
       magic := magic m @ [(Imm NULL, NOTIFY_WQ_WRITE)],
       posted := (posted m)(p := posted m p @ [e])\<rparr>"

definition send_entry :: "rmc_wq_t \<Rightarrow> u32 \<Rightarrow> u64 \<Rightarrow> u64 \<Rightarrow> u64 \<Rightarrow> wq_entry_t" where
  "send_entry w ctx_id data_address len nid =
     \<lparr>wqe_op = RMC_SEND, wqe_SR = wq_SR w, wqe_valid = True, wqe_buf_addr = data_address,
      wqe_cid = ctx_id, wqe_nid = nid, wqe_offset = 0,
      wqe_length = drop_bit CACHE_BLOCK_BITS (len + (CACHE_BLOCK_SIZE - 1))\<rparr>"

definition recv_entry :: "rmc_wq_t \<Rightarrow> u32 \<Rightarrow> u64 \<Rightarrow> u64 \<Rightarrow> wq_entry_t" where
  "recv_entry w ctx_id recv_buf len =
     \<lparr>wqe_op = RMC_RECV, wqe_SR = wq_SR w, wqe_valid = True, wqe_buf_addr = recv_buf,
      wqe_cid = ctx_id, wqe_nid = 0, wqe_offset = 0, wqe_length = len\<rparr>"

lemma wf_wq_update [simp]: "wf_wq (w\<lparr>wq_q := (wq_q w)[i := e]\<rparr>) = wf_wq w"
  by (simp add: wf_wq_def)

lemma wf_wq_post: "wf_wq w \<Longrightarrow> wf_wq (wq_post e w)"
  by (simp add: wq_post_def wq_cursor.adv_ok)

lemma wq_post_q: "wq_q (wq_post e w) = (wq_q w)[unat (wq_head w) := e]"
  by (simp add: wq_post_def)

lemma wq_post_head: "wf_wq w \<Longrightarrow> unat (wq_head (wq_post e w)) = Suc (unat (wq_head w)) mod MAX_NUM_WQ"
  using wq_cursor.adv_pos_mod [of "w\<lparr>wq_q := (wq_q w)[unat (wq_head w) := e]\<rparr>"]
  by (simp add: wq_post_def)

lemma send_recv_entry_valid [simp]:
  "wqe_valid (send_entry w c a l n)" "wqe_valid (recv_entry w c a l)"
  by (simp_all add: send_entry_def recv_entry_def)

lemma rmc_hw_send_eq:
  assumes "wq_at m p = Some w" and "wf_wq w"
  shows "rmc_hw_send p ctx_id data_address len nid m =
    (if wqe_valid (head_slot w) then Inr (-1, m)
     else Inr (0, post_machine p (send_entry w ctx_id data_address len nid) w m))"
  using assms
  by (simp add: rmc_hw_send_def load_wq_def wf_wq_def create_wq_entry_def store_wq_def
      register_buffer_def post_machine_def wq_post_def send_entry_def Let_def)

lemma rmc_hw_recv_eq:
  assumes "wq_at m p = Some w" and "wf_wq w"
  shows "rmc_hw_recv p ctx_id recv_buf len m =
    (if wqe_valid (head_slot w) then Inr (-1, m)
     else Inr (0, post_machine p (recv_entry w ctx_id recv_buf len) w m))"
  using assms
  by (simp add: rmc_hw_recv_def load_wq_def wf_wq_def create_wq_entry_def store_wq_def
      register_buffer_def post_machine_def wq_post_def recv_entry_def Let_def)

lemma post_machine_simps [simp]:
  "wq_at (post_machine p e w m) = (wq_at m)(p \<mapsto> wq_post e w)"
  "cq_at (post_machine p e w m) = cq_at m"
  "flag_at (post_machine p e w m) = flag_at m"
  "mem (post_machine p e w m) = mem m"
  "now (post_machine p e w m) = now m"
  "posted (post_machine p e w m) = (posted m)(p := posted m p @ [e])"
  "delivered (post_machine p e w m) = delivered m"
  by (simp_all add: post_machine_def)

section \<open>The work queue as a bounded FIFO\<close>

text \<open>
  The abstract view adds the NIC's side: the slot \<open>t\<close> of the oldest entry it has not
  completed and the number \<open>n\<close> of such entries. Completion clears the valid bit of the
  oldest entry, as the comment on \<open>wq_entry_t.valid\<close> documents.
\<close>

type_synonym wq_view = "nat \<times> nat \<times> rmc_wq_t"

fun wq_inv :: "wq_view \<Rightarrow> bool" where
  "wq_inv (t, n, w) \<longleftrightarrow>
     wf_wq w \<and> t < MAX_NUM_WQ \<and> n \<le> MAX_NUM_WQ \<and> unat (wq_head w) = (t + n) mod MAX_NUM_WQ \<and>
     (\<forall>i<MAX_NUM_WQ. wqe_valid (wq_q w ! ((t + i) mod MAX_NUM_WQ)) = (i < n))"

fun wq_items :: "wq_view \<Rightarrow> wq_entry_t list" where
  "wq_items (t, n, w) = map (\<lambda>i. wq_q w ! ((t + i) mod MAX_NUM_WQ)) [0..<n]"

fun wq_enq :: "wq_entry_t \<Rightarrow> wq_view \<Rightarrow> wq_view option" where
  "wq_enq e (t, n, w) = (if wqe_valid (head_slot w) then None else Some (t, Suc n, wq_post e w))"

fun wq_complete :: "wq_view \<Rightarrow> wq_view" where
  "wq_complete (t, n, w) =
     (Suc t mod MAX_NUM_WQ, n - 1, w\<lparr>wq_q := (wq_q w)[t := (wq_q w ! t)\<lparr>wqe_valid := False\<rparr>]\<rparr>)"

lemma wq_inv_head_valid:
  assumes "wq_inv (t, n, w)"
  shows "wqe_valid (head_slot w) \<longleftrightarrow> n = MAX_NUM_WQ"
proof (cases "n = MAX_NUM_WQ")
  case True
  with assms have "unat (wq_head w) = (t + 0) mod MAX_NUM_WQ" by simp
  moreover have "\<forall>i<MAX_NUM_WQ. wqe_valid (wq_q w ! ((t + i) mod MAX_NUM_WQ))"
    using assms True by simp
  then have "wqe_valid (wq_q w ! ((t + 0) mod MAX_NUM_WQ))" by (rule allE [of _ 0]) simp
  ultimately show ?thesis using True by simp
next
  case False
  with assms show ?thesis by simp
qed

lemma wq_inv_post:
  assumes inv: "wq_inv (t, n, w)" and v: "wqe_valid e" and n: "n < MAX_NUM_WQ"
  shows "wq_inv (t, Suc n, wq_post e w)"
    and "wq_items (t, Suc n, wq_post e w) = wq_items (t, n, w) @ [e]"
proof -
  let ?h = "(t + n) mod MAX_NUM_WQ"
  from inv have wf: "wf_wq w" and h: "unat (wq_head w) = ?h" and len: "length (wq_q w) = MAX_NUM_WQ"
    by (simp_all add: wf_wq_def)
  have slot: "wq_q (wq_post e w) ! ((t + i) mod MAX_NUM_WQ) =
      (if i = n then e else wq_q w ! ((t + i) mod MAX_NUM_WQ))" if "i < MAX_NUM_WQ" for i
    using that n by (auto simp: wq_post_q h len nth_list_update ring_index_eq_iff)
  show "wq_inv (t, Suc n, wq_post e w)"
    using inv n v by (auto simp: wf_wq_post slot wq_post_head [OF wf] h mod_Suc_eq less_Suc_eq)
  show "wq_items (t, Suc n, wq_post e w) = wq_items (t, n, w) @ [e]"
    using n by (auto simp: slot)
qed

lemma wq_inv_complete:
  assumes inv: "wq_inv (t, n, w)" and n: "0 < n"
  shows "wq_inv (wq_complete (t, n, w))"
    and "wq_items (wq_complete (t, n, w)) = tl (wq_items (t, n, w))"
proof -
  let ?t = "Suc t mod MAX_NUM_WQ"
  from inv have wf: "wf_wq w" and len: "length (wq_q w) = MAX_NUM_WQ" and t: "t < MAX_NUM_WQ"
    and nM: "n \<le> MAX_NUM_WQ"
    by (simp_all add: wf_wq_def)
  have slot: "(wq_q w)[t := (wq_q w ! t)\<lparr>wqe_valid := False\<rparr>] ! ((?t + i) mod MAX_NUM_WQ) =
      (if Suc i = MAX_NUM_WQ then (wq_q w ! t)\<lparr>wqe_valid := False\<rparr>
       else wq_q w ! ((t + Suc i) mod MAX_NUM_WQ))" if i: "i < MAX_NUM_WQ" for i
  proof (cases "Suc i = MAX_NUM_WQ")
    case True
    then have "(?t + i) mod MAX_NUM_WQ = t" using t by (simp add: ring_index_shift)
    with True t len show ?thesis by simp
  next
    case False
    with i have "(t + Suc i) mod MAX_NUM_WQ \<noteq> (t + 0) mod MAX_NUM_WQ"
      by (subst ring_index_eq_iff) auto
    with False t len show ?thesis by (simp only: ring_index_shift) simp
  qed
  have head: "(t + n) mod MAX_NUM_WQ = (?t + (n - 1)) mod MAX_NUM_WQ"
    using n ring_index_shift [of t MAX_NUM_WQ "n - 1"] by simp
  have succ: "wqe_valid (wq_q w ! (Suc (t + i) mod MAX_NUM_WQ)) = (Suc i < n)"
    if "Suc i < MAX_NUM_WQ" for i
  proof -
    have "\<forall>i<MAX_NUM_WQ. wqe_valid (wq_q w ! ((t + i) mod MAX_NUM_WQ)) = (i < n)"
      using inv by simp
    with that show ?thesis by (auto dest: spec [of _ "Suc i"])
  qed
  show "wq_inv (wq_complete (t, n, w))"
    using wf t nM n head inv by (auto simp: slot succ less_diff_conv)
  show "wq_items (wq_complete (t, n, w)) = tl (wq_items (t, n, w))"
  proof -
    have "tl [0..<n] = map Suc [0..<n - 1]"
      using n by (cases n) (simp_all add: map_Suc_upt upt_conv_Cons del: upt_Suc)
    then show ?thesis using nM n by (auto simp: slot map_tl [symmetric])
  qed
qed

interpretation wq_fifo: bounded_fifo MAX_NUM_WQ wq_inv wqe_valid wq_items wq_enq wq_complete
proof unfold_locales
  fix q :: wq_view and x :: wq_entry_t
  obtain t n w where q: "q = (t, n, w)" by (cases q)
  show "wq_inv q \<Longrightarrow> length (wq_items q) \<le> MAX_NUM_WQ" by (simp add: q)
  show "\<exists>q1. wq_enq x q = Some q1 \<and> wq_inv q1 \<and> wq_items q1 = wq_items q @ [x]"
    if "wq_inv q" "wqe_valid x" "length (wq_items q) < MAX_NUM_WQ"
  proof -
    from that have n: "n < MAX_NUM_WQ" by (simp add: q)
    with wq_inv_head_valid that(1) have "\<not> wqe_valid (head_slot w)" by (auto simp: q)
    with wq_inv_post [OF that(1) [unfolded q] that(2) n] show ?thesis by (simp add: q del: wq_inv.simps wq_items.simps)
  qed
  show "wq_enq x q = None" if "wq_inv q" "length (wq_items q) = MAX_NUM_WQ"
    using wq_inv_head_valid [of t n w] that by (simp add: q)
  show "wq_inv (wq_complete q) \<and> wq_items (wq_complete q) = tl (wq_items q)"
    if "wq_inv q" "wq_items q \<noteq> []"
    using wq_inv_complete [of t n w] that by (simp add: q del: wq_inv.simps wq_complete.simps)
qed

section \<open>Sequences of posts and completions\<close>

text \<open>
  A schedule of the application's posts, run by the code on the machine, and of the NIC's
  completions. The run yields the final view and the entries the NIC completed.
\<close>

datatype wq_act = Post_send u32 u64 u64 u64 | Post_recv u32 u64 u64 | Complete

fun nic_complete :: "addr \<Rightarrow> nat \<times> nat \<times> machine \<Rightarrow> (nat \<times> nat \<times> machine) \<times> wq_entry_t list" where
  "nic_complete p (t, n, m) =
     (case wq_at m p of
        None \<Rightarrow> ((t, n, m), [])
      | Some w \<Rightarrow>
          if n = 0 then ((t, n, m), [])
          else (case wq_complete (t, n, w) of (t1, n1, w1) \<Rightarrow>
                  ((t1, n1, store_wq p w1 m), [wq_q w ! t])))"

fun wq_script ::
  "addr \<Rightarrow> wq_act list \<Rightarrow> nat \<times> nat \<times> machine \<Rightarrow> ((nat \<times> nat \<times> machine) \<times> wq_entry_t list) res" where
  "wq_script p [] v = Inr (v, [])"
| "wq_script p (Post_send c a l d # xs) (t, n, m) =
     bindR (rmc_hw_send p c a l d m) (\<lambda>(r, m1). wq_script p xs (t, if r = 0 then Suc n else n, m1))"
| "wq_script p (Post_recv c a l # xs) (t, n, m) =
     bindR (rmc_hw_recv p c a l m) (\<lambda>(r, m1). wq_script p xs (t, if r = 0 then Suc n else n, m1))"
| "wq_script p (Complete # xs) v =
     (case nic_complete p v of (v1, fin) \<Rightarrow>
        bindR (wq_script p xs v1) (\<lambda>(v2, outs). Inr (v2, fin @ outs)))"

text \<open>The relation every prefix of a schedule establishes.\<close>

definition wq_accounted :: "addr \<Rightarrow> nat \<times> nat \<times> machine \<Rightarrow> nat \<times> nat \<times> machine \<Rightarrow> wq_entry_t list \<Rightarrow> bool" where
  "wq_accounted p v v1 outs \<longleftrightarrow>
     (case v of (t, n, m) \<Rightarrow> case v1 of (t1, n1, m1) \<Rightarrow>
      \<exists>w w1 ins. wq_at m p = Some w \<and> wq_at m1 p = Some w1 \<and> wq_inv (t1, n1, w1) \<and>
        posted m1 p = posted m p @ ins \<and>
        wq_items (t, n, w) @ ins = outs @ wq_items (t1, n1, w1))"

lemma wq_accounted_refl:
  "wq_at m p = Some w \<Longrightarrow> wq_inv (t, n, w) \<Longrightarrow> wq_accounted p (t, n, m) (t, n, m) []"
  by (auto simp: wq_accounted_def simp del: wq_inv.simps wq_items.simps)

lemma wq_accounted_trans:
  assumes "wq_accounted p v v1 outs" "wq_accounted p v1 v2 outs1"
  shows "wq_accounted p v v2 (outs @ outs1)"
proof -
  obtain t n m t1 n1 m1 t2 n2 m2 where v: "v = (t, n, m)" "v1 = (t1, n1, m1)" "v2 = (t2, n2, m2)"
    by (cases v, cases v1, cases v2)
  from assms(1) obtain w w1 ins where 1: "wq_at m p = Some w" "wq_at m1 p = Some w1"
    "posted m1 p = posted m p @ ins" "wq_items (t, n, w) @ ins = outs @ wq_items (t1, n1, w1)"
    unfolding wq_accounted_def v by blast
  from assms(2) 1(2) obtain w2 ins1 where 2: "wq_at m2 p = Some w2" "wq_inv (t2, n2, w2)"
    "posted m2 p = posted m1 p @ ins1"
    "wq_items (t1, n1, w1) @ ins1 = outs1 @ wq_items (t2, n2, w2)"
    unfolding wq_accounted_def v by auto
  have "wq_items (t, n, w) @ (ins @ ins1) = (outs @ outs1) @ wq_items (t2, n2, w2)"
    using 1(4) 2(4) by (metis append.assoc)
  moreover have "posted m2 p = posted m p @ (ins @ ins1)" using 1(3) 2(3) by simp
  ultimately show ?thesis unfolding wq_accounted_def v using 1(1) 2(1,2) by blast
qed

lemma post_accounted:
  assumes "wq_at m p = Some w" "wq_inv (t, n, w)" "wqe_valid e" "\<not> wqe_valid (head_slot w)"
  shows "wq_accounted p (t, n, m) (t, Suc n, post_machine p e w m) []"
proof -
  from assms(2,4) wq_inv_head_valid [of t n w] have "n < MAX_NUM_WQ" by auto
  from wq_inv_post [OF assms(2,3) this] assms(1) show ?thesis
    by (auto simp: wq_accounted_def simp del: wq_inv.simps wq_items.simps intro!: exI [of _ "[e]"])
qed

lemma complete_accounted:
  assumes "wq_at m p = Some w" "wq_inv (t, n, w)" "nic_complete p (t, n, m) = (v1, outs)"
  shows "wq_accounted p (t, n, m) v1 outs"
proof (cases "n = 0")
  case True
  with assms show ?thesis using wq_accounted_refl [OF assms(1,2)] by simp
next
  case False
  let ?w = "w\<lparr>wq_q := (wq_q w)[t := (wq_q w ! t)\<lparr>wqe_valid := False\<rparr>]\<rparr>"
  from wq_inv_complete [OF assms(2)] False have inv: "wq_inv (Suc t mod MAX_NUM_WQ, n - 1, ?w)"
    and it: "wq_items (Suc t mod MAX_NUM_WQ, n - 1, ?w) = tl (wq_items (t, n, w))" by simp_all
  have hd: "wq_items (t, n, w) = (wq_q w ! t) # tl (wq_items (t, n, w))"
    using False assms(2) by (cases n) (simp_all add: upt_conv_Cons del: upt_Suc)
  from assms(1,3) False have v: "v1 = (Suc t mod MAX_NUM_WQ, n - 1, store_wq p ?w m)" "outs = [wq_q w ! t]"
    by auto
  show ?thesis
    unfolding wq_accounted_def v using assms(1) inv it hd
    by (auto simp: store_wq_def simp del: wq_inv.simps wq_items.simps intro!: exI [of _ "[]"])
qed

lemma wq_script_accounted:
  "wq_at m p = Some w \<Longrightarrow> wq_inv (t, n, w) \<Longrightarrow>
   \<exists>v1 outs. wq_script p xs (t, n, m) = Inr (v1, outs) \<and> wq_accounted p (t, n, m) v1 outs"
proof (induction xs arbitrary: t n m w)
  case Nil
  then show ?case by (auto intro: wq_accounted_refl simp del: wq_inv.simps)
next
  case (Cons x xs)
  have wf: "wf_wq w" using Cons.prems(2) by simp
  have post: "\<exists>v1 outs. wq_script p xs (t, Suc n, post_machine p e w m) = Inr (v1, outs) \<and>
      wq_accounted p (t, n, m) v1 outs" if "wqe_valid e" "\<not> wqe_valid (head_slot w)" for e
  proof -
    note a = post_accounted [OF Cons.prems that]
    from a obtain w1 where "wq_at (post_machine p e w m) p = Some w1" "wq_inv (t, Suc n, w1)"
      by (auto simp: wq_accounted_def simp del: wq_inv.simps)
    from Cons.IH [OF this] wq_accounted_trans [OF a] show ?thesis by force
  qed
  show ?case
  proof (cases x)
    case (Post_send c a l d)
    with post [of "send_entry w c a l d"] Cons.IH [OF Cons.prems] Cons.prems(1) wf show ?thesis
      by (simp add: rmc_hw_send_eq del: wq_inv.simps)
  next
    case (Post_recv c a l)
    with post [of "recv_entry w c a l"] Cons.IH [OF Cons.prems] Cons.prems(1) wf show ?thesis
      by (simp add: rmc_hw_recv_eq del: wq_inv.simps)
  next
    case Complete
    obtain t1 n1 m1 fin where c: "nic_complete p (t, n, m) = ((t1, n1, m1), fin)"
      by (metis prod.exhaust)
    note a = complete_accounted [OF Cons.prems c]
    from a obtain w1 where "wq_at m1 p = Some w1" "wq_inv (t1, n1, w1)"
      by (auto simp: wq_accounted_def simp del: wq_inv.simps)
    from Cons.IH [OF this] wq_accounted_trans [OF a] c Complete show ?thesis by force
  qed
qed

section \<open>Properties\<close>

text \<open>A machine with one idle queue pair, on which the properties are exercised.\<close>

definition blank_wqe :: wq_entry_t where
  "blank_wqe = \<lparr>wqe_op = 0, wqe_SR = False, wqe_valid = False, wqe_buf_addr = 0, wqe_cid = 0,
     wqe_nid = 0, wqe_offset = 0, wqe_length = 0\<rparr>"

definition idle_wq :: rmc_wq_t where
  "idle_wq = \<lparr>wq_q = replicate MAX_NUM_WQ blank_wqe, wq_head = 0, wq_SR = True\<rparr>"

definition wq_demo :: machine where
  "wq_demo = \<lparr>mem = (\<lambda>_. 0), wq_at = [0x1000 \<mapsto> idle_wq], cq_at = Map.empty, flag_at = Map.empty,
     now = 0, magic = [], posted = \<lambda>_. [], delivered = \<lambda>_. []\<rparr>"

lemma wq_demo_simps [simp]:
  "wq_at wq_demo 0x1000 = Some idle_wq" "posted wq_demo p = []"
  by (simp_all add: wq_demo_def)

lemma idle_wq_inv [simp]: "wq_inv (0, 0, idle_wq)" "wf_wq idle_wq" "\<not> wqe_valid (head_slot idle_wq)"
  by (simp_all add: idle_wq_def blank_wqe_def wf_wq_def)

lemma idle_wq_items: "wq_items (0, 0, idle_wq) = []"
  by simp

lemma wq_demo_send: "\<exists>m1. rmc_hw_send 0x1000 c a l d wq_demo = Inr (0, m1)"
  by (simp add: rmc_hw_send_eq [OF wq_demo_simps(1) idle_wq_inv(2)] del: wq_inv.simps)

text \<open>
  C10. \<open>rmc_hw_send\<close> is the insertion of a bounded FIFO of \<open>MAX_NUM_WQ\<close> entries. On a queue
  with \<open>n\<close> entries outstanding it returns -1 and changes nothing if the ring is full, and
  otherwise returns 0 and appends exactly one SEND entry, whose fields are the arguments with
  the length in cache lines, leaving every other queue and the memory alone.
\<close>

theorem rmc_hw_send_fifo:
  assumes "wq_at m p = Some w" and "wq_inv (t, n, w)"
  shows "if n = MAX_NUM_WQ then rmc_hw_send p ctx_id data_address len nid m = Inr (-1, m)
    else \<exists>m1 w1. rmc_hw_send p ctx_id data_address len nid m = Inr (0, m1) \<and>
      wq_at m1 = (wq_at m)(p \<mapsto> w1) \<and> wq_inv (t, Suc n, w1) \<and>
      wq_items (t, Suc n, w1) = wq_items (t, n, w) @
        [\<lparr>wqe_op = RMC_SEND, wqe_SR = wq_SR w, wqe_valid = True, wqe_buf_addr = data_address,
          wqe_cid = ctx_id, wqe_nid = nid, wqe_offset = 0,
          wqe_length = drop_bit 6 (len + 63)\<rparr>] \<and>
      mem m1 = mem m \<and> cq_at m1 = cq_at m"
proof -
  let ?e = "send_entry w ctx_id data_address len nid"
  have wf: "wf_wq w" and n: "n \<le> MAX_NUM_WQ" using assms(2) by simp_all
  note eq = rmc_hw_send_eq [OF assms(1) wf]
  note full = wq_inv_head_valid [OF assms(2)]
  have e: "?e = \<lparr>wqe_op = RMC_SEND, wqe_SR = wq_SR w, wqe_valid = True, wqe_buf_addr = data_address,
      wqe_cid = ctx_id, wqe_nid = nid, wqe_offset = 0, wqe_length = drop_bit 6 (len + 63)\<rparr>"
    by (simp add: send_entry_def CACHE_BLOCK_SIZE_def CACHE_BLOCK_BITS_def)
  show ?thesis
  proof (cases "n = MAX_NUM_WQ")
    case True
    with eq full show ?thesis by simp
  next
    case False
    with n have "n < MAX_NUM_WQ" by simp
    from wq_inv_post [OF assms(2) send_recv_entry_valid(1) this, of w ctx_id data_address len nid]
    show ?thesis unfolding eq e using False full
      by (auto simp del: wq_inv.simps wq_items.simps)
  qed
qed

theorem rmc_hw_send_fifo_witness:
  "wq_at wq_demo 0x1000 = Some idle_wq \<and> wq_inv (0, 0, idle_wq) \<and>
   (\<exists>m1 w1. rmc_hw_send 0x1000 7 0x8000 512 3 wq_demo = Inr (0, m1) \<and>
      wq_at m1 = (wq_at wq_demo)(0x1000 \<mapsto> w1) \<and> wq_inv (0, 1, w1))"
  using rmc_hw_send_fifo [of wq_demo "0x1000" idle_wq 0 0 7 "0x8000" 512 3]
  by (auto simp del: wq_inv.simps wq_items.simps)

text \<open>
  The same for \<open>rmc_hw_recv\<close>: on a full ring it returns -1 without effect, otherwise it
  appends one RECV entry for the given receive buffer, with its length unscaled.
\<close>

theorem rmc_hw_recv_fifo:
  assumes "wq_at m p = Some w" and "wq_inv (t, n, w)"
  shows "if n = MAX_NUM_WQ then rmc_hw_recv p ctx_id recv_buf len m = Inr (-1, m)
    else \<exists>m1 w1. rmc_hw_recv p ctx_id recv_buf len m = Inr (0, m1) \<and>
      wq_at m1 = (wq_at m)(p \<mapsto> w1) \<and> wq_inv (t, Suc n, w1) \<and>
      wq_items (t, Suc n, w1) = wq_items (t, n, w) @
        [\<lparr>wqe_op = RMC_RECV, wqe_SR = wq_SR w, wqe_valid = True, wqe_buf_addr = recv_buf,
          wqe_cid = ctx_id, wqe_nid = 0, wqe_offset = 0, wqe_length = len\<rparr>] \<and>
      mem m1 = mem m \<and> cq_at m1 = cq_at m"
proof -
  have wf: "wf_wq w" and n: "n \<le> MAX_NUM_WQ" using assms(2) by simp_all
  note eq = rmc_hw_recv_eq [OF assms(1) wf]
  note full = wq_inv_head_valid [OF assms(2)]
  show ?thesis
  proof (cases "n = MAX_NUM_WQ")
    case True
    with eq full show ?thesis by simp
  next
    case False
    with n have "n < MAX_NUM_WQ" by simp
    from wq_inv_post [OF assms(2) send_recv_entry_valid(2) this, of w ctx_id recv_buf len]
    show ?thesis unfolding eq recv_entry_def using False full
      by (auto simp del: wq_inv.simps wq_items.simps)
  qed
qed

theorem rmc_hw_recv_fifo_witness:
  "wq_at wq_demo 0x1000 = Some idle_wq \<and> wq_inv (0, 0, idle_wq) \<and>
   (\<exists>m1 w1. rmc_hw_recv 0x1000 7 0x9000 64 wq_demo = Inr (0, m1) \<and>
      wq_at m1 = (wq_at wq_demo)(0x1000 \<mapsto> w1) \<and> wq_inv (0, 1, w1))"
  using rmc_hw_recv_fifo [of wq_demo "0x1000" idle_wq 0 0 7 "0x9000" 64]
  by (auto simp del: wq_inv.simps wq_items.simps)

text \<open>
  C23. Along any schedule of sends and receives posted by the code and completions by the NIC,
  nothing faults and no entry is lost, duplicated or reordered: what was outstanding, followed
  by what the code wrote, is what the NIC completed, followed by what is outstanding; and at
  no point are more than \<open>MAX_NUM_WQ\<close> entries outstanding.
\<close>

theorem wq_schedule_fifo:
  assumes "wq_at m p = Some w" and "wq_inv (t, n, w)"
  shows "\<exists>t1 n1 m1 w1 ins outs. wq_script p xs (t, n, m) = Inr ((t1, n1, m1), outs) \<and>
    wq_at m1 p = Some w1 \<and> posted m1 p = posted m p @ ins \<and>
    wq_items (t, n, w) @ ins = outs @ wq_items (t1, n1, w1) \<and>
    length (wq_items (t1, n1, w1)) \<le> MAX_NUM_WQ"
proof -
  from wq_script_accounted [OF assms] obtain t1 n1 m1 outs
    where s: "wq_script p xs (t, n, m) = Inr ((t1, n1, m1), outs)"
      and a: "wq_accounted p (t, n, m) (t1, n1, m1) outs"
    by (metis prod.exhaust)
  from a assms(1) obtain w1 ins where "wq_at m1 p = Some w1" "wq_inv (t1, n1, w1)"
    "posted m1 p = posted m p @ ins" "wq_items (t, n, w) @ ins = outs @ wq_items (t1, n1, w1)"
    by (auto simp: wq_accounted_def simp del: wq_inv.simps wq_items.simps)
  with s wq_fifo.items_bound show ?thesis by blast
qed

theorem wq_schedule_fifo_witness:
  "\<exists>t1 n1 m1 w1 ins outs.
     wq_script 0x1000 [Post_send 7 0x8000 512 3, Post_recv 7 0x9000 64, Complete] (0, 0, wq_demo)
       = Inr ((t1, n1, m1), outs) \<and>
     wq_at m1 0x1000 = Some w1 \<and> posted m1 0x1000 = ins \<and> ins = outs @ wq_items (t1, n1, w1)"
  using wq_schedule_fifo [of wq_demo "0x1000" idle_wq 0 0
      "[Post_send 7 0x8000 512 3, Post_recv 7 0x9000 64, Complete]"]
  by (simp del: wq_inv.simps wq_script.simps wq_items.simps add: idle_wq_items) blast

text \<open>
  The length a SEND entry carries is the message length in cache lines, rounded up, for
  every message short enough not to wrap the 64-bit addition.
\<close>

theorem rmc_hw_send_cache_lines:
  assumes "wq_at m p = Some w" and "wf_wq w" and "unat len + 63 < 2 ^ 64"
    and "rmc_hw_send p ctx_id data_address len nid m = Inr (0, m1)"
  shows "\<exists>e. posted m1 p = posted m p @ [e] \<and> wqe_op e = RMC_SEND \<and>
    unat (wqe_length e) = (unat len + 63) div 64"
proof -
  let ?e = "send_entry w ctx_id data_address len nid"
  from assms(4) have "posted m1 p = posted m p @ [?e]"
    unfolding rmc_hw_send_eq [OF assms(1,2)] by (auto split: if_splits)
  moreover have "unat (len + 63) = unat len + 63"
    using assms(3) by (simp add: unat_word_ariths)
  then have "unat (wqe_length ?e) = (unat len + 63) div 64"
    by (simp add: send_entry_def CACHE_BLOCK_SIZE_def CACHE_BLOCK_BITS_def drop_bit_eq_div unat_div)
  ultimately show ?thesis by (auto simp: send_entry_def)
qed

theorem rmc_hw_send_cache_lines_witness:
  "\<exists>m1 e. rmc_hw_send 0x1000 7 0x8000 65 3 wq_demo = Inr (0, m1) \<and>
     posted m1 0x1000 = [e] \<and> unat (wqe_length e) = 2"
proof -
  from wq_demo_send obtain m1 where m1: "rmc_hw_send 0x1000 7 0x8000 65 3 wq_demo = Inr (0, m1)"
    by blast
  from rmc_hw_send_cache_lines [OF wq_demo_simps(1) idle_wq_inv(2) _ m1] m1 show ?thesis by auto
qed

end
