(* ===== verification/Spin_Loop.thy ===== *)
theory Spin_Loop
  imports NF_Prelude
begin

text \<open>
  The contract shared by the loops that wait for the NIC: every turn of the loop lets the clock
  advance by one, and at the moment \<open>T\<close> at which the NIC releases what the loop waits for,
  the loop is no longer blocked. Such a loop returns, after at most as many turns as there are
  left until \<open>T\<close>.
\<close>

locale spin_loop =
  fixes T :: nat
    and clock :: "'s \<Rightarrow> nat"
    and inv :: "'s \<Rightarrow> bool"
    and blocked :: "'s \<Rightarrow> bool"
    and again :: "'s \<Rightarrow> 's"
    and result :: "'s \<Rightarrow> 'r"
    and loop :: "'s \<Rightarrow> 'r option"
  assumes unfold: "inv s \<Longrightarrow> loop s = (if blocked s then loop (again s) else Some (result s))"
    and again_inv: "inv s \<Longrightarrow> blocked s \<Longrightarrow> inv (again s)"
    and again_clock: "inv s \<Longrightarrow> blocked s \<Longrightarrow> clock (again s) = Suc (clock s)"
    and released: "inv s \<Longrightarrow> clock s = T \<Longrightarrow> \<not> blocked s"
begin

lemma returns:
  "inv s \<Longrightarrow> clock s \<le> T \<Longrightarrow>
   \<exists>k \<le> T - clock s. inv ((again ^^ k) s) \<and> loop s = Some (result ((again ^^ k) s))"
proof (induction "T - clock s" arbitrary: s)
  case 0
  then have "\<not> blocked s" by (intro released) simp_all
  with unfold [OF 0(2)] 0(2) show ?case by (intro exI [of _ 0]) simp
next
  case (Suc d)
  show ?case
  proof (cases "blocked s")
    case False
    with unfold [OF Suc.prems(1)] Suc.prems show ?thesis by (intro exI [of _ 0]) simp
  next
    case True
    note c = again_clock [OF Suc.prems(1) True]
    from Suc.hyps(2) c have "d = T - clock (again s)" "clock (again s) \<le> T" by linarith+
    from Suc.hyps(1) [OF this(1) again_inv [OF Suc.prems(1) True] this(2)]
    obtain k where "k \<le> T - clock (again s)" "inv ((again ^^ k) (again s))"
      "loop (again s) = Some (result ((again ^^ k) (again s)))" by blast
    with unfold [OF Suc.prems(1)] True c Suc.hyps(2) show ?thesis
      by (intro exI [of _ "Suc k"]) (simp add: funpow_swap1)
  qed
qed

end

end
