(* ===== verification/Nic_Cq.thy ===== *)
theory Nic_Cq
  imports Nic_Wq Spin_Loop
begin

text \<open>
  Correctness of the polling side of the NIC library: well-formedness of a completion queue,
  its refinement to a bounded first-in first-out queue whose producer is the NIC, and the
  behaviour of \<open>rmc_check_cq\<close>: what one poll consumes and returns, when it terminates, when
  it spins for ever, and what it leaves alone whatever the NIC does.
\<close>

section \<open>Well-formed completion queues\<close>

definition wf_cq :: "rmc_cq_t \<Rightarrow> bool" where
  "wf_cq c \<longleftrightarrow> length (cq_q c) = MAX_NUM_WQ \<and> unat (cq_tail c) < MAX_NUM_WQ"

interpretation cq_cursor: sense_ring MAX_NUM_WQ wf_cq "\<lambda>c. unat (cq_tail c)" cq_SR bump_cq
  by unfold_locales (auto simp: wf_cq_def bump_cq_def Let_def unat_head_Suc)

lemma bump_cq_q [simp]: "cq_q (bump_cq c) = cq_q c"
  by (simp add: bump_cq_def Let_def)

text \<open>The \<open>i\<close>-th slot from the tail on, and the sense its entry has when it is fresh.\<close>

definition cq_slot :: "rmc_cq_t \<Rightarrow> nat \<Rightarrow> cq_entry_t" where
  "cq_slot c i = cq_q c ! ((unat (cq_tail c) + i) mod MAX_NUM_WQ)"

definition cq_sense :: "rmc_cq_t \<Rightarrow> nat \<Rightarrow> bool" where
  "cq_sense c i = (cq_SR c \<noteq> (MAX_NUM_WQ \<le> unat (cq_tail c) + i))"

definition cq_take :: "rmc_cq_t \<Rightarrow> rmc_cq_t" where
  "cq_take c =
     bump_cq (c\<lparr>cq_q := (cq_q c)[unat (cq_tail c) := (cq_q c ! unat (cq_tail c))\<lparr>cqe_valid := False\<rparr>]\<rparr>)"

type_synonym cq_view = "nat \<times> rmc_cq_t"

fun cq_inv :: "cq_view \<Rightarrow> bool" where
  "cq_inv (n, c) \<longleftrightarrow>
     wf_cq c \<and> n \<le> MAX_NUM_WQ \<and>
     (\<forall>i<MAX_NUM_WQ. (cqe_SR (cq_slot c i) = cq_sense c i) = (i < n))"

fun cq_pending :: "cq_view \<Rightarrow> cq_entry_t list" where
  "cq_pending (n, c) = map (cq_slot c) [0..<n]"

lemma cq_invD:
  assumes "cq_inv (n, c)"
  shows "wf_cq c" "n \<le> MAX_NUM_WQ" "length (cq_q c) = MAX_NUM_WQ" "unat (cq_tail c) < MAX_NUM_WQ"
    and "i < MAX_NUM_WQ \<Longrightarrow> (cqe_SR (cq_slot c i) = cq_sense c i) = (i < n)"
  using assms by (auto simp: wf_cq_def)

lemma wf_cq_update [simp]: "wf_cq (c\<lparr>cq_q := (cq_q c)[i := e]\<rparr>) = wf_cq c"
  by (simp add: wf_cq_def)

lemma wf_cq_take: "wf_cq c \<Longrightarrow> wf_cq (cq_take c)"
  by (simp add: cq_take_def cq_cursor.adv_ok)

lemma cq_take_tail: "wf_cq c \<Longrightarrow> unat (cq_tail (cq_take c)) = Suc (unat (cq_tail c)) mod MAX_NUM_WQ"
  using cq_cursor.adv_pos_mod [of "c\<lparr>cq_q := (cq_q c)[unat (cq_tail c) := e]\<rparr>" for e]
  by (simp add: cq_take_def)

lemma cq_take_SR:
  "wf_cq c \<Longrightarrow> cq_SR (cq_take c) = (if Suc (unat (cq_tail c)) < MAX_NUM_WQ then cq_SR c else \<not> cq_SR c)"
  using cq_cursor.adv_sense [of "c\<lparr>cq_q := (cq_q c)[unat (cq_tail c) := e]\<rparr>" for e]
  by (simp add: cq_take_def)

lemma cq_slot_0: "wf_cq c \<Longrightarrow> cq_slot c 0 = cq_q c ! unat (cq_tail c)"
  by (simp add: cq_slot_def wf_cq_def)

lemma cq_slot_take:
  assumes "wf_cq c" "i < MAX_NUM_WQ"
  shows "cq_slot (cq_take c) i =
    (if Suc i = MAX_NUM_WQ then (cq_slot c 0)\<lparr>cqe_valid := False\<rparr> else cq_slot c (Suc i))"
proof -
  let ?t = "unat (cq_tail c)"
  from assms have t: "?t < MAX_NUM_WQ" and len: "length (cq_q c) = MAX_NUM_WQ"
    by (simp_all add: wf_cq_def)
  have ix: "(Suc ?t mod MAX_NUM_WQ + i) mod MAX_NUM_WQ = (?t + Suc i) mod MAX_NUM_WQ"
    by (rule ring_index_shift)
  show ?thesis
  proof (cases "Suc i = MAX_NUM_WQ")
    case True
    then have e: "(?t + Suc i) mod MAX_NUM_WQ = ?t" using t by simp
    show ?thesis using t len True unfolding cq_slot_def cq_take_tail [OF assms(1)] ix e
      by (simp add: cq_take_def)
  next
    case False
    then have "(?t + Suc i) mod MAX_NUM_WQ \<noteq> (?t + 0) mod MAX_NUM_WQ"
      using assms(2) by (subst ring_index_eq_iff) auto
    with t len False show ?thesis unfolding cq_slot_def cq_take_tail [OF assms(1)] ix
      by (simp add: cq_take_def)
  qed
qed

lemma cq_sense_take:
  assumes "wf_cq c" "i < MAX_NUM_WQ"
  shows "cq_sense (cq_take c) i =
    (if Suc i = MAX_NUM_WQ then \<not> cq_sense c 0 else cq_sense c (Suc i))"
proof (cases "Suc (unat (cq_tail c)) < MAX_NUM_WQ")
  case True
  with assms show ?thesis
    by (auto simp: cq_sense_def cq_take_tail cq_take_SR wf_cq_def)
next
  case False
  with assms have "Suc (unat (cq_tail c)) = MAX_NUM_WQ" by (simp add: wf_cq_def)
  with assms show ?thesis
    by (auto simp: cq_sense_def cq_take_tail cq_take_SR)
qed

lemma cq_inv_take:
  assumes "cq_inv (Suc n, c)"
  shows "cq_inv (n, cq_take c)" and "cq_pending (n, cq_take c) = tl (cq_pending (Suc n, c))"
proof -
  note d = cq_invD [OF assms]
  have "(cqe_SR (cq_slot (cq_take c) i) = cq_sense (cq_take c) i) = (i < n)" if "i < MAX_NUM_WQ" for i
  proof (cases "Suc i = MAX_NUM_WQ")
    case True
    with d(5) [of 0] d(2) show ?thesis
      by (auto simp: cq_slot_take [OF d(1) that] cq_sense_take [OF d(1) that])
  next
    case False
    with d(5) [of "Suc i"] that show ?thesis
      by (simp add: cq_slot_take [OF d(1) that] cq_sense_take [OF d(1) that])
  qed
  with d(1,2) show "cq_inv (n, cq_take c)" by (simp add: wf_cq_take)
  have "map (cq_slot (cq_take c)) [0..<n] = map (\<lambda>i. cq_slot c (Suc i)) [0..<n]"
    using d(1,2) by (auto simp: cq_slot_take)
  also have "\<dots> = map (cq_slot c) [1..<Suc n]"
    by (simp add: map_Suc_upt [symmetric] comp_def del: upt_Suc)
  finally show "cq_pending (n, cq_take c) = tl (cq_pending (Suc n, c))"
    by (simp add: map_tl [symmetric] upt_conv_Cons del: upt_Suc)
qed

text \<open>
  The queue's contents, without the sense and valid bits, and the insertion of a conforming
  NIC: it writes the next slot with the sense of its turn and stops when the ring is full.
\<close>

definition cqe_payload :: "cq_entry_t \<Rightarrow> u32 \<times> u32 \<times> u64" where
  "cqe_payload e = (cqe_success e, cqe_tid e, cqe_recv_buf_addr e)"

fun cq_items :: "cq_view \<Rightarrow> (u32 \<times> u32 \<times> u64) list" where
  "cq_items v = map cqe_payload (cq_pending v)"

fun cq_nic_post :: "u32 \<times> u32 \<times> u64 \<Rightarrow> cq_view \<Rightarrow> cq_view option" where
  "cq_nic_post (s, t, a) (n, c) =
     (if n < MAX_NUM_WQ then
        Some (Suc n, c\<lparr>cq_q := (cq_q c)[(unat (cq_tail c) + n) mod MAX_NUM_WQ :=
          \<lparr>cqe_SR = cq_sense c n, cqe_valid = True, cqe_success = s, cqe_tid = t,
           cqe_recv_buf_addr = a\<rparr>]\<rparr>)
      else None)"

fun cq_pop :: "cq_view \<Rightarrow> cq_view" where
  "cq_pop (n, c) = (n - 1, cq_take c)"

lemma cq_inv_nic_post:
  assumes inv: "cq_inv (n, c)" and n: "n < MAX_NUM_WQ" and post: "cq_nic_post x (n, c) = Some v"
  shows "cq_inv v" and "cq_items v = cq_items (n, c) @ [x]"
proof -
  obtain s t a where x: "x = (s, t, a)" by (cases x)
  let ?e = "\<lparr>cqe_SR = cq_sense c n, cqe_valid = True, cqe_success = s, cqe_tid = t,
    cqe_recv_buf_addr = a\<rparr>"
  let ?c = "c\<lparr>cq_q := (cq_q c)[(unat (cq_tail c) + n) mod MAX_NUM_WQ := ?e]\<rparr>"
  note d = cq_invD [OF inv]
  have v: "v = (Suc n, ?c)" using post n by (simp add: x)
  have sense: "cq_sense ?c i = cq_sense c i" for i by (simp add: cq_sense_def)
  have slot: "cq_slot ?c i = (if i = n then ?e else cq_slot c i)" if "i < MAX_NUM_WQ" for i
    using that n d(3) by (auto simp: cq_slot_def nth_list_update ring_index_eq_iff)
  show "cq_inv v"
    using d n unfolding v by (auto simp: slot sense less_Suc_eq)
  show "cq_items v = cq_items (n, c) @ [x]"
    using n unfolding v by (auto simp: slot x cqe_payload_def)
qed

interpretation cq_fifo: bounded_fifo MAX_NUM_WQ cq_inv "\<lambda>_. True" cq_items cq_nic_post cq_pop
proof unfold_locales
  fix q :: cq_view and x :: "u32 \<times> u32 \<times> u64"
  obtain n c where q: "q = (n, c)" by (cases q)
  obtain s t a where x: "x = (s, t, a)" by (cases x)
  show "cq_inv q \<Longrightarrow> length (cq_items q) \<le> MAX_NUM_WQ" by (simp add: q)
  show "\<exists>q1. cq_nic_post x q = Some q1 \<and> cq_inv q1 \<and> cq_items q1 = cq_items q @ [x]"
    if "cq_inv q" "length (cq_items q) < MAX_NUM_WQ"
  proof -
    from that(2) have n: "n < MAX_NUM_WQ" by (simp add: q)
    then obtain v where v: "cq_nic_post x (n, c) = Some v" by (simp add: x)
    with cq_inv_nic_post [OF that(1) [unfolded q] n v] show ?thesis unfolding q by blast
  qed
  show "cq_nic_post x q = None" if "cq_inv q" "length (cq_items q) = MAX_NUM_WQ"
    using that by (simp add: q x)
  show "cq_inv (cq_pop q) \<and> cq_items (cq_pop q) = tl (cq_items q)"
    if "cq_inv q" "cq_items q \<noteq> []"
  proof -
    from that(2) obtain k where n: "n = Suc k" by (cases n) (simp_all add: q)
    from cq_inv_take [of k c] that(1) show ?thesis by (simp add: q n map_tl del: cq_inv.simps cq_pending.simps)
  qed
qed

section \<open>What one poll does\<close>

text \<open>
  The specification of a poll over the list of pending completions: whether it returned from
  inside the loop, the returned structure, the number of completions consumed. Completions of
  the application's own requests are skipped, up to a failed SABRe, which ends the loop.
\<close>

definition other_completion :: "rmc_wq_t \<Rightarrow> cq_entry_t \<Rightarrow> successStruct \<Rightarrow> successStruct" where
  "other_completion w e ret =
     (if wqe_op (wq_q w ! unat (cqe_tid e)) = RMC_SABRE then
        (let r = ret\<lparr>ss_op := RMC_SABRE, ss_success := cqe_success e\<rparr>
         in if cqe_success e = 0 then r\<lparr>ss_tid := cqe_tid e\<rparr> else r)
      else ret\<lparr>ss_op := 0\<rparr>)"

fun poll_spec :: "rmc_wq_t \<Rightarrow> successStruct \<Rightarrow> cq_entry_t list \<Rightarrow> bool \<times> successStruct \<times> nat" where
  "poll_spec w ret [] = (False, ret, 0)"
| "poll_spec w ret (e # es) =
     (if ss_success ret = 0 then (False, ret, 0)
      else if cqe_success e = 0x7F then
        (True, ret\<lparr>ss_recv_buf_addr := cqe_recv_buf_addr e, ss_op := RMC_INCOMING_SEND, ss_tid := cqe_tid e\<rparr>, 1)
      else if cqe_success e = 1 then
        (True, ret\<lparr>ss_recv_buf_addr := cqe_recv_buf_addr e, ss_op := RMC_INCOMING_RESP, ss_tid := cqe_tid e\<rparr>, 1)
      else (case poll_spec w (other_completion w e ret) es of (b, r, k) \<Rightarrow> (b, r, Suc k)))"

definition tids_ok :: "cq_entry_t list \<Rightarrow> bool" where
  "tids_ok es \<longleftrightarrow> list_all (\<lambda>e. cqe_success e = 0x7F \<or> cqe_success e = 1 \<or> unat (cqe_tid e) < MAX_NUM_WQ) es"

text \<open>A NIC that leaves this queue pair alone while it is polled.\<close>

definition nic_quiet :: "nic \<Rightarrow> addr \<Rightarrow> addr \<Rightarrow> bool" where
  "nic_quiet nic wqp cqp \<longleftrightarrow>
     (\<forall>t m. wq_at (nic t m) wqp = wq_at m wqp \<and> cq_at (nic t m) cqp = cq_at m cqp)"

lemma nic_quiet_turn:
  assumes "nic_quiet nic wqp cqp"
  shows "wq_at (nic_turn nic m) wqp = wq_at m wqp" "cq_at (nic_turn nic m) cqp = cq_at m cqp"
  using assms by (simp_all add: nic_quiet_def nic_turn_def)

lemma register_buffer_simps [simp]:
  "wq_at (register_buffer v f m) = wq_at m" "cq_at (register_buffer v f m) = cq_at m"
  "flag_at (register_buffer v f m) = flag_at m" "mem (register_buffer v f m) = mem m"
  "now (register_buffer v f m) = now m" "posted (register_buffer v f m) = posted m"
  "delivered (register_buffer v f m) = delivered m"
  by (simp_all add: register_buffer_def)

lemma load_simps [simp]:
  "wq_at m p = Some w \<Longrightarrow> load_wq p m = Inr w"
  "cq_at m p = Some c \<Longrightarrow> load_cq p m = Inr c"
  by (simp_all add: load_wq_def load_cq_def)

lemma store_cq_simps [simp]:
  "wq_at (store_cq p c m) = wq_at m" "cq_at (store_cq p c m) = (cq_at m)(p \<mapsto> c)"
  "flag_at (store_cq p c m) = flag_at m" "mem (store_cq p c m) = mem m"
  "now (store_cq p c m) = now m" "posted (store_cq p c m) = posted m"
  "delivered (store_cq p c m) = delivered m"
  by (simp_all add: store_cq_def)

text \<open>One turn of the inner loop on a well-formed queue pair.\<close>

lemma check_cq_consume_eq:
  assumes wq: "wq_at m wqp = Some w" and cq: "cq_at m cqp = Some c" and wf: "wf_cq c" "wf_wq w"
    and raw: "raw = cq_q c ! unat (cq_tail c)"
  shows "check_cq_consume wqp cqp n raw (cq_tail c) ret m =
    (let m1 = store_cq cqp (cq_take c) (if 1 < n then register_buffer (Imm 1) 0x11 m else m)
     in if cqe_success raw = 0x7F then
          Inr (Returned (ret\<lparr>ss_recv_buf_addr := cqe_recv_buf_addr raw,
            ss_op := RMC_INCOMING_SEND, ss_tid := cqe_tid raw\<rparr>)
            (m1\<lparr>delivered := (delivered m1)(cqp := delivered m1 cqp @ [raw])\<rparr>))
        else if cqe_success raw = 1 then
          Inr (Returned (ret\<lparr>ss_recv_buf_addr := cqe_recv_buf_addr raw,
            ss_op := RMC_INCOMING_RESP, ss_tid := cqe_tid raw\<rparr>) m1)
        else if unat (cqe_tid raw) < MAX_NUM_WQ then
          Inr (Drained (other_completion w raw ret) (cq_tail (cq_take c)) m1)
        else Inl Out_of_bounds)"
  using assms
  by (auto simp: check_cq_consume_def cq_take_def other_completion_def wf_cq_def wf_wq_def
      Let_def arr_get_def)

lemma cq_pending_Suc:
  "cq_pending (Suc n, c) = cq_slot c 0 # tl (cq_pending (Suc n, c))"
  by (simp add: upt_conv_Cons del: upt_Suc)

lemma tids_ok_Cons [simp]:
  "tids_ok (e # es) \<longleftrightarrow>
     (cqe_success e = 0x7F \<or> cqe_success e = 1 \<or> unat (cqe_tid e) < MAX_NUM_WQ) \<and> tids_ok es"
  by (simp add: tids_ok_def)

lemma cq_inv_head:
  assumes "cq_inv (n, c)"
  shows "cqe_SR (cq_q c ! unat (cq_tail c)) = cq_SR c \<longleftrightarrow> n \<noteq> 0"
proof -
  note d = cq_invD [OF assms]
  have "0 < MAX_NUM_WQ" by (simp add: MAX_NUM_WQ_def)
  with d(5) [of 0] d(4) show ?thesis by (auto simp: cq_sense_def cq_slot_0 [OF d(1)])
qed

text \<open>A turn of the inner loop that neither hands over a message nor ends the poll.\<close>

lemma check_cq_inner_step:
  fixes c ret
  defines "raw \<equiv> cq_q c ! unat (cq_tail c)"
  assumes quiet: "nic_quiet nic wqp cqp" and wfw: "wf_wq w" and inv: "cq_inv (Suc n, c)"
    and m: "wq_at m wqp = Some w" "cq_at m cqp = Some c" and tid: "unat (cqe_tid raw) < MAX_NUM_WQ"
    and go: "\<not> (ss_success ret = 0 \<or> cqe_success raw = 0x7F \<or> cqe_success raw = 1)"
  obtains m1 where "wq_at m1 wqp = Some w" "cq_at m1 cqp = Some (cq_take c)"
    "check_cq_inner nic wqp cqp j raw (cq_tail c) ret m =
       check_cq_inner nic wqp cqp (Suc j) (cq_q (cq_take c) ! unat (cq_tail (cq_take c))) (cq_tail (cq_take c))
         (other_completion w raw ret) m1"
proof -
  note d = cq_invD [OF inv]
  have sr: "cqe_SR raw = cq_SR c" using cq_inv_head [OF inv] by (simp add: raw_def)
  let ?m = "store_cq cqp (cq_take c) (if 1 < Suc j then register_buffer (Imm 1) 0x11 m else m)"
  have m1: "wq_at (nic_turn nic ?m) wqp = Some w" "cq_at (nic_turn nic ?m) cqp = Some (cq_take c)"
    using m by (simp_all add: nic_quiet_turn [OF quiet])
  have get: "arr_get (cq_q (cq_take c)) (unat (cq_tail (cq_take c))) =
      Inr (cq_q (cq_take c) ! unat (cq_tail (cq_take c)))"
    using wf_cq_take [OF d(1)] by (simp add: wf_cq_def)
  note consume = check_cq_consume_eq [OF m d(1) wfw refl, of "Suc j" ret]
  show thesis
    by (rule that [OF m1]) (use go m sr tid get m1 in
      \<open>simp add: raw_def check_cq_inner.simps [of nic wqp cqp j] consume Let_def\<close>)
qed

lemma check_cq_inner_quiet:
  assumes quiet: "nic_quiet nic wqp cqp" and wfw: "wf_wq w"
  shows "cq_inv (n, c) \<Longrightarrow> tids_ok (cq_pending (n, c)) \<Longrightarrow>
    wq_at m wqp = Some w \<Longrightarrow> cq_at m cqp = Some c \<Longrightarrow>
    poll_spec w ret (cq_pending (n, c)) = (b, r, k) \<Longrightarrow>
    \<exists>m1. wq_at m1 wqp = Some w \<and> cq_at m1 cqp = Some ((cq_take ^^ k) c) \<and>
      check_cq_inner nic wqp cqp j (cq_q c ! unat (cq_tail c)) (cq_tail c) ret m =
        Some (Inr (if b then Returned r m1 else Drained r (cq_tail ((cq_take ^^ k) c)) m1))"
proof (induction n arbitrary: c m ret j b r k)
  case 0
  with cq_inv_head [OF 0(1)] show ?case by (auto simp: check_cq_inner.simps)
next
  case (Suc n)
  note d = cq_invD [OF Suc.prems(1)]
  let ?raw = "cq_q c ! unat (cq_tail c)"
  obtain es where pend: "cq_pending (Suc n, c) = ?raw # es"
    using cq_pending_Suc [of n c] by (simp add: cq_slot_0 [OF d(1)] del: cq_pending.simps)
  note spec = Suc.prems(5) [unfolded pend]
  show ?case
  proof (cases "ss_success ret = 0 \<or> cqe_success ?raw = 0x7F \<or> cqe_success ?raw = 1")
    case True
    with spec Suc.prems(3,4) cq_inv_head [OF Suc.prems(1)] show ?thesis
      by (auto simp: check_cq_inner.simps [of nic wqp cqp j ?raw "cq_tail c" ret m] Let_def
          check_cq_consume_eq [OF Suc.prems(3,4) d(1) wfw refl, of "Suc j" ret] split: if_splits)
  next
    case False
    let ?c = "cq_take c" and ?ret = "other_completion w ?raw ret"
    from False spec obtain k' where k: "k = Suc k'" and spec': "poll_spec w ?ret es = (b, r, k')"
      by (auto split: prod.splits)
    have tid: "unat (cqe_tid ?raw) < MAX_NUM_WQ" and tids: "tids_ok es"
      using Suc.prems(2) False unfolding pend by auto
    obtain m1 where m1: "wq_at m1 wqp = Some w" "cq_at m1 cqp = Some ?c"
      and eq: "check_cq_inner nic wqp cqp j ?raw (cq_tail c) ret m =
        check_cq_inner nic wqp cqp (Suc j) (cq_q ?c ! unat (cq_tail ?c)) (cq_tail ?c) ?ret m1"
      by (rule check_cq_inner_step [OF quiet wfw Suc.prems(1,3,4) tid False])
    note step = cq_inv_take [OF Suc.prems(1)]
    show ?thesis unfolding k eq
      using Suc.IH [OF step(1) _ m1, of ?ret b r k' "Suc j"] tids spec' unfolding step(2) pend
      by (auto simp: funpow_swap1)
  qed
qed

text \<open>The number of completions a poll consumes, and the queue it leaves.\<close>

lemma poll_spec_consumed: "poll_spec w ret es = (b, r, k) \<Longrightarrow> k \<le> length es"
  by (induction es arbitrary: ret b r k) (auto split: if_splits prod.splits)

lemma poll_spec_drained:
  "poll_spec w ret es = (False, r, k) \<Longrightarrow> ss_success r \<noteq> 0 \<Longrightarrow> k = length es"
  by (induction es arbitrary: ret r k) (auto split: if_splits prod.splits)

lemma cq_inv_takes: "cq_inv (n, c) \<Longrightarrow> k \<le> n \<Longrightarrow> cq_inv (n - k, (cq_take ^^ k) c)"
proof (induction k)
  case (Suc k)
  then have "cq_inv (Suc (n - Suc k), (cq_take ^^ k) c)" by (simp add: Suc_diff_Suc)
  from cq_inv_take(1) [OF this] show ?case by simp
qed simp

lemma cq_pending_takes:
  "cq_inv (n, c) \<Longrightarrow> k \<le> n \<Longrightarrow> cq_pending (n - k, (cq_take ^^ k) c) = drop k (cq_pending (n, c))"
proof (induction k)
  case (Suc k)
  then have "cq_inv (Suc (n - Suc k), (cq_take ^^ k) c)"
    using cq_inv_takes [of n c k] by (simp add: Suc_diff_Suc)
  from cq_inv_take(2) [OF this] Suc show ?case
    by (simp add: Suc_diff_Suc drop_Suc tl_drop del: cq_pending.simps)
qed simp

section \<open>Whole polls\<close>

lemma check_cq_fetch_eq:
  assumes "wq_at m wqp = Some w" "wf_wq w" "cq_at m cqp = Some c" "wf_cq c"
  shows "check_cq_fetch wqp cqp (cq_tail c) m = Inr (head_slot w, cq_q c ! unat (cq_tail c))"
  using assms by (simp add: check_cq_fetch_def wf_wq_def wf_cq_def)

lemma outer_start_quiet:
  assumes "nic_quiet nic wqp cqp"
  shows "wq_at (outer_start nic n m) wqp = wq_at m wqp" "cq_at (outer_start nic n m) cqp = cq_at m cqp"
  by (simp_all add: outer_start_def nic_quiet_turn [OF assms])

lemma check_cq_outer_quiet:
  assumes quiet: "nic_quiet nic wqp cqp" and w: "wq_at m wqp = Some w" "wf_wq w"
    and c: "cq_at m cqp = Some c" "cq_inv (n, c)" and tids: "tids_ok (cq_pending (n, c))"
    and spec: "poll_spec w ret (cq_pending (n, c)) = (b, r, k)"
  obtains m1 where "wq_at m1 wqp = Some w" "cq_at m1 cqp = Some ((cq_take ^^ k) c)"
    "check_cq_outer nic wqp cqp j (cq_tail c) ret m =
      (if b then Some (Inr (r, m1))
       else if wqe_valid (head_slot w) \<and> ss_success r \<noteq> 0
       then check_cq_outer nic wqp cqp (Suc j) (cq_tail ((cq_take ^^ k) c)) r m1
       else Some (Inr (r, register_buffer (Imm 1) 0x11 m1)))"
proof -
  let ?m = "outer_start nic j m"
  have m: "wq_at ?m wqp = Some w" "cq_at ?m cqp = Some c"
    using w c by (simp_all add: outer_start_quiet [OF quiet])
  note d = cq_invD [OF c(2)]
  from check_cq_inner_quiet [OF quiet w(2) c(2) tids m spec, of 0]
  obtain m1 where m1: "wq_at m1 wqp = Some w" "cq_at m1 cqp = Some ((cq_take ^^ k) c)"
    and eq: "check_cq_inner nic wqp cqp 0 (cq_q c ! unat (cq_tail c)) (cq_tail c) ret ?m =
        Some (Inr (if b then Returned r m1 else Drained r (cq_tail ((cq_take ^^ k) c)) m1))"
    by blast
  show thesis
    by (rule that [OF m1]) (simp add: check_cq_outer.simps [of nic wqp cqp j]
        check_cq_fetch_eq [OF m(1) w(2) m(2) d(1)] eq)
qed

lemma rmc_check_cq_unfold:
  assumes "wq_at m wqp = Some w" "cq_at m cqp = Some c"
  shows "rmc_check_cq nic junk wqp cqp m =
    check_cq_outer nic wqp cqp 0 (cq_tail c) (junk\<lparr>ss_success := 1, ss_op := RMC_INVAL\<rparr>) m"
  using assms by (simp add: rmc_check_cq_def)

text \<open>
  With the NIC silent, the WQ head slot busy and no completion pending, the outer loop spins
  for ever: any supposed result leads to a contradiction.
\<close>

lemma check_cq_outer_stuck:
  assumes "check_cq_outer nic wqp cqp j ctail ret m = Some y"
    and "nic_quiet nic wqp cqp" "wq_at m wqp = Some w" "wf_wq w" "wqe_valid (head_slot w)"
    and "cq_at m cqp = Some c" "cq_inv (0, c)" "ctail = cq_tail c" "ss_success ret \<noteq> 0"
  shows False
proof -
  let ?P = "\<lambda>nic wqp cqp j ctail ret m (y :: (fault + successStruct \<times> machine)).
    nic_quiet nic wqp cqp \<longrightarrow> wq_at m wqp = Some w \<longrightarrow> wf_wq w \<longrightarrow> wqe_valid (head_slot w) \<longrightarrow>
    cq_at m cqp = Some c \<longrightarrow> cq_inv (0, c) \<longrightarrow> ctail = cq_tail c \<longrightarrow> ss_success ret \<noteq> 0 \<longrightarrow> False"
  have "?P nic wqp cqp j ctail ret m y"
  proof (rule check_cq_outer.raw_induct [where P = ?P, OF _ assms(1)], intro impI)
    fix f nic wqp cqp j ctail and ret :: successStruct and m :: machine and y
    assume IH: "\<And>nic wqp cqp n ctail ret m y. f nic wqp cqp n ctail ret m = Some y \<Longrightarrow>
        ?P nic wqp cqp n ctail ret m y"
      and eq: "(case check_cq_fetch wqp cqp ctail (outer_start nic j m) of
        Inl e \<Rightarrow> Some (Inl e)
      | Inr (raw_wqe, raw_cqe) \<Rightarrow>
          (case check_cq_inner nic wqp cqp 0 raw_cqe ctail ret (outer_start nic j m) of
             None \<Rightarrow> None
           | Some (Inl e) \<Rightarrow> Some (Inl e)
           | Some (Inr (Returned ret1 m1)) \<Rightarrow> Some (Inr (ret1, m1))
           | Some (Inr (Drained ret1 ctail1 m1)) \<Rightarrow>
               if wqe_valid raw_wqe \<and> ss_success ret1 \<noteq> 0
               then f nic wqp cqp (Suc j) ctail1 ret1 m1
               else Some (Inr (ret1, register_buffer (Imm 1) 0x11 m1)))) = Some y"
      and h: "nic_quiet nic wqp cqp" "wq_at m wqp = Some w" "wf_wq w" "wqe_valid (head_slot w)"
        "cq_at m cqp = Some c" "cq_inv (0, c)" "ctail = cq_tail c" "ss_success ret \<noteq> 0"
    have m: "wq_at (outer_start nic j m) wqp = Some w" "cq_at (outer_start nic j m) cqp = Some c"
      using h by (simp_all add: outer_start_quiet [OF h(1)])
    have t: "tids_ok (cq_pending (0, c))" by (simp add: tids_ok_def)
    from check_cq_inner_quiet [OF h(1,3,6) t m, of ret False ret 0 0]
    obtain m1 where "wq_at m1 wqp = Some w" "cq_at m1 cqp = Some c"
      "check_cq_inner nic wqp cqp 0 (cq_q c ! unat (cq_tail c)) (cq_tail c) ret (outer_start nic j m)
        = Some (Inr (Drained ret (cq_tail c) m1))"
      by auto
    with eq h check_cq_fetch_eq [OF m(1) h(3) m(2) cq_invD(1) [OF h(6)]]
    have "f nic wqp cqp (Suc j) (cq_tail c) ret m1 = Some y" "wq_at m1 wqp = Some w" "cq_at m1 cqp = Some c"
      by simp_all
    with IH [of nic wqp cqp "Suc j" "cq_tail c" ret m1 y] h show False by blast
  qed
  with assms(2-) show False by blast
qed

section \<open>What a poll keeps, whatever the NIC does\<close>

text \<open>
  What a step of the surroundings, the NIC or another thread, leaves of a queue pair: the cursors
  of the application, the sizes of the rings, and the histories, which only the owner of the queue
  pair extends; no flag disappears.
\<close>

definition qp_frame :: "addr \<Rightarrow> addr \<Rightarrow> machine \<Rightarrow> machine \<Rightarrow> bool" where
  "qp_frame wqp cqp m m1 \<longleftrightarrow>
     posted m1 wqp = posted m wqp \<and> delivered m1 cqp = delivered m cqp \<and>
     (\<forall>w. wq_at m wqp = Some w \<longrightarrow> wf_wq w \<longrightarrow>
        (\<exists>w1. wq_at m1 wqp = Some w1 \<and> wf_wq w1 \<and> wq_head w1 = wq_head w \<and> wq_SR w1 = wq_SR w)) \<and>
     (\<forall>c. cq_at m cqp = Some c \<longrightarrow> wf_cq c \<longrightarrow>
        (\<exists>c1. cq_at m1 cqp = Some c1 \<and> wf_cq c1 \<and> cq_tail c1 = cq_tail c \<and> cq_SR c1 = cq_SR c)) \<and>
     (\<forall>p. flag_at m p \<noteq> None \<longrightarrow> flag_at m1 p \<noteq> None)"

definition nic_frame :: "nic \<Rightarrow> addr \<Rightarrow> addr \<Rightarrow> bool" where
  "nic_frame nic wqp cqp \<longleftrightarrow> (\<forall>t m. qp_frame wqp cqp m (nic t m))"

definition qp_ok :: "addr \<Rightarrow> addr \<Rightarrow> machine \<Rightarrow> bool" where
  "qp_ok wqp cqp m \<longleftrightarrow>
     (\<exists>w. wq_at m wqp = Some w \<and> wf_wq w) \<and> (\<exists>c. cq_at m cqp = Some c \<and> wf_cq c)"

definition keeps :: "addr \<Rightarrow> addr \<Rightarrow> machine \<Rightarrow> machine \<Rightarrow> bool" where
  "keeps wqp cqp m m1 \<longleftrightarrow>
     qp_ok wqp cqp m1 \<and> posted m1 wqp = posted m wqp \<and>
     map_option wq_head (wq_at m1 wqp) = map_option wq_head (wq_at m wqp) \<and>
     map_option wq_SR (wq_at m1 wqp) = map_option wq_SR (wq_at m wqp) \<and>
     (\<forall>p. flag_at m p \<noteq> None \<longrightarrow> flag_at m1 p \<noteq> None)"

text \<open>A poll hands over exactly the completion it reports as an incoming send.\<close>

definition hands_over :: "addr \<Rightarrow> machine \<Rightarrow> successStruct \<Rightarrow> machine \<Rightarrow> bool" where
  "hands_over cqp m ret m1 \<longleftrightarrow>
     (if ss_op ret = RMC_INCOMING_SEND then
        \<exists>e. delivered m1 cqp = delivered m cqp @ [e] \<and> cqe_success e = 0x7F \<and>
          ss_tid ret = cqe_tid e \<and> ss_recv_buf_addr ret = cqe_recv_buf_addr e
      else delivered m1 cqp = delivered m cqp)"

lemma keeps_trans: "keeps wqp cqp m m1 \<Longrightarrow> keeps wqp cqp m1 m2 \<Longrightarrow> keeps wqp cqp m m2"
  by (simp add: keeps_def)

lemma keeps_refl: "qp_ok wqp cqp m \<Longrightarrow> keeps wqp cqp m m"
  by (simp add: keeps_def)

lemma nic_frameD:
  assumes "nic_frame nic wqp cqp"
  shows "posted (nic t m) wqp = posted m wqp" and "delivered (nic t m) cqp = delivered m cqp"
    and "wq_at m wqp = Some w \<Longrightarrow> wf_wq w \<Longrightarrow>
      \<exists>w1. wq_at (nic t m) wqp = Some w1 \<and> wf_wq w1 \<and> wq_head w1 = wq_head w \<and> wq_SR w1 = wq_SR w"
    and "cq_at m cqp = Some c \<Longrightarrow> wf_cq c \<Longrightarrow>
      \<exists>c1. cq_at (nic t m) cqp = Some c1 \<and> wf_cq c1 \<and> cq_tail c1 = cq_tail c \<and> cq_SR c1 = cq_SR c"
    and "flag_at m p \<noteq> None \<Longrightarrow> flag_at (nic t m) p \<noteq> None"
  using assms unfolding nic_frame_def qp_frame_def by blast+

lemma nic_turn_keeps:
  assumes "nic_frame nic wqp cqp" "qp_ok wqp cqp m"
  shows "keeps wqp cqp m (nic_turn nic m)" "delivered (nic_turn nic m) cqp = delivered m cqp"
    "map_option cq_tail (cq_at (nic_turn nic m) cqp) = map_option cq_tail (cq_at m cqp)"
proof -
  note d = nic_frameD [OF assms(1), where t = "now m" and m = m]
  from assms(2) obtain w c where wc: "wq_at m wqp = Some w" "wf_wq w" "cq_at m cqp = Some c" "wf_cq c"
    by (auto simp: qp_ok_def)
  from d(3) [OF wc(1,2)] obtain w1 where w1: "wq_at (nic (now m) m) wqp = Some w1" "wf_wq w1"
    "wq_head w1 = wq_head w" "wq_SR w1 = wq_SR w" by blast
  from d(4) [OF wc(3,4)] obtain c1 where c1: "cq_at (nic (now m) m) cqp = Some c1" "wf_cq c1"
    "cq_tail c1 = cq_tail c" by blast
  show "keeps wqp cqp m (nic_turn nic m)" "delivered (nic_turn nic m) cqp = delivered m cqp"
    "map_option cq_tail (cq_at (nic_turn nic m) cqp) = map_option cq_tail (cq_at m cqp)"
    using w1 c1 wc d(1,2,5) by (simp_all add: keeps_def qp_ok_def nic_turn_def)
qed

lemma ring_update_keeps:
  assumes "qp_ok wqp cqp m" "wf_cq c"
  shows "keeps wqp cqp m (store_cq cqp c m)" "keeps wqp cqp m (register_buffer v f m)"
    "keeps wqp cqp m (m\<lparr>delivered := d\<rparr>)"
  using assms by (auto simp: keeps_def qp_ok_def)

lemma other_completion_op: "ss_op (other_completion w e ret) \<noteq> RMC_INCOMING_SEND"
  by (simp add: other_completion_def Let_def RMC_SABRE_def RMC_INCOMING_SEND_def
      SEND_OP_SHIFT_def INCOMING_SEND_SHIFT_def)

definition poll_pre :: "addr \<Rightarrow> addr \<Rightarrow> cq_entry_t \<Rightarrow> u32 \<Rightarrow> machine \<Rightarrow> bool" where
  "poll_pre wqp cqp raw ctail m \<longleftrightarrow>
     (\<exists>w c. wq_at m wqp = Some w \<and> wf_wq w \<and> cq_at m cqp = Some c \<and> wf_cq c \<and>
       ctail = cq_tail c \<and> raw = cq_q c ! unat ctail)"

definition drain_ok :: "addr \<Rightarrow> addr \<Rightarrow> machine \<Rightarrow> drain res \<Rightarrow> bool" where
  "drain_ok wqp cqp m y =
     (case y of
        Inl e \<Rightarrow> e = Out_of_bounds
      | Inr (Returned r m1) \<Rightarrow> keeps wqp cqp m m1 \<and> hands_over cqp m r m1
      | Inr (Drained r ct m1) \<Rightarrow>
          keeps wqp cqp m m1 \<and> delivered m1 cqp = delivered m cqp \<and> ss_op r \<noteq> RMC_INCOMING_SEND \<and>
          map_option cq_tail (cq_at m1 cqp) = Some ct)"

lemma RMC_ops_distinct [simp]:
  "RMC_INCOMING_RESP \<noteq> RMC_INCOMING_SEND" "RMC_INVAL \<noteq> RMC_INCOMING_SEND"
  by (simp_all add: RMC_INCOMING_SEND_def RMC_INCOMING_RESP_def RMC_INVAL_def SEND_OP_SHIFT_def
      INCOMING_SEND_SHIFT_def INCOMING_RESP_SHIFT_def)

lemma check_cq_consume_ok:
  assumes "poll_pre wqp cqp raw ctail m"
  shows "drain_ok wqp cqp m (check_cq_consume wqp cqp n raw ctail ret m)"
proof -
  from assms obtain w c where h: "wq_at m wqp = Some w" "cq_at m cqp = Some c" "wf_cq c" "wf_wq w"
    "ctail = cq_tail c" "raw = cq_q c ! unat (cq_tail c)"
    by (auto simp: poll_pre_def)
  let ?m = "store_cq cqp (cq_take c) (if 1 < n then register_buffer (Imm 1) 0x11 m else m)"
  have k: "keeps wqp cqp m ?m" "keeps wqp cqp m (?m\<lparr>delivered := d\<rparr>)" for d
    using h by (auto simp: keeps_def qp_ok_def wf_cq_take)
  have s: "drain_ok wqp cqp m (Inr (Returned (r\<lparr>ss_recv_buf_addr := a, ss_op := RMC_INCOMING_RESP,
      ss_tid := t\<rparr>) ?m))" for r a t
    using k by (simp add: drain_ok_def hands_over_def)
  show ?thesis
    unfolding h(5) check_cq_consume_eq [OF h(1-4,6)] Let_def
    using k s other_completion_op by (simp add: drain_ok_def hands_over_def)
qed

lemma drain_ok_trans:
  "keeps wqp cqp m m1 \<Longrightarrow> delivered m1 cqp = delivered m cqp \<Longrightarrow> drain_ok wqp cqp m1 y \<Longrightarrow> drain_ok wqp cqp m y"
  by (auto simp: drain_ok_def hands_over_def intro: keeps_trans split: sum.splits drain.splits)

lemma qp_ok_keeps: "keeps wqp cqp m m1 \<Longrightarrow> qp_ok wqp cqp m1"
  by (simp add: keeps_def)

lemma poll_pre_read:
  assumes "qp_ok wqp cqp m" "map_option cq_tail (cq_at m cqp) = Some ctail"
    and "bindR (load_cq cqp m) (\<lambda>c. arr_get (cq_q c) (unat ctail)) = Inr raw"
  shows "poll_pre wqp cqp raw ctail m"
  using assms by (auto simp: qp_ok_def poll_pre_def access_iffs)

lemma poll_read_ok:
  assumes "qp_ok wqp cqp m" "map_option cq_tail (cq_at m cqp) = Some ctail"
  shows "\<exists>raw. bindR (load_cq cqp m) (\<lambda>c. arr_get (cq_q c) (unat ctail)) = Inr raw"
  using assms by (auto simp: qp_ok_def wf_cq_def access_iffs)

text \<open>One unfolding of the inner loop over a continuation \<open>f\<close> that already behaves.\<close>

lemma check_cq_inner_body:
  assumes IH: "\<And>n raw ctail ret m y. f nic wqp cqp n raw ctail ret m = Some y \<Longrightarrow>
      poll_pre wqp cqp raw ctail m \<Longrightarrow> ss_op ret \<noteq> RMC_INCOMING_SEND \<Longrightarrow> drain_ok wqp cqp m y"
    and eq: "(case load_cq cqp m of
        Inl e \<Rightarrow> Some (Inl e)
      | Inr cq \<Rightarrow>
          if cqe_SR raw = cq_SR cq \<and> ss_success ret \<noteq> 0 then
            (case check_cq_consume wqp cqp (Suc n) raw ctail ret m of
               Inl e \<Rightarrow> Some (Inl e)
             | Inr (Returned ret1 m1) \<Rightarrow> Some (Inr (Returned ret1 m1))
             | Inr (Drained ret1 ctail1 m1) \<Rightarrow>
                 (case bindR (load_cq cqp (nic_turn nic m1)) (\<lambda>cq2. arr_get (cq_q cq2) (unat ctail1)) of
                    Inl e \<Rightarrow> Some (Inl e)
                  | Inr raw1 \<Rightarrow> f nic wqp cqp (Suc n) raw1 ctail1 ret1 (nic_turn nic m1)))
          else Some (Inr (Drained ret ctail m))) = Some y"
    and frame: "nic_frame nic wqp cqp" and pre: "poll_pre wqp cqp raw ctail m"
    and op: "ss_op ret \<noteq> RMC_INCOMING_SEND"
  shows "drain_ok wqp cqp m y"
proof -
  from pre obtain c where c: "cq_at m cqp = Some c" "ctail = cq_tail c" and qp: "qp_ok wqp cqp m"
    by (auto simp: poll_pre_def qp_ok_def)
  note step = check_cq_consume_ok [OF pre, of "Suc n" ret]
  consider (stop) "\<not> (cqe_SR raw = cq_SR c \<and> ss_success ret \<noteq> 0)"
    | (last) "cqe_SR raw = cq_SR c \<and> ss_success ret \<noteq> 0"
        "\<nexists>r ct m1. check_cq_consume wqp cqp (Suc n) raw ctail ret m = Inr (Drained r ct m1)"
    | (go_on) r ct m1 where "cqe_SR raw = cq_SR c \<and> ss_success ret \<noteq> 0"
        "check_cq_consume wqp cqp (Suc n) raw ctail ret m = Inr (Drained r ct m1)"
    by blast
  then show ?thesis
  proof cases
    case stop
    with eq c have "y = Inr (Drained ret ctail m)" by auto
    with qp op c show ?thesis by (simp add: drain_ok_def keeps_refl)
  next
    case last
    with eq c step show ?thesis by (auto split: sum.splits drain.splits)
  next
    case go_on
    with step have k: "keeps wqp cqp m m1" "delivered m1 cqp = delivered m cqp" "ss_op r \<noteq> RMC_INCOMING_SEND"
      "map_option cq_tail (cq_at m1 cqp) = Some ct"
      by (simp_all add: drain_ok_def)
    note t = nic_turn_keeps [OF frame qp_ok_keeps [OF k(1)]]
    have ct: "map_option cq_tail (cq_at (nic_turn nic m1) cqp) = Some ct"
      using t(3) k(4) by simp
    from poll_read_ok [OF qp_ok_keeps [OF t(1)] ct] obtain raw1
      where r1: "bindR (load_cq cqp (nic_turn nic m1)) (\<lambda>cq2. arr_get (cq_q cq2) (unat ct)) = Inr raw1"
      by blast
    with eq go_on c have "f nic wqp cqp (Suc n) raw1 ct r (nic_turn nic m1) = Some y" by simp
    from IH [OF this poll_pre_read [OF qp_ok_keeps [OF t(1)] ct r1] k(3)]
    show ?thesis using k t by (metis drain_ok_trans)
  qed
qed

lemma check_cq_inner_ok:
  assumes "check_cq_inner nic wqp cqp n raw ctail ret m = Some y"
    and "nic_frame nic wqp cqp" "poll_pre wqp cqp raw ctail m" "ss_op ret \<noteq> RMC_INCOMING_SEND"
  shows "drain_ok wqp cqp m y"
proof -
  let ?P = "\<lambda>nic wqp cqp (n::nat) raw ctail ret m y.
    nic_frame nic wqp cqp \<longrightarrow> poll_pre wqp cqp raw ctail m \<longrightarrow> ss_op ret \<noteq> RMC_INCOMING_SEND \<longrightarrow>
    drain_ok wqp cqp m y"
  have "?P nic wqp cqp n raw ctail ret m y"
    by (rule check_cq_inner.raw_induct [where P = ?P, OF _ assms(1)])
      (intro impI, erule check_cq_inner_body [rotated], assumption+, blast)
  with assms(2-) show ?thesis by blast
qed

definition poll_ok :: "addr \<Rightarrow> addr \<Rightarrow> machine \<Rightarrow> (successStruct \<times> machine) res \<Rightarrow> bool" where
  "poll_ok wqp cqp m y =
     (case y of
        Inl e \<Rightarrow> e = Out_of_bounds
      | Inr (r, m1) \<Rightarrow> keeps wqp cqp m m1 \<and> hands_over cqp m r m1)"

lemma poll_ok_trans:
  "keeps wqp cqp m m1 \<Longrightarrow> delivered m1 cqp = delivered m cqp \<Longrightarrow> poll_ok wqp cqp m1 y \<Longrightarrow> poll_ok wqp cqp m y"
  by (auto simp: poll_ok_def hands_over_def intro: keeps_trans split: sum.splits)

lemma outer_start_keeps:
  assumes "nic_frame nic wqp cqp" "qp_ok wqp cqp m"
  shows "keeps wqp cqp m (outer_start nic n m)" "delivered (outer_start nic n m) cqp = delivered m cqp"
    "map_option cq_tail (cq_at (outer_start nic n m) cqp) = map_option cq_tail (cq_at m cqp)"
proof -
  let ?m = "if 1 < Suc n then register_buffer (Imm 1) 0x12 m else m"
  have q: "qp_ok wqp cqp ?m" and k: "keeps wqp cqp m ?m"
    using assms(2) by (auto simp: qp_ok_def keeps_def)
  note t = nic_turn_keeps [OF assms(1) q]
  show "keeps wqp cqp m (outer_start nic n m)"
    unfolding outer_start_def by (rule keeps_trans [OF k t(1)])
  show "delivered (outer_start nic n m) cqp = delivered m cqp"
    "map_option cq_tail (cq_at (outer_start nic n m) cqp) = map_option cq_tail (cq_at m cqp)"
    unfolding outer_start_def t(2,3) by simp_all
qed

lemma check_cq_outer_body:
  assumes IH: "\<And>n ctail ret m y. f nic wqp cqp n ctail ret m = Some y \<Longrightarrow> qp_ok wqp cqp m \<Longrightarrow>
      map_option cq_tail (cq_at m cqp) = Some ctail \<Longrightarrow> ss_op ret \<noteq> RMC_INCOMING_SEND \<Longrightarrow>
      poll_ok wqp cqp m y"
    and eq: "(case check_cq_fetch wqp cqp ctail (outer_start nic n m) of
        Inl e \<Rightarrow> Some (Inl e)
      | Inr (raw_wqe, raw_cqe) \<Rightarrow>
          (case check_cq_inner nic wqp cqp 0 raw_cqe ctail ret (outer_start nic n m) of
             None \<Rightarrow> None
           | Some (Inl e) \<Rightarrow> Some (Inl e)
           | Some (Inr (Returned ret1 m1)) \<Rightarrow> Some (Inr (ret1, m1))
           | Some (Inr (Drained ret1 ctail1 m1)) \<Rightarrow>
               if wqe_valid raw_wqe \<and> ss_success ret1 \<noteq> 0
               then f nic wqp cqp (Suc n) ctail1 ret1 m1
               else Some (Inr (ret1, register_buffer (Imm 1) 0x11 m1)))) = Some y"
    and frame: "nic_frame nic wqp cqp" and qp: "qp_ok wqp cqp m"
    and ct: "map_option cq_tail (cq_at m cqp) = Some ctail" and op: "ss_op ret \<noteq> RMC_INCOMING_SEND"
  shows "poll_ok wqp cqp m y"
proof -
  let ?m = "outer_start nic n m"
  note s = outer_start_keeps [OF frame qp, of n]
  from qp_ok_keeps [OF s(1)] obtain w c where wc: "wq_at ?m wqp = Some w" "wf_wq w"
    "cq_at ?m cqp = Some c" "wf_cq c" by (auto simp: qp_ok_def)
  with s(3) ct have ctail: "ctail = cq_tail c" by simp
  let ?raw = "cq_q c ! unat (cq_tail c)"
  have pre: "poll_pre wqp cqp ?raw ctail ?m" using wc ctail by (auto simp: poll_pre_def)
  note fetch = check_cq_fetch_eq [OF wc]
  from eq fetch obtain d where d: "check_cq_inner nic wqp cqp 0 ?raw ctail ret ?m = Some d"
    by (auto simp: ctail split: option.splits)
  from check_cq_inner_ok [OF d frame pre op] have ok: "drain_ok wqp cqp ?m d" .
  have "poll_ok wqp cqp ?m y"
  proof (cases "\<exists>r ct m1. d = Inr (Drained r ct m1)")
    case False
    with eq d fetch ok show ?thesis
      by (auto simp: ctail drain_ok_def poll_ok_def split: sum.splits drain.splits)
  next
    case True
    then obtain r ct m1 where dd: "d = Inr (Drained r ct m1)" by blast
    with ok have k: "keeps wqp cqp ?m m1" "delivered m1 cqp = delivered ?m cqp"
      "ss_op r \<noteq> RMC_INCOMING_SEND" "map_option cq_tail (cq_at m1 cqp) = Some ct"
      by (simp_all add: drain_ok_def)
    note q1 = qp_ok_keeps [OF k(1)]
    have "poll_ok wqp cqp m1 y"
    proof (cases "wqe_valid (head_slot w) \<and> ss_success r \<noteq> 0")
      case True
      with eq d dd fetch have "f nic wqp cqp (Suc n) ct r m1 = Some y" by (simp add: ctail)
      from IH [OF this q1 k(4) k(3)] show ?thesis .
    next
      case False
      with eq d dd fetch have "y = Inr (r, register_buffer (Imm 1) 0x11 m1)" by (auto simp: ctail)
      with q1 k(3) show ?thesis
        by (auto simp: poll_ok_def hands_over_def keeps_def qp_ok_def)
    qed
    from poll_ok_trans [OF k(1,2) this] show ?thesis .
  qed
  from poll_ok_trans [OF s(1,2) this] show ?thesis .
qed

lemma check_cq_outer_ok:
  assumes "check_cq_outer nic wqp cqp n ctail ret m = Some y" and "nic_frame nic wqp cqp" "qp_ok wqp cqp m"
    and "map_option cq_tail (cq_at m cqp) = Some ctail" "ss_op ret \<noteq> RMC_INCOMING_SEND"
  shows "poll_ok wqp cqp m y"
proof -
  let ?P = "\<lambda>nic wqp cqp (n::nat) ctail ret m y.
    nic_frame nic wqp cqp \<longrightarrow> qp_ok wqp cqp m \<longrightarrow> map_option cq_tail (cq_at m cqp) = Some ctail \<longrightarrow>
    ss_op ret \<noteq> RMC_INCOMING_SEND \<longrightarrow> poll_ok wqp cqp m y"
  have "?P nic wqp cqp n ctail ret m y"
    by (rule check_cq_outer.raw_induct [where P = ?P, OF _ assms(1)])
      (intro impI, erule check_cq_outer_body [rotated], assumption+, blast)
  with assms(2-) show ?thesis by blast
qed

lemma rmc_check_cq_ok:
  assumes "rmc_check_cq nic junk wqp cqp m = Some y" "nic_frame nic wqp cqp" "qp_ok wqp cqp m"
  shows "poll_ok wqp cqp m y"
proof -
  from assms(3) obtain w c where "wq_at m wqp = Some w" "cq_at m cqp = Some c"
    by (auto simp: qp_ok_def)
  with assms show ?thesis
    by (auto simp: rmc_check_cq_unfold intro: check_cq_outer_ok)
qed

section \<open>A blocked poll returns once the NIC frees the slot\<close>

text \<open>
  At its turn number \<open>T\<close> the NIC has completed the entry in the WQ head slot: the slot's valid
  bit is clear, as the comment on \<open>wq_entry_t.valid\<close> says of a completed entry.
\<close>

definition nic_releases :: "nic \<Rightarrow> addr \<Rightarrow> nat \<Rightarrow> bool" where
  "nic_releases nic wqp T \<longleftrightarrow>
     (\<forall>m w. wq_at m wqp = Some w \<longrightarrow> wf_wq w \<longrightarrow>
        (\<exists>w1. wq_at (nic T m) wqp = Some w1 \<and> wf_wq w1 \<and> \<not> wqe_valid (head_slot w1)))"

text \<open>From its turn \<open>T0\<close> on the NIC has no more completions for this queue.\<close>

definition nic_silent :: "nic \<Rightarrow> addr \<Rightarrow> nat \<Rightarrow> bool" where
  "nic_silent nic cqp T0 \<longleftrightarrow> (\<forall>t m. T0 \<le> t \<longrightarrow> cq_at (nic t m) cqp = cq_at m cqp)"

text \<open>The entry under the cursor is not fresh.\<close>

definition cq_idle :: "rmc_cq_t \<Rightarrow> bool" where
  "cq_idle c \<longleftrightarrow> wf_cq c \<and> cqe_SR (cq_q c ! unat (cq_tail c)) \<noteq> cq_SR c"

lemma cq_inv_idle: "cq_inv (0, c) \<Longrightarrow> cq_idle c"
  using cq_invD(5) [of 0 c 0] cq_invD(1,4) [of 0 c]
  by (simp add: cq_idle_def cq_sense_def cq_slot_0)

fun spin_clock :: "nat \<times> u32 \<times> successStruct \<times> machine \<Rightarrow> nat" where
  "spin_clock (n, ct, ret, m) = now m"

fun spin_inv :: "nic \<Rightarrow> addr \<Rightarrow> addr \<Rightarrow> nat \<Rightarrow> nat \<Rightarrow> nat \<times> u32 \<times> successStruct \<times> machine \<Rightarrow> bool" where
  "spin_inv nic wqp cqp T0 T (n, ct, ret, m) \<longleftrightarrow>
     nic_frame nic wqp cqp \<and> nic_releases nic wqp T \<and> nic_silent nic cqp T0 \<and> T0 \<le> now m \<and> ss_success ret \<noteq> 0 \<and>
     qp_ok wqp cqp m \<and> (\<exists>c. cq_at m cqp = Some c \<and> cq_idle c \<and> ct = cq_tail c)"

fun spin_blocked :: "nic \<Rightarrow> addr \<Rightarrow> nat \<times> u32 \<times> successStruct \<times> machine \<Rightarrow> bool" where
  "spin_blocked nic wqp (n, ct, ret, m) =
     (case wq_at (outer_start nic n m) wqp of None \<Rightarrow> False | Some w \<Rightarrow> wqe_valid (head_slot w))"

fun spin_again ::
  "nic \<Rightarrow> nat \<times> u32 \<times> successStruct \<times> machine \<Rightarrow> nat \<times> u32 \<times> successStruct \<times> machine" where
  "spin_again nic (n, ct, ret, m) = (Suc n, ct, ret, outer_start nic n m)"

fun spin_result ::
  "nic \<Rightarrow> nat \<times> u32 \<times> successStruct \<times> machine \<Rightarrow> (successStruct \<times> machine) res" where
  "spin_result nic (n, ct, ret, m) = Inr (ret, register_buffer (Imm 1) 0x11 (outer_start nic n m))"

fun spin_check ::
  "nic \<Rightarrow> addr \<Rightarrow> addr \<Rightarrow> nat \<times> u32 \<times> successStruct \<times> machine \<Rightarrow> (successStruct \<times> machine) exec" where
  "spin_check nic wqp cqp (n, ct, ret, m) = check_cq_outer nic wqp cqp n ct ret m"

lemma outer_start_now [simp]: "now (outer_start nic n m) = Suc (now m)"
  by (simp add: outer_start_def nic_turn_def)

lemma outer_start_cq:
  "nic_silent nic cqp T0 \<Longrightarrow> T0 \<le> now m \<Longrightarrow> cq_at (outer_start nic n m) cqp = cq_at m cqp"
  by (simp add: outer_start_def nic_turn_def nic_silent_def)

lemma check_cq_outer_empty:
  assumes "wq_at (outer_start nic n m) wqp = Some w" "wf_wq w" "cq_at (outer_start nic n m) cqp = Some c"
    and "cq_idle c" "ss_success ret \<noteq> 0"
  shows "check_cq_outer nic wqp cqp n (cq_tail c) ret m =
    (if wqe_valid (head_slot w) then check_cq_outer nic wqp cqp (Suc n) (cq_tail c) ret (outer_start nic n m)
     else Some (Inr (ret, register_buffer (Imm 1) 0x11 (outer_start nic n m))))"
proof -
  from assms(4) have c: "wf_cq c" "cqe_SR (cq_q c ! unat (cq_tail c)) \<noteq> cq_SR c" by (simp_all add: cq_idle_def)
  then have "check_cq_inner nic wqp cqp 0 (cq_q c ! unat (cq_tail c)) (cq_tail c) ret (outer_start nic n m)
    = Some (Inr (Drained ret (cq_tail c) (outer_start nic n m)))"
    using assms(3) by (simp add: check_cq_inner.simps)
  with assms show ?thesis
    by (simp add: check_cq_outer.simps [of nic wqp cqp n] check_cq_fetch_eq [OF assms(1,2,3) c(1)])
qed

interpretation poll_spin: spin_loop T spin_clock "spin_inv nic wqp cqp T0 T" "spin_blocked nic wqp"
  "spin_again nic" "spin_result nic" "spin_check nic wqp cqp" for T T0 nic wqp cqp
proof unfold_locales
  fix s :: "nat \<times> u32 \<times> successStruct \<times> machine"
  obtain n ct ret m where s: "s = (n, ct, ret, m)" by (cases s)
  assume "spin_inv nic wqp cqp T0 T s"
  then have frame: "nic_frame nic wqp cqp" and rel: "nic_releases nic wqp T" and quiet: "nic_silent nic cqp T0" "T0 \<le> now m"
    and ok: "ss_success ret \<noteq> 0" "qp_ok wqp cqp m"
    and "\<exists>c. cq_at m cqp = Some c \<and> cq_idle c \<and> ct = cq_tail c"
    by (simp_all add: s)
  then obtain c where c: "cq_at (outer_start nic n m) cqp = Some c" "cq_idle c" "ct = cq_tail c"
    by (auto simp: outer_start_cq)
  from qp_ok_keeps [OF outer_start_keeps(1) [OF frame ok(2)], of n]
  obtain w where w: "wq_at (outer_start nic n m) wqp = Some w" "wf_wq w" by (auto simp: qp_ok_def)
  show "spin_check nic wqp cqp s =
      (if spin_blocked nic wqp s then spin_check nic wqp cqp (spin_again nic s) else Some (spin_result nic s))"
    using check_cq_outer_empty [OF w c(1,2) ok(1)] w c by (simp add: s)
  show "spin_inv nic wqp cqp T0 T (spin_again nic s)"
    using frame rel quiet ok c qp_ok_keeps [OF outer_start_keeps(1) [OF frame ok(2)]] by (simp add: s)
  show "spin_clock (spin_again nic s) = Suc (spin_clock s)" by (simp add: s)
  show "\<not> spin_blocked nic wqp s" if "spin_clock s = T"
  proof -
    let ?m = "if 1 < Suc n then register_buffer (Imm 1) 0x12 m else m"
    from ok(2) obtain w0 where "wq_at m wqp = Some w0" "wf_wq w0" by (auto simp: qp_ok_def)
    then have "wq_at ?m wqp = Some w0" "wf_wq w0" by simp_all
    with rel have "\<exists>w1. wq_at (nic T ?m) wqp = Some w1 \<and> wf_wq w1 \<and> \<not> wqe_valid (head_slot w1)"
      unfolding nic_releases_def by blast
    moreover have "wq_at (outer_start nic n m) wqp = wq_at (nic T ?m) wqp"
      using that by (simp add: s outer_start_def nic_turn_def)
    ultimately show ?thesis by (auto simp: s)
  qed
qed

section \<open>Sequences of arrivals and polls\<close>

text \<open>
  A schedule of arrivals (\<open>Some (tid, addr)\<close>: the NIC posts an incoming-send completion, unless
  the ring is full) and of polls by the code (\<open>None\<close>). The run yields the final machine, the
  accepted arrivals and what the polls returned as incoming sends.
\<close>

fun cq_arrive :: "addr \<Rightarrow> u32 \<times> u64 \<Rightarrow> nat \<times> machine \<Rightarrow> (nat \<times> machine) option" where
  "cq_arrive cqp (t, a) (n, m) =
     (case cq_at m cqp of
        None \<Rightarrow> None
      | Some c \<Rightarrow> (case cq_nic_post (0x7F, t, a) (n, c) of
                    None \<Rightarrow> None
                  | Some (n1, c1) \<Rightarrow> Some (n1, store_cq cqp c1 m)))"

fun cq_script ::
  "nic \<Rightarrow> successStruct \<Rightarrow> addr \<Rightarrow> addr \<Rightarrow> (u32 \<times> u64) option list \<Rightarrow> nat \<times> machine \<Rightarrow>
   ((nat \<times> machine) \<times> (u32 \<times> u64) list \<times> (u32 \<times> u64) list) exec" where
  "cq_script nic junk wqp cqp [] v = Some (Inr (v, [], []))"
| "cq_script nic junk wqp cqp (Some x # xs) v =
     (case cq_arrive cqp x v of
        None \<Rightarrow> cq_script nic junk wqp cqp xs v
      | Some v1 \<Rightarrow> bindE (cq_script nic junk wqp cqp xs v1)
                     (\<lambda>(r, ins, outs). Some (Inr (r, x # ins, outs))))"
| "cq_script nic junk wqp cqp (None # xs) (n, m) =
     bindE (rmc_check_cq nic junk wqp cqp m) (\<lambda>(ss, m1).
       let got = ss_op ss = RMC_INCOMING_SEND
       in bindE (cq_script nic junk wqp cqp xs (if got then n - 1 else n, m1))
            (\<lambda>(r, ins, outs).
               Some (Inr (r, ins, (if got then [(ss_tid ss, ss_recv_buf_addr ss)] else []) @ outs))))"

text \<open>The whole poll, from the specification over the pending completions.\<close>

lemma rmc_check_cq_spec:
  assumes "nic_quiet nic wqp cqp" and "wq_at m wqp = Some w" "wf_wq w"
    and "cq_at m cqp = Some c" "cq_inv (n, c)" and "tids_ok (cq_pending (n, c))"
    and "poll_spec w (junk\<lparr>ss_success := 1, ss_op := RMC_INVAL\<rparr>) (cq_pending (n, c)) = (b, r, k)"
    and "b \<or> \<not> wqe_valid (head_slot w) \<or> ss_success r = 0"
  shows "\<exists>m1. rmc_check_cq nic junk wqp cqp m = Some (Inr (r, m1)) \<and>
    wq_at m1 wqp = Some w \<and> cq_at m1 cqp = Some ((cq_take ^^ k) c) \<and>
    cq_inv (n - k, (cq_take ^^ k) c) \<and>
    cq_pending (n - k, (cq_take ^^ k) c) = drop k (cq_pending (n, c))"
proof -
  have k: "k \<le> n" using poll_spec_consumed [OF assms(7)] by simp
  from check_cq_outer_quiet [OF assms(1-7), of 0] obtain m1
    where m1: "wq_at m1 wqp = Some w" "cq_at m1 cqp = Some ((cq_take ^^ k) c)"
      and eq: "check_cq_outer nic wqp cqp 0 (cq_tail c) (junk\<lparr>ss_success := 1, ss_op := RMC_INVAL\<rparr>) m =
      (if b then Some (Inr (r, m1))
       else if wqe_valid (head_slot w) \<and> ss_success r \<noteq> 0
       then check_cq_outer nic wqp cqp (Suc 0) (cq_tail ((cq_take ^^ k) c)) r m1
       else Some (Inr (r, register_buffer (Imm 1) 0x11 m1)))"
    by blast
  note rest = cq_inv_takes [OF assms(5) k] cq_pending_takes [OF assms(5) k]
  let ?m = "if b then m1 else register_buffer (Imm 1) 0x11 m1"
  have "rmc_check_cq nic junk wqp cqp m = Some (Inr (r, ?m))"
    using eq assms(8) by (auto simp: rmc_check_cq_unfold [OF assms(2,4)])
  moreover have "wq_at ?m wqp = Some w" "cq_at ?m cqp = Some ((cq_take ^^ k) c)" using m1 by simp_all
  ultimately show ?thesis using rest by blast
qed

lemma cq_script_step_poll:
  assumes "nic_quiet nic wqp cqp" "wq_at m wqp = Some w" "wf_wq w" "\<not> wqe_valid (head_slot w)"
    and "cq_at m cqp = Some c" "cq_inv (n, c)" "list_all (\<lambda>e. cqe_success e = 0x7F) (cq_pending (n, c))"
  obtains ss m1 c1 where "rmc_check_cq nic junk wqp cqp m = Some (Inr (ss, m1))"
    "wq_at m1 wqp = Some w" "cq_at m1 cqp = Some c1"
    "if n = 0 then ss_op ss \<noteq> RMC_INCOMING_SEND \<and> c1 = c
     else ss_op ss = RMC_INCOMING_SEND \<and> cq_inv (n - 1, c1) \<and>
       cq_pending (n, c) = cq_slot c 0 # cq_pending (n - 1, c1) \<and>
       ss_tid ss = cqe_tid (cq_slot c 0) \<and> ss_recv_buf_addr ss = cqe_recv_buf_addr (cq_slot c 0)"
proof -
  let ?ret = "junk\<lparr>ss_success := 1, ss_op := RMC_INVAL\<rparr>"
  have tids: "tids_ok (cq_pending (n, c))"
    using assms(7) by (auto simp: tids_ok_def list_all_iff)
  show thesis
  proof (cases n)
    case 0
    then have "poll_spec w ?ret (cq_pending (n, c)) = (False, ?ret, 0)" by simp
    from rmc_check_cq_spec [OF assms(1,2,3,5,6) tids this] assms(4) 0 show thesis
      by (auto intro: that)
  next
    case (Suc k)
    let ?e = "cq_slot c 0"
    have p: "cq_pending (n, c) = ?e # tl (cq_pending (n, c))"
      unfolding Suc by (rule cq_pending_Suc)
    have s: "cqe_success ?e = 0x7F" using assms(7) by (subst (asm) p) simp
    let ?r = "?ret\<lparr>ss_recv_buf_addr := cqe_recv_buf_addr ?e, ss_op := RMC_INCOMING_SEND, ss_tid := cqe_tid ?e\<rparr>"
    have "poll_spec w ?ret (cq_pending (n, c)) = (True, ?r, 1)"
      using s by (subst p) simp
    from rmc_check_cq_spec [OF assms(1,2,3,5,6) tids this] obtain m1
      where m1: "rmc_check_cq nic junk wqp cqp m = Some (Inr (?r, m1))" "wq_at m1 wqp = Some w"
        "cq_at m1 cqp = Some (cq_take c)" and inv: "cq_inv (n - 1, cq_take c)"
        and rest: "cq_pending (n - 1, cq_take c) = tl (cq_pending (n, c))"
      by (auto simp: drop_Suc simp del: cq_inv.simps cq_pending.simps)
    from p rest have "cq_pending (n, c) = ?e # cq_pending (n - 1, cq_take c)" by metis
    with inv Suc show thesis
      by (intro that [OF m1]) (simp del: cq_inv.simps cq_pending.simps)
  qed
qed

text \<open>The incoming sends among the pending completions, when there is nothing else.\<close>

definition cq_sends :: "cq_view \<Rightarrow> (u32 \<times> u64) list" where
  "cq_sends v = map snd (cq_items v)"

definition only_sends :: "cq_view \<Rightarrow> bool" where
  "only_sends v \<longleftrightarrow> list_all (\<lambda>x. fst x = 0x7F) (cq_items v)"

lemma only_sends_pending: "only_sends v \<longleftrightarrow> list_all (\<lambda>e. cqe_success e = 0x7F) (cq_pending v)"
  by (simp add: only_sends_def list_all_iff cqe_payload_def)

lemma cq_sends_pending: "cq_sends v = map (\<lambda>e. (cqe_tid e, cqe_recv_buf_addr e)) (cq_pending v)"
  by (simp add: cq_sends_def cqe_payload_def)

lemma cq_script_accounted:
  assumes quiet: "nic_quiet nic wqp cqp" and wf: "wf_wq w" and free: "\<not> wqe_valid (head_slot w)"
  shows "wq_at m wqp = Some w \<Longrightarrow> cq_at m cqp = Some c \<Longrightarrow> cq_inv (n, c) \<Longrightarrow> only_sends (n, c) \<Longrightarrow>
    \<exists>n1 m1 c1 ins outs. cq_script nic junk wqp cqp xs (n, m) = Some (Inr ((n1, m1), ins, outs)) \<and>
      cq_at m1 cqp = Some c1 \<and> cq_inv (n1, c1) \<and> cq_sends (n, c) @ ins = outs @ cq_sends (n1, c1)"
proof (induction xs arbitrary: n m c)
  case Nil
  then show ?case by (auto simp del: cq_inv.simps)
next
  case (Cons x xs)
  show ?case
  proof (cases x)
    case None
    from cq_script_step_poll [OF quiet Cons.prems(1) wf free Cons.prems(2,3)
        Cons.prems(4) [unfolded only_sends_pending], of junk]
    obtain ss m1 c1 where p: "rmc_check_cq nic junk wqp cqp m = Some (Inr (ss, m1))"
      "wq_at m1 wqp = Some w" "cq_at m1 cqp = Some c1"
      and step: "if n = 0 then ss_op ss \<noteq> RMC_INCOMING_SEND \<and> c1 = c
       else ss_op ss = RMC_INCOMING_SEND \<and> cq_inv (n - 1, c1) \<and>
         cq_pending (n, c) = cq_slot c 0 # cq_pending (n - 1, c1) \<and>
         ss_tid ss = cqe_tid (cq_slot c 0) \<and> ss_recv_buf_addr ss = cqe_recv_buf_addr (cq_slot c 0)"
      by blast
    have inv: "cq_inv (n - 1, c1)" "only_sends (n - 1, c1)"
      using step Cons.prems(3,4) by (auto simp: only_sends_pending simp del: cq_inv.simps cq_pending.simps split: if_splits)
    from Cons.IH [OF p(2,3) inv] obtain n2 m2 c2 ins outs where
      "cq_script nic junk wqp cqp xs (n - 1, m1) = Some (Inr ((n2, m2), ins, outs))"
      "cq_at m2 cqp = Some c2" "cq_inv (n2, c2)" "cq_sends (n - 1, c1) @ ins = outs @ cq_sends (n2, c2)"
      by blast
    with p step None show ?thesis
      by (cases "n = 0") (auto simp: Let_def cq_sends_pending simp del: cq_inv.simps cq_pending.simps)
  next
    case (Some y)
    obtain t a where y: "y = (t, a)" by (cases y)
    show ?thesis
    proof (cases "n < MAX_NUM_WQ")
      case False
      with Cons.IH [OF Cons.prems] Cons.prems(2) Some y show ?thesis by simp
    next
      case True
      then obtain c1 where v: "cq_nic_post (0x7F, t, a) (n, c) = Some (Suc n, c1)" by simp
      note post = cq_inv_nic_post [OF Cons.prems(3) True v]
      have m1: "wq_at (store_cq cqp c1 m) wqp = Some w" "cq_at (store_cq cqp c1 m) cqp = Some c1"
        using Cons.prems(1) by simp_all
      have "only_sends (Suc n, c1)" and s: "cq_sends (Suc n, c1) = cq_sends (n, c) @ [y]"
        using Cons.prems(4) unfolding only_sends_def cq_sends_def post(2) y by simp_all
      from Cons.IH [OF m1 post(1) this(1)] v s Cons.prems(2) Some y show ?thesis
        by (auto simp del: cq_inv.simps cq_nic_post.simps)
    qed
  qed
qed

section \<open>Properties\<close>

definition blank_cqe :: cq_entry_t where
  "blank_cqe = \<lparr>cqe_SR = False, cqe_valid = False, cqe_success = 0, cqe_tid = 0, cqe_recv_buf_addr = 0\<rparr>"

text \<open>Idle rings: an empty completion queue, and one with a single incoming send.\<close>

definition idle_cq :: rmc_cq_t where
  "idle_cq = \<lparr>cq_q = replicate MAX_NUM_WQ blank_cqe, cq_tail = 0, cq_SR = True\<rparr>"

definition one_send_cq :: rmc_cq_t where
  "one_send_cq = idle_cq\<lparr>cq_q := (cq_q idle_cq)[0 := \<lparr>cqe_SR = True, cqe_valid = True, cqe_success = 0x7F,
     cqe_tid = 5, cqe_recv_buf_addr = 0xA000\<rparr>]\<rparr>"

definition cq_demo :: "rmc_wq_t \<Rightarrow> rmc_cq_t \<Rightarrow> machine" where
  "cq_demo w c = wq_demo\<lparr>wq_at := [0x1000 \<mapsto> w], cq_at := [0x2000 \<mapsto> c]\<rparr>"

definition no_nic :: nic where
  "no_nic t m = m"

definition blank_ss :: successStruct where
  "blank_ss = \<lparr>ss_success = 0, ss_op = 0, ss_tid = 0, ss_recv_buf_addr = 0\<rparr>"

lemma cq_demo_simps [simp]:
  "wq_at (cq_demo w c) 0x1000 = Some w" "cq_at (cq_demo w c) 0x2000 = Some c"
  by (simp_all add: cq_demo_def)

lemma idle_cq_inv [simp]: "cq_inv (0, idle_cq)" "wf_cq idle_cq"
  by (simp_all add: idle_cq_def blank_cqe_def wf_cq_def cq_slot_def cq_sense_def)

lemma one_send_cq_inv [simp]: "cq_inv (1, one_send_cq)"
proof -
  have slot: "cqe_SR (cq_slot one_send_cq i) = (i = 0)" if "i < MAX_NUM_WQ" for i
    using that by (simp add: one_send_cq_def idle_cq_def cq_slot_def blank_cqe_def nth_list_update)
  show ?thesis
    using slot by (auto simp: wf_cq_def cq_sense_def) (auto simp: one_send_cq_def idle_cq_def MAX_NUM_WQ_def)
qed

lemma one_send_cq_pending:
  "cq_pending (1, one_send_cq) = [\<lparr>cqe_SR = True, cqe_valid = True, cqe_success = 0x7F, cqe_tid = 5,
     cqe_recv_buf_addr = 0xA000\<rparr>]"
  by (simp add: cq_slot_def one_send_cq_def idle_cq_def)

lemma no_nic_quiet [simp]: "nic_quiet no_nic wqp cqp"
  by (simp add: nic_quiet_def no_nic_def)

lemma no_nic_frame [simp]: "nic_frame no_nic wqp cqp"
  by (simp add: nic_frame_def qp_frame_def no_nic_def)

lemma demo_poll:
  "\<exists>r m1. rmc_check_cq no_nic blank_ss 0x1000 0x2000 (cq_demo idle_wq one_send_cq) = Some (Inr (r, m1))"
proof -
  have t: "tids_ok (cq_pending (1, one_send_cq))" unfolding one_send_cq_pending by (simp add: tids_ok_def)
  obtain b r k where p: "poll_spec idle_wq (blank_ss\<lparr>ss_success := 1, ss_op := RMC_INVAL\<rparr>)
      (cq_pending (1, one_send_cq)) = (b, r, k)" by (metis prod.exhaust)
  from rmc_check_cq_spec [OF no_nic_quiet cq_demo_simps(1) idle_wq_inv(2) cq_demo_simps(2)
      one_send_cq_inv t p] show ?thesis by auto
qed

text \<open>
  C12. While the NIC leaves the queue pair alone, \<open>rmc_check_cq\<close> implements the poll over the
  list of pending completions: it returns, having consumed the completions of the application's
  own requests in front, and the first incoming send or response if there is one; what it did
  not consume stays pending in order, and the work queue is untouched. The one condition is
  that the poll has something to return: an incoming message, a failed SABRe, or a free
  work-queue head slot.
\<close>

theorem rmc_check_cq_refines_poll:
  assumes "nic_quiet nic wqp cqp" and "wq_at m wqp = Some w" and "wf_wq w"
    and "cq_at m cqp = Some c" and "cq_inv (n, c)" and "tids_ok (cq_pending (n, c))"
    and "poll_spec w (junk\<lparr>ss_success := 1, ss_op := RMC_INVAL\<rparr>) (cq_pending (n, c)) = (b, r, k)"
    and "b \<or> \<not> wqe_valid (head_slot w) \<or> ss_success r = 0"
  shows "\<exists>m1 c1. rmc_check_cq nic junk wqp cqp m = Some (Inr (r, m1)) \<and>
    wq_at m1 wqp = Some w \<and> cq_at m1 cqp = Some c1 \<and> cq_inv (n - k, c1) \<and>
    cq_pending (n - k, c1) = drop k (cq_pending (n, c))"
  using rmc_check_cq_spec [OF assms] by blast

theorem rmc_check_cq_refines_poll_witness:
  "\<exists>r m1 c1. rmc_check_cq no_nic blank_ss 0x1000 0x2000 (cq_demo idle_wq one_send_cq) = Some (Inr (r, m1)) \<and>
     ss_op r = RMC_INCOMING_SEND \<and> ss_tid r = 5 \<and> ss_recv_buf_addr r = 0xA000 \<and>
     cq_at m1 0x2000 = Some c1 \<and> cq_inv (0, c1)"
proof -
  let ?r = "blank_ss\<lparr>ss_success := 1, ss_op := RMC_INCOMING_SEND, ss_tid := 5, ss_recv_buf_addr := 0xA000\<rparr>"
  have p: "poll_spec idle_wq (blank_ss\<lparr>ss_success := 1, ss_op := RMC_INVAL\<rparr>) (cq_pending (1, one_send_cq))
      = (True, ?r, 1)"
    unfolding one_send_cq_pending by simp
  have t: "tids_ok (cq_pending (1, one_send_cq))" unfolding one_send_cq_pending by (simp add: tids_ok_def)
  from rmc_check_cq_refines_poll [OF no_nic_quiet cq_demo_simps(1) idle_wq_inv(2) cq_demo_simps(2)
      one_send_cq_inv t p disjI1 [OF TrueI]]
  obtain m1 c1 where
    "rmc_check_cq no_nic blank_ss 0x1000 0x2000 (cq_demo idle_wq one_send_cq) = Some (Inr (?r, m1))"
    "cq_at m1 0x2000 = Some c1" "cq_inv (0, c1)"
    by auto
  then show ?thesis by (intro exI [of _ ?r] exI [of _ m1] exI [of _ c1]) simp
qed

text \<open>
  C18. Along any schedule of message arrivals and polls, every poll returns without a fault and
  the messages are delivered first in, first out: what was pending, followed by the accepted
  arrivals, is what the polls returned, followed by what is still pending.
\<close>

theorem cq_schedule_fifo:
  assumes "nic_quiet nic wqp cqp" and "wf_wq w" and "\<not> wqe_valid (head_slot w)"
    and "wq_at m wqp = Some w" and "cq_at m cqp = Some c" and "cq_inv (n, c)" and "only_sends (n, c)"
  shows "\<exists>n1 m1 c1 ins outs. cq_script nic junk wqp cqp xs (n, m) = Some (Inr ((n1, m1), ins, outs)) \<and>
    cq_at m1 cqp = Some c1 \<and> cq_sends (n, c) @ ins = outs @ cq_sends (n1, c1) \<and>
    length (cq_sends (n1, c1)) \<le> MAX_NUM_WQ"
proof -
  from cq_script_accounted [OF assms, of junk xs] obtain n1 m1 c1 ins outs where
    "cq_script nic junk wqp cqp xs (n, m) = Some (Inr ((n1, m1), ins, outs))"
    "cq_at m1 cqp = Some c1" "cq_inv (n1, c1)" "cq_sends (n, c) @ ins = outs @ cq_sends (n1, c1)"
    by blast
  moreover from cq_fifo.items_bound [OF this(3)] have "length (cq_sends (n1, c1)) \<le> MAX_NUM_WQ"
    by (simp add: cq_sends_def)
  ultimately show ?thesis by blast
qed

theorem cq_schedule_fifo_witness:
  "\<exists>n1 m1 c1 ins outs.
     cq_script no_nic blank_ss 0x1000 0x2000 [Some (1, 0xA000), None, Some (2, 0xA040), None]
       (0, cq_demo idle_wq idle_cq) = Some (Inr ((n1, m1), ins, outs)) \<and>
     cq_at m1 0x2000 = Some c1 \<and> ins = outs @ cq_sends (n1, c1)"
proof -
  have o: "only_sends (0, idle_cq)" by (simp add: only_sends_def)
  have s: "cq_sends (0, idle_cq) = []" by (simp add: cq_sends_def)
  show ?thesis
    using cq_schedule_fifo [OF no_nic_quiet idle_wq_inv(2,3) cq_demo_simps(1,2) idle_cq_inv(1) o,
      of blank_ss "[Some (1, 0xA000), None, Some (2, 0xA040), None]"]
    unfolding s append_Nil by blast
qed

text \<open>
  Liveness: with nothing pending and the work-queue head slot still occupied the poll does
  not return by itself, but if the NIC completes the entry in that slot at its turn \<open>T\<close>, the
  poll returns \<open>RMC_INVAL\<close> no later than that turn, without having moved either ring.
\<close>

theorem rmc_check_cq_unblocks:
  assumes "nic_frame nic wqp cqp" and "nic_releases nic wqp T" and "nic_silent nic cqp (now m)"
    and "qp_ok wqp cqp m" and "cq_at m cqp = Some c" and "cq_inv (0, c)" and "now m \<le> T"
  shows "\<exists>r m1. rmc_check_cq nic junk wqp cqp m = Some (Inr (r, m1)) \<and> ss_op r = RMC_INVAL \<and>
    now m1 \<le> Suc T \<and> cq_at m1 cqp = Some c \<and> posted m1 wqp = posted m wqp \<and> delivered m1 cqp = delivered m cqp"
proof -
  let ?ret = "junk\<lparr>ss_success := 1, ss_op := RMC_INVAL\<rparr>"
  let ?s = "(0, cq_tail c, ?ret, m)"
  have inv: "spin_inv nic wqp cqp (now m) T ?s" using assms cq_inv_idle by simp
  from poll_spin.returns [OF inv] assms(7) obtain k where k: "k \<le> T - now m"
    "spin_inv nic wqp cqp (now m) T ((spin_again nic ^^ k) ?s)"
    "spin_check nic wqp cqp ?s = Some (spin_result nic ((spin_again nic ^^ k) ?s))"
    by auto
  have again: "\<exists>n1 m1. (spin_again nic ^^ j) ?s = (n1, cq_tail c, ?ret, m1) \<and> now m1 = now m + j \<and>
      qp_ok wqp cqp m1 \<and> cq_at m1 cqp = Some c \<and> posted m1 wqp = posted m wqp \<and> delivered m1 cqp = delivered m cqp" for j
  proof (induction j)
    case 0
    then show ?case using assms by simp
  next
    case (Suc j)
    then obtain n1 m1 where s: "(spin_again nic ^^ j) ?s = (n1, cq_tail c, ?ret, m1)" "now m1 = now m + j"
      "qp_ok wqp cqp m1" "cq_at m1 cqp = Some c" "posted m1 wqp = posted m wqp" "delivered m1 cqp = delivered m cqp"
      by blast
    note o = outer_start_keeps [OF assms(1) s(3), of n1]
    from s o outer_start_cq [OF assms(3)] qp_ok_keeps [OF o(1)] show ?case by (simp add: keeps_def)
  qed
  from again [of k] obtain n1 m1 where m1: "(spin_again nic ^^ k) ?s = (n1, cq_tail c, ?ret, m1)"
    "now m1 = now m + k" "qp_ok wqp cqp m1" "cq_at m1 cqp = Some c" "posted m1 wqp = posted m wqp"
    "delivered m1 cqp = delivered m cqp" by blast
  note o = outer_start_keeps [OF assms(1) m1(3), of n1]
  from assms(4) obtain w where w: "wq_at m wqp = Some w" by (auto simp: qp_ok_def)
  have "rmc_check_cq nic junk wqp cqp m =
      Some (Inr (?ret, register_buffer (Imm 1) 0x11 (outer_start nic n1 m1)))"
    using k(3) m1(1) by (simp add: rmc_check_cq_unfold [OF w assms(5)])
  moreover have "now (outer_start nic n1 m1) \<le> Suc T" using k(1) m1(2) assms(7) by simp
  ultimately show ?thesis
    using m1 o outer_start_cq [OF assms(3), of m1 n1] by (simp add: keeps_def)
qed

text \<open>A NIC that completes every entry of every queue at its turn number 3.\<close>

definition late_nic :: nic where
  "late_nic t m = (if t = 3 then m\<lparr>wq_at := (\<lambda>p. map_option (\<lambda>w. w\<lparr>wq_q := map (\<lambda>e. e\<lparr>wqe_valid := False\<rparr>) (wq_q w)\<rparr>) (wq_at m p))\<rparr> else m)"

definition busy_wq :: rmc_wq_t where
  "busy_wq = idle_wq\<lparr>wq_q := replicate MAX_NUM_WQ (blank_wqe\<lparr>wqe_valid := True\<rparr>)\<rparr>"

lemma busy_wq_simps [simp]: "wf_wq busy_wq" "wqe_valid (head_slot busy_wq)"
  by (simp_all add: busy_wq_def idle_wq_def wf_wq_def)

theorem rmc_check_cq_unblocks_witness:
  "wqe_valid (head_slot busy_wq) \<and>
   (\<exists>r m1. rmc_check_cq late_nic blank_ss 0x1000 0x2000 (cq_demo busy_wq idle_cq) = Some (Inr (r, m1)) \<and>
      ss_op r = RMC_INVAL \<and> now m1 \<le> 4)"
proof -
  have f: "nic_frame late_nic 0x1000 0x2000" by (auto simp: nic_frame_def qp_frame_def late_nic_def wf_wq_def)
  have r: "nic_releases late_nic 0x1000 3" by (auto simp: nic_releases_def late_nic_def wf_wq_def)
  have q: "nic_silent late_nic 0x2000 (now (cq_demo busy_wq idle_cq))" by (simp add: nic_silent_def late_nic_def)
  have o: "qp_ok 0x1000 0x2000 (cq_demo busy_wq idle_cq)" by (simp add: qp_ok_def)
  have n: "now (cq_demo busy_wq idle_cq) \<le> 3" by (simp add: cq_demo_def wq_demo_def)
  from rmc_check_cq_unblocks [OF f r q o cq_demo_simps(2) idle_cq_inv(1) n, of blank_ss]
  show ?thesis by auto
qed

text \<open>
  The complement: if the work-queue head slot is occupied, the NIC never touches the queue
  pair, and the pending completions hold neither a message nor a failed SABRe, the poll never
  returns.
\<close>

theorem rmc_check_cq_spins:
  assumes "nic_quiet nic wqp cqp" and "wq_at m wqp = Some w" and "wf_wq w"
    and "cq_at m cqp = Some c" and "cq_inv (n, c)" and "tids_ok (cq_pending (n, c))"
    and "poll_spec w (junk\<lparr>ss_success := 1, ss_op := RMC_INVAL\<rparr>) (cq_pending (n, c)) = (False, r, k)"
    and "wqe_valid (head_slot w)" and "ss_success r \<noteq> 0"
  shows "rmc_check_cq nic junk wqp cqp m = None"
proof -
  have k: "k = n" using poll_spec_drained [OF assms(7,9)] by simp
  from check_cq_outer_quiet [OF assms(1-7), of 0] obtain m1
    where m1: "wq_at m1 wqp = Some w" "cq_at m1 cqp = Some ((cq_take ^^ k) c)"
      and eq: "check_cq_outer nic wqp cqp 0 (cq_tail c) (junk\<lparr>ss_success := 1, ss_op := RMC_INVAL\<rparr>) m =
        check_cq_outer nic wqp cqp (Suc 0) (cq_tail ((cq_take ^^ k) c)) r m1"
    using assms(8,9) by auto
  have inv: "cq_inv (0, (cq_take ^^ k) c)" using cq_inv_takes [OF assms(5), of k] k by simp
  have "check_cq_outer nic wqp cqp (Suc 0) (cq_tail ((cq_take ^^ k) c)) r m1 \<noteq> Some y" for y
    using check_cq_outer_stuck [OF _ assms(1) m1(1) assms(3,8) m1(2) inv refl assms(9)] by blast
  then show ?thesis using eq by (metis option.exhaust rmc_check_cq_unfold [OF assms(2,4)])
qed

theorem rmc_check_cq_spins_witness:
  "rmc_check_cq no_nic blank_ss 0x1000 0x2000 (cq_demo busy_wq idle_cq) = None"
proof -
  let ?r = "blank_ss\<lparr>ss_success := 1, ss_op := RMC_INVAL\<rparr>"
  have p: "poll_spec busy_wq ?r (cq_pending (0, idle_cq)) = (False, ?r, 0)" by simp
  have t: "tids_ok (cq_pending (0, idle_cq))" by (simp add: tids_ok_def)
  show ?thesis
    by (rule rmc_check_cq_spins [OF no_nic_quiet cq_demo_simps(1) busy_wq_simps(1) cq_demo_simps(2)
          idle_cq_inv(1) t p busy_wq_simps(2)]) simp
qed

text \<open>
  Whatever a NIC does that leaves the application's cursors alone, a poll that returns keeps
  both rings well formed, posts nothing and does not move the work queue; it reports an incoming
  send exactly when it took one completion with that status off the queue, and reports that
  completion's sender and buffer. Its only possible fault is a completion that names a work-queue
  slot outside the ring.
\<close>

theorem rmc_check_cq_frame:
  assumes "nic_frame nic wqp cqp" and "qp_ok wqp cqp m" and "rmc_check_cq nic junk wqp cqp m = Some y"
  shows "case y of
      Inl e \<Rightarrow> e = Out_of_bounds
    | Inr (r, m1) \<Rightarrow> qp_ok wqp cqp m1 \<and> posted m1 wqp = posted m wqp \<and>
        map_option wq_head (wq_at m1 wqp) = map_option wq_head (wq_at m wqp) \<and>
        (if ss_op r = RMC_INCOMING_SEND then
           \<exists>e. delivered m1 cqp = delivered m cqp @ [e] \<and> cqe_success e = 0x7F \<and>
             ss_tid r = cqe_tid e \<and> ss_recv_buf_addr r = cqe_recv_buf_addr e
         else delivered m1 cqp = delivered m cqp)"
  using rmc_check_cq_ok [OF assms(3,1,2)]
  by (auto simp: poll_ok_def keeps_def hands_over_def split: sum.splits)

theorem rmc_check_cq_frame_witness:
  "\<exists>r m1. rmc_check_cq no_nic blank_ss 0x1000 0x2000 (cq_demo idle_wq one_send_cq) = Some (Inr (r, m1)) \<and>
     qp_ok 0x1000 0x2000 m1 \<and> posted m1 0x1000 = []"
proof -
  have o: "qp_ok 0x1000 0x2000 (cq_demo idle_wq one_send_cq)"
    using one_send_cq_inv by (simp add: qp_ok_def)
  from demo_poll obtain r m1 where r: "rmc_check_cq no_nic blank_ss 0x1000 0x2000
      (cq_demo idle_wq one_send_cq) = Some (Inr (r, m1))" by blast
  from rmc_check_cq_frame [OF no_nic_frame o r] r show ?thesis by (auto simp: cq_demo_def)
qed

end
