(* ===== verification/Nic_Poll.thy ===== *)
theory Nic_Poll
  imports Nic_Cq
begin

text \<open>
  More about polls of the completion queue: a locale for what every poll keeps of the machine,
  interpreted for the clock and for the flags, and the termination of a poll under a NIC that keeps
  completing posted entries and eventually has no more completions to deliver.
\<close>

section \<open>What a poll keeps of the machine\<close>

fun drain_machine :: "drain \<Rightarrow> machine" where
  "drain_machine (Returned r m) = m"
| "drain_machine (Drained r ct m) = m"

text \<open>
  An invariant of the machine that the NIC keeps, and that does not look at the polled completion
  queue, the history of its deliveries and the statistics that a poll logs, is kept by a whole poll.
\<close>

locale nic_stable =
  fixes nic :: nic and I :: "machine \<Rightarrow> bool"
  assumes turn: "I m \<Longrightarrow> I (nic_turn nic m)"

locale poll_stable = nic_stable nic I for nic :: nic and I :: "machine \<Rightarrow> bool" +
  fixes cqp :: addr
  assumes polled: "I m \<Longrightarrow> f = 0x11 \<or> f = 0x12 \<Longrightarrow> I (register_buffer (Imm 1) f m)"
    and stored: "I m \<Longrightarrow> I (store_cq cqp c m)"
    and handed: "I m \<Longrightarrow> I (m\<lparr>delivered := (delivered m)(cqp := d)\<rparr>)"
begin

lemma logged: "I m \<Longrightarrow> I (register_buffer (Imm 1) 0x11 m)" "I m \<Longrightarrow> I (register_buffer (Imm 1) 0x12 m)"
  by (simp_all add: polled)

lemma started: "I m \<Longrightarrow> I (outer_start nic n m)"
  by (simp add: outer_start_def turn logged)

lemma consumed:
  assumes "check_cq_consume wqp cqp n raw ct ret m = Inr d" "I m"
  shows "I (drain_machine d)"
  using assms handed [OF stored [OF assms(2)]] handed [OF stored [OF logged(1) [OF assms(2)]]]
  by (auto simp: check_cq_consume_def Let_def bindR_eq_Inr logged stored split: if_splits)

lemma inner:
  assumes "check_cq_inner nic wqp cqp n raw ct ret m = Some (Inr d)" "I m"
  shows "I (drain_machine d)"
proof -
  let ?P = "\<lambda>nic' (wqp::addr) (cqp'::addr) (n::nat) (raw::cq_entry_t) (ct::u32) (ret::successStruct) m (y::drain res). nic' = nic \<longrightarrow> cqp' = cqp \<longrightarrow> I m \<longrightarrow> (\<forall>d. y = Inr d \<longrightarrow> I (drain_machine d))"
  have "?P nic wqp cqp n raw ct ret m (Inr d)"
  proof (rule check_cq_inner.raw_induct [where P = ?P, OF _ assms(1)], intro impI allI)
    fix f nic' wqp cqp' n raw ct ret m y d
    assume IH: "\<And>nic' wqp cqp' n raw ct ret m y. f nic' wqp cqp' n raw ct ret m = Some y \<Longrightarrow>
        ?P nic' wqp cqp' n raw ct ret m y"
      and eq: "(case load_cq cqp' m of
        Inl e \<Rightarrow> Some (Inl e)
      | Inr cq \<Rightarrow>
          if cqe_SR raw = cq_SR cq \<and> ss_success ret \<noteq> 0 then
            (case check_cq_consume wqp cqp' (Suc n) raw ct ret m of
               Inl e \<Rightarrow> Some (Inl e)
             | Inr (Returned ret1 m1) \<Rightarrow> Some (Inr (Returned ret1 m1))
             | Inr (Drained ret1 ctail1 m1) \<Rightarrow>
                 (case bindR (load_cq cqp' (nic_turn nic' m1)) (\<lambda>cq2. arr_get (cq_q cq2) (unat ctail1)) of
                    Inl e \<Rightarrow> Some (Inl e)
                  | Inr raw1 \<Rightarrow> f nic' wqp cqp' (Suc n) raw1 ctail1 ret1 (nic_turn nic' m1)))
          else Some (Inr (Drained ret ct m))) = Some y"
      and n: "nic' = nic" "cqp' = cqp" and m: "I m" and y: "y = Inr d"
    have go: "I (drain_machine d)"
      if "f nic wqp cqp (Suc n) raw1 c1 r1 (nic_turn nic m1) = Some (Inr d)"
        "check_cq_consume wqp cqp (Suc n) raw ct ret m = Inr (Drained r1 c1 m1)" for r1 c1 m1 raw1
      using IH [OF that(1)] turn consumed [OF that(2) m] by simp
    show "I (drain_machine d)"
      using eq m unfolding n y by (auto split: sum.splits if_splits drain.splits dest: consumed go)
  qed
  with assms(2) show ?thesis by blast
qed

lemma outer:
  assumes "check_cq_outer nic wqp cqp n ct ret m = Some (Inr r)" "I (outer_start nic n m)"
  shows "I (snd r)"
proof -
  let ?P = "\<lambda>nic' (wqp::addr) (cqp'::addr) (n::nat) (ct::u32) (ret::successStruct) m (y::(successStruct \<times> machine) res).
    nic' = nic \<longrightarrow> cqp' = cqp \<longrightarrow> I (outer_start nic n m) \<longrightarrow>
    (\<forall>r. y = Inr r \<longrightarrow> I (snd r))"
  have "?P nic wqp cqp n ct ret m (Inr r)"
  proof (rule check_cq_outer.raw_induct [where P = ?P, OF _ assms(1)], intro impI allI)
    fix f nic' wqp cqp' n ct ret m y r
    assume IH: "\<And>nic' wqp cqp' n ct ret m y. f nic' wqp cqp' n ct ret m = Some y \<Longrightarrow> ?P nic' wqp cqp' n ct ret m y"
      and eq: "(case check_cq_fetch wqp cqp' ct (outer_start nic' n m) of
        Inl e \<Rightarrow> Some (Inl e)
      | Inr (raw_wqe, raw_cqe) \<Rightarrow>
          (case check_cq_inner nic' wqp cqp' 0 raw_cqe ct ret (outer_start nic' n m) of
             None \<Rightarrow> None
           | Some (Inl e) \<Rightarrow> Some (Inl e)
           | Some (Inr (Returned ret1 m1)) \<Rightarrow> Some (Inr (ret1, m1))
           | Some (Inr (Drained ret1 ctail1 m1)) \<Rightarrow>
               if wqe_valid raw_wqe \<and> ss_success ret1 \<noteq> 0
               then f nic' wqp cqp' (Suc n) ctail1 ret1 m1
               else Some (Inr (ret1, register_buffer (Imm 1) 0x11 m1)))) = Some y"
      and n: "nic' = nic" "cqp' = cqp" and m: "I (outer_start nic n m)" and y: "y = Inr r"
    have go: "I (snd r)" if "f nic wqp cqp (Suc n) c1 r1 m1 = Some (Inr r)" "I m1" for c1 r1 m1
      using IH [OF that(1)] started [OF that(2)] by simp
    have d: "check_cq_inner nic wqp cqp 0 raw ct ret (outer_start nic n m) = Some (Inr (Returned r1 m1)) \<Longrightarrow> I m1"
      "check_cq_inner nic wqp cqp 0 raw ct ret (outer_start nic n m) = Some (Inr (Drained r1 c1 m1)) \<Longrightarrow> I m1"
      for raw r1 c1 m1
      using inner [OF _ m] by fastforce+
    show "I (snd r)"
      using eq unfolding n y by (auto split: sum.splits if_splits drain.splits option.splits)
        (use d go logged in blast)+
  qed
  with assms(2) show ?thesis by blast
qed

lemma poll:
  assumes "rmc_check_cq nic junk wqp cqp m = Some (Inr (r, m1))" "I (outer_start nic 0 m)"
  shows "I m1"
  using assms outer by (fastforce simp: rmc_check_cq_def split: sum.splits)

end

subsection \<open>The clock\<close>

lemma nic_turn_now [simp]: "now (nic_turn nic m) = Suc (now m)"
  by (simp add: nic_turn_def)

interpretation nic_clock: nic_stable nic "\<lambda>m. t \<le> now m" for nic t
  by unfold_locales simp

interpretation poll_clock: poll_stable nic "\<lambda>m. t \<le> now m" cqp for nic cqp t
  by unfold_locales simp_all

lemma rmc_check_cq_clock:
  assumes "rmc_check_cq nic junk wqp cqp m = Some (Inr (r, m1))"
  shows "now m < now m1"
  using poll_clock.poll [OF assms, of "Suc (now m)"] by simp

subsection \<open>Flags\<close>

definition nic_flag_quiet :: "nic \<Rightarrow> addr \<Rightarrow> bool" where
  "nic_flag_quiet nic p \<longleftrightarrow> (\<forall>t m. flag_at (nic t m) p = flag_at m p)"

interpretation poll_flag: poll_stable nic "\<lambda>m. nic_flag_quiet nic p \<and> flag_at m p = v" cqp for nic cqp p v
  by unfold_locales (simp_all add: nic_flag_quiet_def nic_turn_def)

lemma rmc_check_cq_flag:
  assumes "rmc_check_cq nic junk wqp cqp m = Some (Inr (r, m1))" "nic_flag_quiet nic p"
  shows "flag_at m1 p = flag_at m p"
proof -
  have "flag_at (outer_start nic 0 m) p = flag_at m p"
    using poll_flag.started [of nic p m "flag_at m p" 0] assms(2) by simp
  with poll_flag.poll [OF assms(1), of p "flag_at m p"] assms(2) show ?thesis by simp
qed

text \<open>From its turn \<open>T\<close> on the simulator has set the flag.\<close>

definition nic_sets :: "nic \<Rightarrow> addr \<Rightarrow> nat \<Rightarrow> bool" where
  "nic_sets nic p T \<longleftrightarrow> (\<forall>t m. T \<le> t \<longrightarrow> flag_at (nic t m) p = Some True)"

interpretation poll_set: poll_stable nic "\<lambda>m. nic_sets nic p T \<and> T \<le> now m \<and> flag_at m p = Some True" cqp for nic cqp p T
  by unfold_locales (simp_all add: nic_sets_def nic_turn_def)

lemma rmc_check_cq_sets:
  assumes "rmc_check_cq nic junk wqp cqp m = Some (Inr (r, m1))" "nic_sets nic p T" "T \<le> now m"
  shows "flag_at m1 p = Some True"
proof -
  have "flag_at (outer_start nic 0 m) p = Some True"
    using assms(2,3) by (simp add: outer_start_def nic_turn_def nic_sets_def)
  with poll_set.poll [OF assms(1), of p T] assms(2,3) show ?thesis by simp
qed

subsection \<open>Other queue pairs\<close>

lemma qp_frame_refl [simp]: "qp_frame wqp cqp m m"
  by (simp add: qp_frame_def)

lemma qp_frame_trans:
  assumes "qp_frame wqp cqp m m1" "qp_frame wqp cqp m1 m2"
  shows "qp_frame wqp cqp m m2"
  unfolding qp_frame_def
proof (intro conjI allI impI)
  note a = assms [unfolded qp_frame_def]
  show "posted m2 wqp = posted m wqp" "delivered m2 cqp = delivered m cqp" using a by simp_all
  show "\<exists>w2. wq_at m2 wqp = Some w2 \<and> wf_wq w2 \<and> wq_head w2 = wq_head w \<and> wq_SR w2 = wq_SR w"
    if "wq_at m wqp = Some w" "wf_wq w" for w using a that by metis
  show "\<exists>c2. cq_at m2 cqp = Some c2 \<and> wf_cq c2 \<and> cq_tail c2 = cq_tail c \<and> cq_SR c2 = cq_SR c"
    if "cq_at m cqp = Some c" "wf_cq c" for c using a that by metis
  show "flag_at m2 p \<noteq> None" if "flag_at m p \<noteq> None" for p using a that by simp
qed

lemma qp_frame_eq:
  assumes "wq_at m1 wqp = wq_at m wqp" "cq_at m1 cqp = cq_at m cqp" "flag_at m1 = flag_at m"
    and "posted m1 wqp = posted m wqp" "delivered m1 cqp = delivered m cqp"
  shows "qp_frame wqp cqp m m1"
  using assms by (simp add: qp_frame_def)

lemma nic_turn_frame: "nic_frame nic wqp cqp \<Longrightarrow> qp_frame wqp cqp m (nic_turn nic m)"
  by (simp add: nic_frame_def nic_turn_def qp_frame_def)

section \<open>Termination of a poll\<close>

text \<open>
  The \<open>k\<close>-th entry from the tail on is not fresh. On any ring the cursor meets such an entry at
  the latest when it comes back to where it started, with the other sense.
\<close>

definition cq_stops :: "rmc_cq_t \<Rightarrow> nat \<Rightarrow> bool" where
  "cq_stops c k \<longleftrightarrow> k \<le> MAX_NUM_WQ \<and> cqe_SR (cq_slot c k) \<noteq> cq_sense c k"

lemma cq_stops_ex:
  assumes "wf_cq c"
  shows "\<exists>k. cq_stops c k"
proof -
  have t: "unat (cq_tail c) < MAX_NUM_WQ" using assms by (simp add: wf_cq_def)
  then have "cq_slot c MAX_NUM_WQ = cq_slot c 0" "cq_sense c MAX_NUM_WQ \<noteq> cq_sense c 0"
    by (simp_all add: cq_slot_def cq_sense_def)
  then have "cq_stops c 0 \<or> cq_stops c MAX_NUM_WQ" by (auto simp: cq_stops_def)
  then show ?thesis by blast
qed

lemma cq_stops_0: "wf_cq c \<Longrightarrow> cq_stops c 0 \<longleftrightarrow> cq_idle c"
  by (auto simp: cq_stops_def cq_idle_def cq_slot_0 cq_sense_def wf_cq_def)

lemma cq_stops_take:
  assumes "wf_cq c" "cq_stops c (Suc k)" "\<not> cq_stops c 0"
  shows "cq_stops (cq_take c) k"
proof -
  from assms(2) have k: "k < MAX_NUM_WQ" by (simp add: cq_stops_def)
  with assms show ?thesis
    by (auto simp: cq_stops_def cq_slot_take [OF assms(1) k] cq_sense_take [OF assms(1) k])
qed

text \<open>The inner loop on a queue the NIC leaves alone: it runs into an entry that is not fresh.\<close>

definition rests :: "addr \<Rightarrow> drain res \<Rightarrow> bool" where
  "rests cqp y \<longleftrightarrow> (\<forall>r ct m. y = Inr (Drained r ct m) \<longrightarrow>
     ss_success r = 0 \<or> (\<exists>c. cq_at m cqp = Some c \<and> cq_idle c))"

lemma check_cq_inner_silent:
  assumes "nic_frame nic wqp cqp" "nic_silent nic cqp T0"
  shows "wq_at m wqp = Some w \<Longrightarrow> wf_wq w \<Longrightarrow> cq_at m cqp = Some c \<Longrightarrow> wf_cq c \<Longrightarrow> cq_stops c k \<Longrightarrow> T0 \<le> now m \<Longrightarrow>
    \<exists>y. check_cq_inner nic wqp cqp n (cq_q c ! unat (cq_tail c)) (cq_tail c) ret m = Some y \<and> rests cqp y"
proof (induction k arbitrary: n c w ret m)
  case 0
  then have "cq_idle c" by (simp add: cq_stops_0)
  with 0 show ?case by (auto simp: check_cq_inner.simps rests_def cq_idle_def)
next
  case (Suc k)
  let ?raw = "cq_q c ! unat (cq_tail c)" and ?c = "cq_take c"
  let ?m = "store_cq cqp ?c (if 1 < Suc n then register_buffer (Imm 1) 0x11 m else m)"
  note unf = check_cq_inner.simps [of nic wqp cqp n ?raw "cq_tail c" ret m]
  note consume = check_cq_consume_eq [OF Suc.prems(1,3,4,2) refl, of "Suc n" ret]
  show ?case
  proof (cases "cq_stops c 0")
    case True
    then have "cq_idle c" using Suc.prems(4) by (simp add: cq_stops_0)
    with Suc.prems show ?thesis by (auto simp: unf rests_def cq_idle_def)
  next
    case False
    have wfc: "wf_cq ?c" by (rule wf_cq_take [OF Suc.prems(4)])
    have sr: "cqe_SR ?raw = cq_SR c" using False Suc.prems(4) by (simp add: cq_stops_0 cq_idle_def)
    have "wq_at ?m wqp = Some w" using Suc.prems(1) by simp
    from nic_frameD(3) [OF assms(1) this Suc.prems(2), of "now ?m"] obtain w1 where
      w1: "wq_at (nic_turn nic ?m) wqp = Some w1" "wf_wq w1" by (auto simp: nic_turn_def)
    have c1: "cq_at (nic_turn nic ?m) cqp = Some ?c"
      using assms(2) Suc.prems(6) by (simp add: nic_turn_def nic_silent_def)
    have now1: "T0 \<le> now (nic_turn nic ?m)" using Suc.prems(6) by simp
    note ih = Suc.IH [OF w1 c1 wfc cq_stops_take [OF Suc.prems(4,5) False] now1, of "Suc n"]
    have get: "arr_get (cq_q ?c) (unat (cq_tail ?c)) = Inr (cq_q ?c ! unat (cq_tail ?c))"
      using wfc by (simp add: wf_cq_def)
    show ?thesis
      using Suc.prems(3) sr c1 get ih [of "other_completion w ?raw ret"]
      by (auto simp: unf consume Let_def rests_def)
  qed
qed

text \<open>
  The inner loop under any NIC that goes silent: until the turn \<open>T0\<close> every completion takes a
  turn, and from then on the queue runs dry.
\<close>

lemma check_cq_inner_returns:
  assumes "nic_frame nic wqp cqp" "nic_silent nic cqp T0"
  shows "poll_pre wqp cqp raw ctail m \<Longrightarrow> ss_op ret \<noteq> RMC_INCOMING_SEND \<Longrightarrow> \<exists>y. check_cq_inner nic wqp cqp n raw ctail ret m = Some y"
proof (induction "T0 - now m" arbitrary: n raw ctail ret m rule: less_induct)
  case less
  from less.prems(1) obtain w c where h: "wq_at m wqp = Some w" "wf_wq w" "cq_at m cqp = Some c" "wf_cq c"
    "ctail = cq_tail c" "raw = cq_q c ! unat (cq_tail c)" by (auto simp: poll_pre_def)
  show ?case
  proof (cases "T0 \<le> now m")
    case True
    with check_cq_inner_silent [OF assms h(1-4)] cq_stops_ex [OF h(4)] show ?thesis unfolding h(5,6) by blast
  next
    case False
    note unf = check_cq_inner.simps [of nic wqp cqp n raw ctail ret m]
    have go: "\<exists>y. (case bindR (load_cq cqp (nic_turn nic m1)) (\<lambda>cq2. arr_get (cq_q cq2) (unat ct)) of
        Inl e \<Rightarrow> Some (Inl e) | Inr raw1 \<Rightarrow> check_cq_inner nic wqp cqp (Suc n) raw1 ct r (nic_turn nic m1)) = Some y"
      if d: "check_cq_consume wqp cqp (Suc n) raw ctail ret m = Inr (Drained r ct m1)" for r ct m1
    proof -
      from check_cq_consume_ok [OF less.prems(1), of "Suc n" ret] d have k: "keeps wqp cqp m m1"
        "ss_op r \<noteq> RMC_INCOMING_SEND" "map_option cq_tail (cq_at m1 cqp) = Some ct" by (simp_all add: drain_ok_def)
      note t = nic_turn_keeps [OF assms(1) qp_ok_keeps [OF k(1)]]
      have ct: "map_option cq_tail (cq_at (nic_turn nic m1) cqp) = Some ct" using t(3) k(3) by simp
      obtain raw1 where r1: "bindR (load_cq cqp (nic_turn nic m1)) (\<lambda>cq2. arr_get (cq_q cq2) (unat ct)) = Inr raw1"
        using poll_read_ok [OF qp_ok_keeps [OF t(1)] ct] by blast
      have "now m \<le> now m1" using poll_clock.consumed [OF d, of "now m"] by simp
      then have "T0 - now (nic_turn nic m1) < T0 - now m" using False by simp
      from less.hyps [OF this poll_pre_read [OF qp_ok_keeps [OF t(1)] ct r1] k(2)] r1 show ?thesis by simp
    qed
    then show ?thesis
      using h(3) by (auto simp: unf split: sum.splits drain.splits)
  qed
qed

text \<open>The NIC keeps completing the entry in the head slot, again and again.\<close>

definition nic_live :: "nic \<Rightarrow> addr \<Rightarrow> bool" where
  "nic_live nic wqp \<longleftrightarrow> (\<forall>t. \<exists>T \<ge> t. nic_releases nic wqp T)"

text \<open>The outer loop on an idle queue waits for the head slot only.\<close>

lemma check_cq_outer_idle:
  assumes "nic_frame nic wqp cqp" "nic_silent nic cqp T0" "T0 \<le> now m" "nic_releases nic wqp T" "now m \<le> T"
    and "qp_ok wqp cqp m" "cq_at m cqp = Some c" "cq_idle c" "ss_success ret \<noteq> 0"
  shows "\<exists>y. check_cq_outer nic wqp cqp n (cq_tail c) ret m = Some y"
proof -
  have "spin_inv nic wqp cqp T0 T (n, cq_tail c, ret, m)" using assms by simp
  from poll_spin.returns [OF this] assms(5) show ?thesis by auto
qed

lemma check_cq_outer_returns:
  assumes "nic_frame nic wqp cqp" "nic_silent nic cqp T0" "nic_live nic wqp"
  shows "qp_ok wqp cqp m \<Longrightarrow> map_option cq_tail (cq_at m cqp) = Some ctail \<Longrightarrow> ss_op ret \<noteq> RMC_INCOMING_SEND \<Longrightarrow>
    \<exists>y. check_cq_outer nic wqp cqp n ctail ret m = Some y"
proof (induction "T0 - now m" arbitrary: n ctail ret m rule: less_induct)
  case less
  let ?m = "outer_start nic n m"
  note s = outer_start_keeps [OF assms(1) less.prems(1), of n]
  from qp_ok_keeps [OF s(1)] obtain w c where wc: "wq_at ?m wqp = Some w" "wf_wq w" "cq_at ?m cqp = Some c" "wf_cq c"
    by (auto simp: qp_ok_def)
  with s(3) less.prems(2) have ctail: "ctail = cq_tail c" by simp
  let ?raw = "cq_q c ! unat (cq_tail c)"
  have pre: "poll_pre wqp cqp ?raw ctail ?m" using wc ctail by (auto simp: poll_pre_def)
  from check_cq_inner_returns [OF assms(1,2) pre less.prems(3), of 0] obtain d where
    d: "check_cq_inner nic wqp cqp 0 ?raw ctail ret ?m = Some d" by blast
  have go: "\<exists>y. check_cq_outer nic wqp cqp (Suc n) ct r m1 = Some y"
    if dd: "d = Inr (Drained r ct m1)" and r: "ss_success r \<noteq> 0" for r ct m1
  proof -
    from check_cq_inner_ok [OF d assms(1) pre less.prems(3)] dd have k: "keeps wqp cqp ?m m1"
      "ss_op r \<noteq> RMC_INCOMING_SEND" "map_option cq_tail (cq_at m1 cqp) = Some ct" by (simp_all add: drain_ok_def)
    have now1: "now ?m \<le> now m1" using poll_clock.inner [OF d [unfolded dd], of "now ?m"] by simp
    show ?thesis
    proof (cases "T0 \<le> now ?m")
      case False
      with now1 have "T0 - now m1 < T0 - now m" by simp
      from less.hyps [OF this qp_ok_keeps [OF k(1)] k(3,2)] show ?thesis .
    next
      case True
      obtain j where "cq_stops c j" using cq_stops_ex [OF wc(4)] by blast
      from check_cq_inner_silent [OF assms(1,2) wc this True, of 0 ret] d have "rests cqp d" unfolding ctail by auto
      with dd r obtain c1 where c1: "cq_at m1 cqp = Some c1" "cq_idle c1" by (auto simp: rests_def)
      obtain T where T: "now m1 \<le> T" "nic_releases nic wqp T" using assms(3) unfolding nic_live_def by blast
      have "T0 \<le> now m1" using True now1 by simp
      from check_cq_outer_idle [OF assms(1,2) this T(2,1) qp_ok_keeps [OF k(1)] c1 r] c1(1) k(3) show ?thesis by simp
    qed
  qed
  show ?case
    using go d
    by (auto simp: check_cq_outer.simps [of nic wqp cqp n "cq_tail c"] ctail check_cq_fetch_eq [OF wc]
        split: sum.splits drain.splits)
qed

lemma rmc_check_cq_returns:
  assumes "nic_frame nic wqp cqp" "nic_silent nic cqp T0" "nic_live nic wqp" "qp_ok wqp cqp m"
  shows "rmc_check_cq nic junk wqp cqp m \<noteq> None"
proof -
  from assms(4) obtain w c where wc: "wq_at m wqp = Some w" "cq_at m cqp = Some c" by (auto simp: qp_ok_def)
  from check_cq_outer_returns [OF assms, of "cq_tail c" "junk\<lparr>ss_success := 1, ss_op := RMC_INVAL\<rparr>" 0] wc
  show ?thesis by (auto simp: rmc_check_cq_unfold [OF wc])
qed

end
