(* ===== verification/Rpc_Messaging.thy ===== *)
theory Rpc_Messaging
  imports Rpc_Context Nic_Poll
begin

unbundle bit_operations_syntax

text \<open>
  The messaging calls of \<open>rpc_shm/rpc.cpp\<close> that the network function uses:
  \<open>sendToNode_zsim\<close>, \<open>receiveRPCRequest_zsim_l3fwd\<close> and \<open>do_Recv_zsim\<close>, over the queue
  pairs of an RPC context and the NIC library.
\<close>

section \<open>Operations\<close>

definition load_flag :: "addr \<Rightarrow> machine \<Rightarrow> bool res" where
  "load_flag p m = of_option Segv (flag_at m p)"

text \<open>\<open>ctx->qps.at(i)\<close>, followed by the access through the stored pointer.\<close>

definition load_qp :: "rpcNUMAContext \<Rightarrow> u32 \<Rightarrow> soNUMAQP_T res" where
  "load_qp ctx i = bindR (vec_at (rc_qps ctx) (unat i)) (of_option Segv)"

text \<open>
  The loop that repeats \<open>rmc_hw_send\<close> until it has found a free slot; the NIC gets a turn before
  each attempt.
\<close>

partial_function (option) send_retry ::
  "nic \<Rightarrow> addr \<Rightarrow> u32 \<Rightarrow> u64 \<Rightarrow> u64 \<Rightarrow> u64 \<Rightarrow> machine \<Rightarrow> machine exec" where
  "send_retry nic wqp ctx_id data_address len nid m =
     (case rmc_hw_send wqp ctx_id data_address len nid (nic_turn nic m) of
        Inl e \<Rightarrow> Some (Inl e)
      | Inr (send_ret, m1) \<Rightarrow>
          if send_ret \<noteq> 0 then send_retry nic wqp ctx_id data_address len nid m1
          else Some (Inr m1))"

text \<open>The address in the local buffer that the message number \<open>rpc_send_count\<close> goes to.\<close>

definition send_slot :: "ctx_entry_t \<Rightarrow> NIExposedBuffer \<Rightarrow> u32 \<Rightarrow> addr res" where
  "send_slot the_ctx messageBuffer rpc_send_count =
     (if ce_msgs_per_dest the_ctx = 0 then Inl Div_by_zero
      else
        let lbuf_offset = (ucast rpc_send_count mod ce_msgs_per_dest the_ctx) * ce_msg_entry_size the_ctx;
            lbuf_offset1 = lbuf_offset div 4
        in Inr (getUnderlyingAddress (ucast lbuf_offset1) messageBuffer))"

text \<open>Arguments the function ignores are left out.\<close>

definition sendToNode_zsim ::
  "nic \<Rightarrow> rpcNUMAContext \<Rightarrow> NIExposedBuffer \<Rightarrow> u64 \<Rightarrow> u32 \<Rightarrow> u32 \<Rightarrow> addr \<Rightarrow> bool \<Rightarrow> u32 \<Rightarrow> machine \<Rightarrow>
   machine exec" where
  "sendToNode_zsim nic rpcContext messageBuffer messageByteSize destNode sendQP raw_payload_data skipcpy
     rpc_send_count m =
     (let the_ctx = md_ctx_struct (rc_msg_domain rpcContext) in
      bindE (Some (send_slot the_ctx messageBuffer rpc_send_count)) (\<lambda>net_buffer_vaddr.
      bindE (Some (vec_at (rc_qps rpcContext) (unat sendQP))) (\<lambda>my_qp.
      let m1 = m\<lparr>mem := (if skipcpy then store32 (mem m) net_buffer_vaddr 0x1234
                         else c_memcpy (mem m) net_buffer_vaddr raw_payload_data (unat messageByteSize))\<rparr>
      in bindE (Some (of_option Segv my_qp)) (\<lambda>qp.
         send_retry nic (qp_wq qp) (ucast (ce_ctx_id the_ctx)) net_buffer_vaddr messageByteSize
           (ucast destNode) m1))))"

text \<open>
  The polling loop of a receive, with \<open>k\<close> polls left: \<open>None\<close> when they are used up, otherwise
  what the last poll returned.
\<close>

fun recv_poll ::
  "nat \<Rightarrow> nic \<Rightarrow> successStruct \<Rightarrow> soNUMAQP_T \<Rightarrow> addr \<Rightarrow> machine \<Rightarrow> (successStruct option \<times> machine) exec" where
  "recv_poll 0 nic junk qp client_done m = Some (Inr (None, m))"
| "recv_poll (Suc k) nic junk qp client_done m =
     bindE (rmc_check_cq nic junk (qp_wq qp) (qp_cq qp) m) (\<lambda>(ret, m1).
     if ss_op ret \<noteq> RMC_INCOMING_SEND then
       bindE (Some (load_flag client_done m1)) (\<lambda>fin.
       if \<not> fin then recv_poll k nic junk qp client_done m1 else Some (Inr (Some ret, m1)))
     else Some (Inr (Some ret, m1)))"

text \<open>
  The result is the RPC, the value stored through \<open>source_node_id\<close> if one is, and the machine;
  \<open>rjunk\<close> is the indeterminate content of the local RPC structure.
\<close>

definition receiveRPCRequest_zsim_l3fwd ::
  "nic \<Rightarrow> successStruct \<Rightarrow> RPCWithHeader \<Rightarrow> rpcNUMAContext \<Rightarrow> u32 \<Rightarrow> addr \<Rightarrow> machine \<Rightarrow>
   (RPCWithHeader \<times> u16 option \<times> machine) exec" where
  "receiveRPCRequest_zsim_l3fwd nic junk rjunk rpcContext serv_qp_id client_done m =
     bindE (Some (load_qp rpcContext serv_qp_id)) (\<lambda>my_qp.
     bindE (recv_poll 500 nic junk my_qp client_done m) (\<lambda>(retd, m1).
     case retd of
       None \<Rightarrow> Some (Inr (rjunk\<lparr>payload_len := 0xbeef\<rparr>, None, m1))
     | Some retd_from_rmc \<Rightarrow>
         bindE (Some (load_flag client_done m1)) (\<lambda>fin.
         if fin then Some (Inr (rjunk\<lparr>payload_len := 0xdead\<rparr>, None, m1))
         else Some (Inr (rjunk\<lparr>payload := ss_recv_buf_addr retd_from_rmc,
                               senders_nid := ucast (ss_tid retd_from_rmc)\<rparr>,
                         Some (ucast (ss_tid retd_from_rmc)), m1)))))"

definition do_Recv_zsim ::
  "nic \<Rightarrow> rpcNUMAContext \<Rightarrow> u32 \<Rightarrow> addr \<Rightarrow> u32 \<Rightarrow> machine \<Rightarrow> machine res" where
  "do_Recv_zsim nic rpcContext cl_tid rbuf_slot_ptr freeSizeBytes m =
     (if length (rc_qps rpcContext) < unat cl_tid then Inl Assertion
      else
        bindR (load_qp rpcContext cl_tid) (\<lambda>my_qp.
        bindR (rmc_hw_recv (qp_wq my_qp) (ucast (ce_ctx_id (md_ctx_struct (rc_msg_domain rpcContext))))
                 rbuf_slot_ptr (ucast freeSizeBytes) (nic_turn nic m)) (\<lambda>(_, m1). Inr m1)))"

section \<open>The slot of a message\<close>

text \<open>The dimensions a successfully created context has, with packets of \<open>S\<close> bytes.\<close>

definition ctx_sized :: "nat \<Rightarrow> rpcNUMAContext \<Rightarrow> bool" where
  "ctx_sized S ctx \<longleftrightarrow>
     ce_msgs_per_dest (md_ctx_struct (rc_msg_domain ctx)) = 256 \<and>
     unat (ce_msg_entry_size (md_ctx_struct (rc_msg_domain ctx))) = S \<and> 64 dvd S \<and> S < 8388608"

lemma send_slot_eq:
  assumes "ctx_sized S ctx"
  shows "send_slot (md_ctx_struct (rc_msg_domain ctx)) b count =
    Inr (underlyingBuffer b + of_nat ((unat count mod 256) * S))"
proof -
  let ?ce = "md_ctx_struct (rc_msg_domain ctx)" and ?k = "unat count mod 256"
  from assms have ce: "ce_msgs_per_dest ?ce = 256" "unat (ce_msg_entry_size ?ce) = S" "64 dvd S" "S < 8388608"
    by (simp_all add: ctx_sized_def)
  have k: "?k < 256" by simp
  have "?k * S \<le> 255 * S" using k by (intro mult_right_mono) simp_all
  with ce(4) have small: "?k * S < 2147483648" by linarith
  have c: "unat ((ucast count :: u64) mod 256) = ?k" by (simp add: unat_mod unat_ucast_u32)
  let ?off = "(ucast count mod 256) * ce_msg_entry_size ?ce"
  have off: "unat ?off = ?k * S"
    using small by (subst unat_mult_less) (simp_all add: c ce(2))
  have "4 dvd S" using dvd_trans [of 4 64 S] ce(3) by simp
  then have d4: "4 dvd ?k * S" by simp
  have q: "unat (?off div 4) = ?k * S div 4" by (simp add: unat_div off)
  have q32: "unat (ucast (?off div 4) :: u32) = ?k * S div 4"
    using small q by (simp add: unsigned_ucast_eq unsigned_take_bit_eq take_bit_nat_eq_self)
  have "(scast (ucast (?off div 4) :: u32) :: u64) = of_nat (?k * S div 4)"
    using scast_small_u32 [of "ucast (?off div 4)"] q32 small by simp
  moreover have "4 * of_nat (?k * S div 4) = (of_nat (?k * S) :: u64)"
    using d4 by (metis dvd_mult_div_cancel of_nat_mult of_nat_numeral)
  ultimately show ?thesis
    by (simp add: send_slot_def ce(1) getUnderlyingAddress_def Let_def del: of_nat_mult)
qed

section \<open>What the NIC and a post keep\<close>

lemma nic_turn_wq:
  assumes "nic_frame nic wqp cqp" "wq_at m wqp = Some w" "wf_wq w"
  shows "\<exists>w1. wq_at (nic_turn nic m) wqp = Some w1 \<and> wf_wq w1 \<and> wq_head w1 = wq_head w \<and> wq_SR w1 = wq_SR w"
  using nic_frameD(3) [OF assms] by (simp add: nic_turn_def)

lemma post_qp_ok:
  assumes "qp_ok wqp cqp m" "wq_at m wqp = Some w"
  shows "qp_ok wqp cqp (post_machine wqp e w m)"
  using assms by (auto simp: qp_ok_def wf_wq_post)

lemma send_entry_SR: "wq_SR w = wq_SR w1 \<Longrightarrow> send_entry w c a l d = send_entry w1 c a l d"
  by (simp add: send_entry_def)

lemma recv_entry_SR: "wq_SR w = wq_SR w1 \<Longrightarrow> recv_entry w c a l = recv_entry w1 c a l"
  by (simp add: recv_entry_def)

text \<open>
  A call that posts on a queue pair: the queue pair stays well formed, exactly the entries
  \<open>es\<close> were added to the history of posts, nothing was delivered, no flag disappeared.
\<close>

definition posts :: "addr \<Rightarrow> addr \<Rightarrow> wq_entry_t list \<Rightarrow> machine \<Rightarrow> machine \<Rightarrow> bool" where
  "posts wqp cqp es m m1 \<longleftrightarrow>
     qp_ok wqp cqp m1 \<and> posted m1 wqp = posted m wqp @ es \<and> delivered m1 cqp = delivered m cqp \<and>
     (\<forall>p. flag_at m p \<noteq> None \<longrightarrow> flag_at m1 p \<noteq> None)"

lemma posts_trans: "posts wqp cqp es m m1 \<Longrightarrow> posts wqp cqp fs m1 m2 \<Longrightarrow> posts wqp cqp (es @ fs) m m2"
  by (simp add: posts_def)

lemma posts_refl: "qp_ok wqp cqp m \<Longrightarrow> posts wqp cqp [] m m"
  by (simp add: posts_def)

lemma nic_turn_posts:
  assumes "nic_frame nic wqp cqp" "qp_ok wqp cqp m"
  shows "posts wqp cqp [] m (nic_turn nic m)"
  using nic_turn_keeps [OF assms] by (simp add: posts_def keeps_def)

lemma post_machine_posts:
  assumes "qp_ok wqp cqp m" "wq_at m wqp = Some w"
  shows "posts wqp cqp [e] m (post_machine wqp e w m)"
  using post_qp_ok [OF assms] by (simp add: posts_def)

section \<open>Sending\<close>

lemma send_retry_unfold:
  assumes "nic_frame nic wqp cqp" "wq_at m wqp = Some w" "wf_wq w"
  obtains w1 where "wq_at (nic_turn nic m) wqp = Some w1" "wf_wq w1" "wq_SR w1 = wq_SR w"
    "send_retry nic wqp cid a len nid m =
      (if wqe_valid (head_slot w1) then send_retry nic wqp cid a len nid (nic_turn nic m)
       else Some (Inr (post_machine wqp (send_entry w cid a len nid) w1 (nic_turn nic m))))"
proof -
  from nic_turn_wq [OF assms] obtain w1 where w1: "wq_at (nic_turn nic m) wqp = Some w1" "wf_wq w1"
    "wq_SR w1 = wq_SR w" by blast
  have "send_retry nic wqp cid a len nid m =
      (if wqe_valid (head_slot w1) then send_retry nic wqp cid a len nid (nic_turn nic m)
       else Some (Inr (post_machine wqp (send_entry w cid a len nid) w1 (nic_turn nic m))))"
    using send_entry_SR [OF w1(3)]
    by (simp add: send_retry.simps [of nic wqp cid a len nid m] rmc_hw_send_eq [OF w1(1,2)])
  with w1 show thesis by (rule that)
qed

lemma send_retry_ok:
  assumes "send_retry nic wqp cid a len nid m = Some y"
    and "nic_frame nic wqp cqp" and "qp_ok wqp cqp m" and "wq_at m wqp = Some w"
  shows "\<exists>m1. y = Inr m1 \<and> posts wqp cqp [send_entry w cid a len nid] m m1"
proof -
  let ?P = "\<lambda>nic wqp cid a len nid m y. nic_frame nic wqp cqp \<longrightarrow> (\<forall>w. qp_ok wqp cqp m \<longrightarrow> wq_at m wqp = Some w \<longrightarrow>
    (\<exists>m1. y = Inr m1 \<and> posts wqp cqp [send_entry w cid a len nid] m m1))"
  have "?P nic wqp cid a len nid m y"
  proof (rule send_retry.raw_induct [where P = ?P, OF _ assms(1)], intro impI allI)
    fix f nic wqp cid a len nid m y w
    assume IH: "\<And>nic wqp cid a len nid m y. f nic wqp cid a len nid m = Some y \<Longrightarrow> ?P nic wqp cid a len nid m y"
      and eq: "(case rmc_hw_send wqp cid a len nid (nic_turn nic m) of
          Inl e \<Rightarrow> Some (Inl e)
        | Inr (send_ret, m1) \<Rightarrow> if send_ret \<noteq> 0 then f nic wqp cid a len nid m1 else Some (Inr m1)) = Some y"
      and frame: "nic_frame nic wqp cqp" and qp: "qp_ok wqp cqp m" and w: "wq_at m wqp = Some w"
    have wf: "wf_wq w" using qp w by (auto simp: qp_ok_def)
    note t = nic_turn_posts [OF frame qp]
    then have qp1: "qp_ok wqp cqp (nic_turn nic m)" by (simp add: posts_def)
    from nic_turn_wq [OF frame w wf] obtain w1 where w1: "wq_at (nic_turn nic m) wqp = Some w1" "wf_wq w1"
      "wq_SR w1 = wq_SR w" by blast
    note se = send_entry_SR [OF w1(3), of cid a len nid]
    show "\<exists>m1. y = Inr m1 \<and> posts wqp cqp [send_entry w cid a len nid] m m1"
    proof (cases "wqe_valid (head_slot w1)")
      case True
      with eq have "f nic wqp cid a len nid (nic_turn nic m) = Some y"
        by (simp add: rmc_hw_send_eq [OF w1(1,2)])
      from IH [OF this] frame qp1 w1(1) obtain m1 where "y = Inr m1"
        "posts wqp cqp [send_entry w cid a len nid] (nic_turn nic m) m1" using se by auto
      with posts_trans [OF t] show ?thesis by fastforce
    next
      case False
      with eq have "y = Inr (post_machine wqp (send_entry w cid a len nid) w1 (nic_turn nic m))"
        using se by (simp add: rmc_hw_send_eq [OF w1(1,2)])
      with posts_trans [OF t post_machine_posts [OF qp1 w1(1)]] show ?thesis by fastforce
    qed
  qed
  with assms(2-) show ?thesis by blast
qed

text \<open>The retry loop waits for the NIC to free the head slot, and returns when it does.\<close>

definition send_blocked :: "nic \<Rightarrow> addr \<Rightarrow> machine \<Rightarrow> bool" where
  "send_blocked nic wqp m =
     (case wq_at (nic_turn nic m) wqp of None \<Rightarrow> False | Some w \<Rightarrow> wqe_valid (head_slot w))"

definition send_result :: "nic \<Rightarrow> addr \<Rightarrow> u32 \<Rightarrow> u64 \<Rightarrow> u64 \<Rightarrow> u64 \<Rightarrow> machine \<Rightarrow> machine res" where
  "send_result nic wqp cid a len nid m =
     (case wq_at (nic_turn nic m) wqp of
        None \<Rightarrow> Inl Segv
      | Some w \<Rightarrow> Inr (post_machine wqp (send_entry w cid a len nid) w (nic_turn nic m)))"

definition send_inv :: "nic \<Rightarrow> addr \<Rightarrow> addr \<Rightarrow> nat \<Rightarrow> machine \<Rightarrow> bool" where
  "send_inv nic wqp cqp T m \<longleftrightarrow>
     nic_frame nic wqp cqp \<and> nic_releases nic wqp T \<and> (\<exists>w. wq_at m wqp = Some w \<and> wf_wq w)"

interpretation send_spin: spin_loop T now "send_inv nic wqp cqp T" "send_blocked nic wqp" "nic_turn nic"
  "send_result nic wqp cid a len nid" "send_retry nic wqp cid a len nid" for T nic wqp cqp cid a len nid
proof unfold_locales
  fix m
  assume "send_inv nic wqp cqp T m"
  then obtain w where frame: "nic_frame nic wqp cqp" and rel: "nic_releases nic wqp T"
    and w: "wq_at m wqp = Some w" "wf_wq w" by (auto simp: send_inv_def)
  obtain w1 where w1: "wq_at (nic_turn nic m) wqp = Some w1" "wf_wq w1" "wq_SR w1 = wq_SR w"
    "send_retry nic wqp cid a len nid m =
      (if wqe_valid (head_slot w1) then send_retry nic wqp cid a len nid (nic_turn nic m)
       else Some (Inr (post_machine wqp (send_entry w cid a len nid) w1 (nic_turn nic m))))"
    by (rule send_retry_unfold [OF frame w])
  show "send_retry nic wqp cid a len nid m =
      (if send_blocked nic wqp m then send_retry nic wqp cid a len nid (nic_turn nic m)
       else Some (send_result nic wqp cid a len nid m))"
    using w1 send_entry_SR [OF w1(3)] by (simp add: send_blocked_def send_result_def)
  show "send_inv nic wqp cqp T (nic_turn nic m)" using frame rel w1(1,2) by (simp add: send_inv_def)
  show "now (nic_turn nic m) = Suc (now m)" by (simp add: nic_turn_def)
  show "\<not> send_blocked nic wqp m" if "now m = T"
  proof -
    from rel w have "\<exists>w1. wq_at (nic T m) wqp = Some w1 \<and> wf_wq w1 \<and> \<not> wqe_valid (head_slot w1)"
      unfolding nic_releases_def by blast
    with that show ?thesis by (auto simp: send_blocked_def nic_turn_def)
  qed
qed

lemma nic_turns_now: "now ((nic_turn nic ^^ k) m) = now m + k"
  by (induction k arbitrary: m) (simp_all add: nic_turn_def)

lemma send_retry_returns:
  assumes "nic_frame nic wqp cqp" "nic_releases nic wqp T" "wq_at m wqp = Some w" "wf_wq w" "now m \<le> T"
  obtains m1 where "send_retry nic wqp cid a len nid m = Some (Inr m1)" "now m1 \<le> Suc T"
proof -
  have inv: "send_inv nic wqp cqp T m" using assms by (auto simp: send_inv_def)
  from send_spin.returns [OF inv assms(5), of cid a len nid] obtain k where
    k: "k \<le> T - now m" "send_inv nic wqp cqp T ((nic_turn nic ^^ k) m)"
      "send_retry nic wqp cid a len nid m = Some (send_result nic wqp cid a len nid ((nic_turn nic ^^ k) m))"
    by blast
  let ?m = "(nic_turn nic ^^ k) m"
  from k(2) obtain w1 where "wq_at ?m wqp = Some w1" "wf_wq w1" by (auto simp: send_inv_def)
  from nic_turn_wq [OF assms(1) this] obtain w2 where "wq_at (nic_turn nic ?m) wqp = Some w2" by blast
  moreover have "now (nic_turn nic ?m) \<le> Suc T"
    using k(1) assms(5) nic_turns_now [where k = k] by (simp add: nic_turn_def [of nic ?m])
  ultimately show thesis
    using k(3) by (intro that [of "post_machine wqp (send_entry w2 cid a len nid) w2 (nic_turn nic ?m)"])
      (simp_all add: send_result_def)
qed

text \<open>The send as a store into its slot followed by the retry loop.\<close>

definition write_slot :: "NIExposedBuffer \<Rightarrow> nat \<Rightarrow> u64 \<Rightarrow> addr \<Rightarrow> bool \<Rightarrow> u32 \<Rightarrow> machine \<Rightarrow> machine" where
  "write_slot b S len data skipcpy count m =
     (let a = underlyingBuffer b + of_nat ((unat count mod 256) * S)
      in m\<lparr>mem := if skipcpy then store32 (mem m) a 0x1234 else c_memcpy (mem m) a data (unat len)\<rparr>)"

lemma sendToNode_zsim_eq:
  assumes "ctx_sized S ctx" "load_qp ctx sendQP = Inr qp"
  shows "sendToNode_zsim nic ctx b len dest sendQP data skipcpy count m =
    send_retry nic (qp_wq qp) (ucast (ce_ctx_id (md_ctx_struct (rc_msg_domain ctx))))
      (underlyingBuffer b + of_nat ((unat count mod 256) * S)) len (ucast dest)
      (write_slot b S len data skipcpy count m)"
  using assms(2)
  by (auto simp: sendToNode_zsim_def send_slot_eq [OF assms(1)] load_qp_def bindR_eq_Inr Let_def write_slot_def
      simp del: of_nat_mult)

lemma write_slot_simps [simp]:
  "wq_at (write_slot b S len data skip count m) = wq_at m"
  "qp_ok wqp cqp (write_slot b S len data skip count m) = qp_ok wqp cqp m"
  "now (write_slot b S len data skip count m) = now m"
  "posts wqp cqp es (write_slot b S len data skip count m) m1 = posts wqp cqp es m m1"
  by (simp_all add: write_slot_def Let_def qp_ok_def posts_def)

lemma sendToNode_zsim_ok:
  assumes "sendToNode_zsim nic ctx b len dest sendQP data skipcpy count m = Some y"
    and "ctx_sized S ctx" and "load_qp ctx sendQP = Inr qp"
    and "nic_frame nic (qp_wq qp) (qp_cq qp)" and "qp_ok (qp_wq qp) (qp_cq qp) m" and "wq_at m (qp_wq qp) = Some w"
  shows "\<exists>m1. y = Inr m1 \<and> posts (qp_wq qp) (qp_cq qp)
    [send_entry w (ucast (ce_ctx_id (md_ctx_struct (rc_msg_domain ctx))))
       (underlyingBuffer b + of_nat ((unat count mod 256) * S)) len (ucast dest)] m m1"
proof -
  note eq = sendToNode_zsim_eq [OF assms(2,3), of nic b len dest data skipcpy count m]
  from send_retry_ok [OF assms(1) [unfolded eq] assms(4), of w] assms(5,6)
  show ?thesis by simp
qed

section \<open>Posting receives\<close>

lemma do_Recv_zsim_ok:
  assumes "load_qp ctx cl_tid = Inr qp" and "nic_frame nic (qp_wq qp) (qp_cq qp)" and "qp_ok (qp_wq qp) (qp_cq qp) m"
    and "wq_at m (qp_wq qp) = Some w"
  shows "\<exists>m1 es. do_Recv_zsim nic ctx cl_tid buf sz m = Inr m1 \<and> posts (qp_wq qp) (qp_cq qp) es m m1 \<and>
    (es = [] \<or> es = [recv_entry w (ucast (ce_ctx_id (md_ctx_struct (rc_msg_domain ctx)))) buf (ucast sz)])"
proof -
  let ?wqp = "qp_wq qp" and ?cqp = "qp_cq qp" and ?m = "nic_turn nic m"
  let ?cid = "ucast (ce_ctx_id (md_ctx_struct (rc_msg_domain ctx))) :: u32"
  have wf: "wf_wq w" using assms(3,4) by (auto simp: qp_ok_def)
  note t = nic_turn_posts [OF assms(2,3)]
  then have qp1: "qp_ok ?wqp ?cqp ?m" by (simp add: posts_def)
  from nic_turn_wq [OF assms(2,4) wf] obtain w1 where w1: "wq_at ?m ?wqp = Some w1" "wf_wq w1"
    "wq_SR w1 = wq_SR w" by blast
  have len: "\<not> length (rc_qps ctx) < unat cl_tid"
    using assms(1) by (auto simp: load_qp_def bindR_eq_Inr vec_at_Inr_iff)
  have eq: "do_Recv_zsim nic ctx cl_tid buf sz m = (if wqe_valid (head_slot w1) then Inr ?m
      else Inr (post_machine ?wqp (recv_entry w ?cid buf (ucast sz)) w1 ?m))"
    using len assms(1) recv_entry_SR [OF w1(3)] by (simp add: do_Recv_zsim_def rmc_hw_recv_eq [OF w1(1,2)])
  show ?thesis
  proof (cases "wqe_valid (head_slot w1)")
    case True
    with eq t show ?thesis by auto
  next
    case False
    with eq posts_trans [OF t post_machine_posts [OF qp1 w1(1)]] show ?thesis by fastforce
  qed
qed

section \<open>Receiving\<close>

text \<open>What a receive keeps: the polling loop, whatever the NIC does to the rest.\<close>

lemma recv_poll_ok:
  assumes "recv_poll k nic junk qp cdone m = Some y" and "nic_frame nic (qp_wq qp) (qp_cq qp)"
    and "qp_ok (qp_wq qp) (qp_cq qp) m" and "flag_at m cdone \<noteq> None"
  shows "case y of Inl e \<Rightarrow> e = Out_of_bounds
    | Inr (r, m1) \<Rightarrow> keeps (qp_wq qp) (qp_cq qp) m m1 \<and>
        (case r of None \<Rightarrow> delivered m1 (qp_cq qp) = delivered m (qp_cq qp) | Some ss \<Rightarrow> hands_over (qp_cq qp) m ss m1 \<and>
           (ss_op ss \<noteq> RMC_INCOMING_SEND \<longrightarrow> flag_at m1 cdone = Some True))"
  using assms
proof (induction k arbitrary: m)
  case 0
  then show ?case by (auto simp: keeps_refl)
next
  case (Suc k)
  let ?wqp = "qp_wq qp" and ?cqp = "qp_cq qp"
  from Suc.prems(1) obtain z where z: "rmc_check_cq nic junk ?wqp ?cqp m = Some z"
    by (cases "rmc_check_cq nic junk ?wqp ?cqp m") auto
  note ok = rmc_check_cq_ok [OF z Suc.prems(2,3)]
  show ?case
  proof (cases z)
    case (Inl e)
    with Suc.prems(1) z have "y = Inl e" by simp
    with Inl ok show ?thesis by (simp add: poll_ok_def)
  next
    case (Inr rm)
    obtain ret m1 where rm: "rm = (ret, m1)" by (cases rm)
    from ok Inr rm have k1: "keeps ?wqp ?cqp m m1" and h1: "hands_over ?cqp m ret m1"
      by (simp_all add: poll_ok_def)
    have f1: "flag_at m1 cdone \<noteq> None" using k1 Suc.prems(4) by (simp add: keeps_def)
    show ?thesis
    proof (cases "ss_op ret \<noteq> RMC_INCOMING_SEND \<and> flag_at m1 cdone = Some False")
      case True
      with Suc.prems(1) z Inr rm have "recv_poll k nic junk qp cdone m1 = Some y"
        by (simp add: load_flag_def)
      from Suc.IH [OF this Suc.prems(2) qp_ok_keeps [OF k1] f1] k1 h1 True show ?thesis
        by (auto simp: hands_over_def split: sum.splits option.splits intro: keeps_trans)
    next
      case False
      with f1 Suc.prems(1) z Inr rm have "y = Inr (Some ret, m1)"
        "ss_op ret \<noteq> RMC_INCOMING_SEND \<longrightarrow> flag_at m1 cdone = Some True"
        by (auto simp: load_flag_def split: if_splits)
      with k1 h1 show ?thesis by simp
    qed
  qed
qed

text \<open>What a receive that returns has done, whatever the NIC did meanwhile.\<close>

lemma receive_ok:
  assumes "receiveRPCRequest_zsim_l3fwd nic junk rjunk ctx qpi cdone m = Some y"
    and "load_qp ctx qpi = Inr qp" and "nic_frame nic (qp_wq qp) (qp_cq qp)" and "qp_ok (qp_wq qp) (qp_cq qp) m"
    and "flag_at m cdone \<noteq> None"
  shows "case y of Inl e \<Rightarrow> e = Out_of_bounds
    | Inr (rpc, src, m1) \<Rightarrow> keeps (qp_wq qp) (qp_cq qp) m m1 \<and>
        (case src of
           None \<Rightarrow> (rpc = rjunk\<lparr>payload_len := 0xbeef\<rparr> \<and> delivered m1 (qp_cq qp) = delivered m (qp_cq qp)) \<or>
             (rpc = rjunk\<lparr>payload_len := 0xdead\<rparr> \<and> flag_at m1 cdone = Some True)
         | Some t \<Rightarrow> \<exists>e. delivered m1 (qp_cq qp) = delivered m (qp_cq qp) @ [e] \<and> t = ucast (cqe_tid e) \<and>
             rpc = rjunk\<lparr>payload := cqe_recv_buf_addr e, senders_nid := ucast (cqe_tid e)\<rparr>)"
proof -
  from assms(1,2) obtain z where z: "recv_poll 500 nic junk qp cdone m = Some z"
    by (cases "recv_poll 500 nic junk qp cdone m")
      (auto simp: receiveRPCRequest_zsim_l3fwd_def simp del: recv_poll.simps)
  note ok = recv_poll_ok [OF z assms(3-5)]
  note def = receiveRPCRequest_zsim_l3fwd_def [of nic junk rjunk ctx qpi cdone m]
  show ?thesis
  proof (cases z)
    case (Inl e)
    with assms(1,2) z have "y = Inl e" by (simp add: def del: recv_poll.simps)
    with Inl ok show ?thesis by simp
  next
    case (Inr rm)
    obtain r m1 where rm: "rm = (r, m1)" by (cases rm)
    with Inr ok have k: "keeps (qp_wq qp) (qp_cq qp) m m1" by simp
    show ?thesis
    proof (cases r)
      case None
      with assms(1,2) z Inr rm have "y = Inr (rjunk\<lparr>payload_len := 0xbeef\<rparr>, None, m1)"
        by (simp add: def del: recv_poll.simps)
      with k None Inr rm ok show ?thesis by simp
    next
      case (Some ss)
      have "flag_at m1 cdone \<noteq> None" using k assms(5) by (simp add: keeps_def)
      then obtain fin where fin: "flag_at m1 cdone = Some fin" by auto
      with Some assms(1,2) z Inr rm have y: "y = Inr (if fin then (rjunk\<lparr>payload_len := 0xdead\<rparr>, None, m1)
          else (rjunk\<lparr>payload := ss_recv_buf_addr ss, senders_nid := ucast (ss_tid ss)\<rparr>,
            Some (ucast (ss_tid ss)), m1))"
        by (cases fin) (simp_all add: def load_flag_def del: recv_poll.simps)
      from ok Inr rm Some have h: "hands_over (qp_cq qp) m ss m1"
        "ss_op ss \<noteq> RMC_INCOMING_SEND \<longrightarrow> flag_at m1 cdone = Some True" by simp_all
      show ?thesis
      proof (cases fin)
        case False
        with h fin obtain e where "delivered m1 (qp_cq qp) = delivered m (qp_cq qp) @ [e]"
          "ss_tid ss = cqe_tid e" "ss_recv_buf_addr ss = cqe_recv_buf_addr e"
          by (auto simp: hands_over_def split: if_splits)
        with y False k show ?thesis by auto
      qed (use y k fin in auto)
    qed
  qed
qed

subsection \<open>A receive while the NIC is quiet\<close>

text \<open>The queue pair of a receive: a free work-queue head slot, \<open>n\<close> messages pending.\<close>

definition recv_ready :: "soNUMAQP_T \<Rightarrow> addr \<Rightarrow> bool \<Rightarrow> nat \<Rightarrow> rmc_cq_t \<Rightarrow> machine \<Rightarrow> bool" where
  "recv_ready qp cdone fin n c m \<longleftrightarrow>
     (\<exists>w. wq_at m (qp_wq qp) = Some w \<and> wf_wq w \<and> \<not> wqe_valid (head_slot w)) \<and>
     cq_at m (qp_cq qp) = Some c \<and> cq_inv (n, c) \<and> only_sends (n, c) \<and> flag_at m cdone = Some fin"

lemma recv_ready_poll:
  assumes "nic_quiet nic (qp_wq qp) (qp_cq qp)" "nic_flag_quiet nic cdone" "recv_ready qp cdone fin n c m"
  obtains ss m1 c1 where "rmc_check_cq nic junk (qp_wq qp) (qp_cq qp) m = Some (Inr (ss, m1))"
    "recv_ready qp cdone fin (n - 1) c1 m1" "cq_sends (n - 1, c1) = tl (cq_sends (n, c))"
    "ss_op ss = RMC_INCOMING_SEND \<longleftrightarrow> 0 < n"
    "0 < n \<longrightarrow> hd (cq_sends (n, c)) = (ss_tid ss, ss_recv_buf_addr ss)" "n = 0 \<longrightarrow> c1 = c"
proof -
  from assms(3) obtain w where w: "wq_at m (qp_wq qp) = Some w" "wf_wq w" "\<not> wqe_valid (head_slot w)"
    and c: "cq_at m (qp_cq qp) = Some c" "cq_inv (n, c)" and o: "only_sends (n, c)"
    and f: "flag_at m cdone = Some fin"
    by (auto simp: recv_ready_def)
  note sends = o [unfolded only_sends_pending]
  from cq_script_step_poll [OF assms(1) w c sends, of junk] obtain ss m1 c1 where
    p: "rmc_check_cq nic junk (qp_wq qp) (qp_cq qp) m = Some (Inr (ss, m1))"
      "wq_at m1 (qp_wq qp) = Some w" "cq_at m1 (qp_cq qp) = Some c1"
    and step: "if n = 0 then ss_op ss \<noteq> RMC_INCOMING_SEND \<and> c1 = c
     else ss_op ss = RMC_INCOMING_SEND \<and> cq_inv (n - 1, c1) \<and>
       cq_pending (n, c) = cq_slot c 0 # cq_pending (n - 1, c1) \<and>
       ss_tid ss = cqe_tid (cq_slot c 0) \<and> ss_recv_buf_addr ss = cqe_recv_buf_addr (cq_slot c 0)"
    by blast
  have f1: "flag_at m1 cdone = Some fin" using rmc_check_cq_flag [OF p(1) assms(2)] f by simp
  show thesis
  proof (cases "n = 0")
    case True
    with step c(2) o p(2,3) w f1 have "recv_ready qp cdone fin (n - 1) c1 m1"
      by (auto simp: recv_ready_def simp del: cq_inv.simps)
    with True step show thesis by (intro that [OF p(1)]) (simp_all add: cq_sends_pending)
  next
    case False
    with step have e: "ss_op ss = RMC_INCOMING_SEND" "cq_inv (n - 1, c1)"
      "cq_pending (n, c) = cq_slot c 0 # cq_pending (n - 1, c1)"
      "ss_tid ss = cqe_tid (cq_slot c 0)" "ss_recv_buf_addr ss = cqe_recv_buf_addr (cq_slot c 0)"
      by simp_all
    have "only_sends (n - 1, c1)" using sends unfolding only_sends_pending e(3) by simp
    with e(2) p(2,3) w f1 have "recv_ready qp cdone fin (n - 1) c1 m1"
      by (auto simp: recv_ready_def simp del: cq_inv.simps)
    moreover have "cq_sends (n, c) = (ss_tid ss, ss_recv_buf_addr ss) # cq_sends (n - 1, c1)"
      unfolding cq_sends_pending e(3) using e(4,5) by simp
    ultimately show thesis using e(1) False by (intro that [OF p(1)]) simp_all
  qed
qed

lemma recv_poll_idle:
  assumes "nic_quiet nic (qp_wq qp) (qp_cq qp)" "nic_flag_quiet nic cdone" "recv_ready qp cdone False 0 c m"
  shows "\<exists>m1. recv_poll k nic junk qp cdone m = Some (Inr (None, m1)) \<and> recv_ready qp cdone False 0 c m1"
  using assms(3)
proof (induction k arbitrary: m)
  case (Suc k)
  from recv_ready_poll [OF assms(1,2) Suc.prems, of junk] obtain ss m1 where
    p: "rmc_check_cq nic junk (qp_wq qp) (qp_cq qp) m = Some (Inr (ss, m1))"
      "recv_ready qp cdone False 0 c m1" "ss_op ss \<noteq> RMC_INCOMING_SEND"
    by (metis diff_0_eq_0 less_nat_zero_code)
  from p(2) have "flag_at m1 cdone = Some False" by (simp add: recv_ready_def)
  with p Suc.IH [OF p(2)] show ?case by (simp add: load_flag_def)
qed simp

lemma recv_poll_first:
  assumes "nic_quiet nic (qp_wq qp) (qp_cq qp)" "nic_flag_quiet nic cdone" "recv_ready qp cdone fin n c m"
    and "fin \<or> 0 < n"
  shows "\<exists>ss m1 c1. recv_poll (Suc k) nic junk qp cdone m = Some (Inr (Some ss, m1)) \<and>
    recv_ready qp cdone fin (n - 1) c1 m1 \<and> cq_sends (n - 1, c1) = tl (cq_sends (n, c)) \<and>
    (0 < n \<longrightarrow> hd (cq_sends (n, c)) = (ss_tid ss, ss_recv_buf_addr ss))"
proof -
  from recv_ready_poll [OF assms(1-3), of junk] obtain ss m1 c1 where
    p: "rmc_check_cq nic junk (qp_wq qp) (qp_cq qp) m = Some (Inr (ss, m1))"
      "recv_ready qp cdone fin (n - 1) c1 m1" "cq_sends (n - 1, c1) = tl (cq_sends (n, c))"
      "ss_op ss = RMC_INCOMING_SEND \<longleftrightarrow> 0 < n"
      "0 < n \<longrightarrow> hd (cq_sends (n, c)) = (ss_tid ss, ss_recv_buf_addr ss)"
    by metis
  have "flag_at m1 cdone = Some fin" using p(2) by (simp add: recv_ready_def)
  with p(1,4) assms(4) have "recv_poll (Suc k) nic junk qp cdone m = Some (Inr (Some ss, m1))"
    by (auto simp: load_flag_def)
  with p show ?thesis by blast
qed

lemma receive_quiet_cases:
  assumes "load_qp ctx qpi = Inr qp" and "nic_quiet nic (qp_wq qp) (qp_cq qp)" and "nic_flag_quiet nic cdone"
    and "recv_ready qp cdone fin n c m"
  shows "\<exists>rpc src m1 c1. receiveRPCRequest_zsim_l3fwd nic junk rjunk ctx qpi cdone m = Some (Inr (rpc, src, m1)) \<and>
    recv_ready qp cdone fin (n - 1) c1 m1 \<and> cq_sends (n - 1, c1) = tl (cq_sends (n, c)) \<and>
    (if fin then payload_len rpc = 0xdead \<and> src = None
     else if n = 0 then payload_len rpc = 0xbeef \<and> src = None
     else payload rpc = snd (hd (cq_sends (n, c))) \<and> src = Some (ucast (fst (hd (cq_sends (n, c))))) \<and>
       senders_nid rpc = ucast (fst (hd (cq_sends (n, c)))) \<and> payload_len rpc = payload_len rjunk)"
proof (cases "fin \<or> 0 < n")
  case True
  from recv_poll_first [OF assms(2-4) True, of 499 junk] obtain ss m1 c1 where
    p: "recv_poll 500 nic junk qp cdone m = Some (Inr (Some ss, m1))"
      "recv_ready qp cdone fin (n - 1) c1 m1" "cq_sends (n - 1, c1) = tl (cq_sends (n, c))"
      "0 < n \<longrightarrow> hd (cq_sends (n, c)) = (ss_tid ss, ss_recv_buf_addr ss)"
    by (auto simp: numeral_eq_Suc)
  have "flag_at m1 cdone = Some fin" using p(2) by (simp add: recv_ready_def)
  with p True assms(1) show ?thesis
    by (auto simp: receiveRPCRequest_zsim_l3fwd_def load_flag_def simp del: recv_poll.simps)
next
  case False
  then have f: "fin = False" "n = 0" by simp_all
  with recv_poll_idle [OF assms(2,3), of c m 500 junk] assms(4) obtain m1 where
    "recv_poll 500 nic junk qp cdone m = Some (Inr (None, m1))" "recv_ready qp cdone False 0 c m1"
    by auto
  with f assms(1) show ?thesis
    by (auto simp: receiveRPCRequest_zsim_l3fwd_def cq_sends_pending simp del: recv_poll.simps)
qed

section \<open>The clock, and receives that return\<close>

text \<open>Every receive lets the NIC take at least one turn; no call turns the clock back.\<close>

lemma recv_poll_step:
  assumes "recv_poll (Suc k) nic junk qp cdone m = Some (Inr (r, m1))"
  obtains ret m2 where "rmc_check_cq nic junk (qp_wq qp) (qp_cq qp) m = Some (Inr (ret, m2))"
    "m1 = m2 \<or> recv_poll k nic junk qp cdone m2 = Some (Inr (r, m1))"
  using assms by (auto simp: bindE_def split: option.splits sum.splits if_splits)

lemma recv_poll_clock:
  "recv_poll k nic junk qp cdone m = Some (Inr (r, m1)) \<Longrightarrow> now m \<le> now m1 \<and> (0 < k \<longrightarrow> now m < now m1)"
proof (induction k arbitrary: m)
  case (Suc k)
  from recv_poll_step [OF Suc.prems] obtain ret m2 where
    p: "rmc_check_cq nic junk (qp_wq qp) (qp_cq qp) m = Some (Inr (ret, m2))"
    "m1 = m2 \<or> recv_poll k nic junk qp cdone m2 = Some (Inr (r, m1))" .
  with Suc.IH [of m2] rmc_check_cq_clock [OF p(1)] show ?case by auto
qed simp

lemma receive_poll:
  assumes "receiveRPCRequest_zsim_l3fwd nic junk rjunk ctx qpi cdone m = Some (Inr (rpc, src, m1))"
    and "load_qp ctx qpi = Inr qp"
  obtains r where "recv_poll 500 nic junk qp cdone m = Some (Inr (r, m1))"
    "r \<noteq> None \<Longrightarrow> flag_at m1 cdone = Some True \<Longrightarrow> rpc = rjunk\<lparr>payload_len := 0xdead\<rparr>"
proof -
  from assms obtain r m2 where r: "recv_poll 500 nic junk qp cdone m = Some (Inr (r, m2))"
    by (auto simp: receiveRPCRequest_zsim_l3fwd_def bindE_def simp del: recv_poll.simps
        split: option.splits sum.splits)
  with assms show thesis
    by (cases r) (auto simp: receiveRPCRequest_zsim_l3fwd_def load_flag_def of_option_def bindE_def
        simp del: recv_poll.simps split: option.splits sum.splits if_splits intro!: that)
qed

lemma receive_clock:
  assumes "receiveRPCRequest_zsim_l3fwd nic junk rjunk ctx qpi cdone m = Some (Inr (rpc, src, m1))"
    and "load_qp ctx qpi = Inr qp"
  shows "now m < now m1"
  by (rule receive_poll [OF assms]) (use recv_poll_clock in fastforce)

text \<open>Once the clients are done, a pending message is taken off the queue and forgotten.\<close>

lemma receive_done_drops:
  assumes "load_qp ctx qpi = Inr qp" and "nic_quiet nic (qp_wq qp) (qp_cq qp)" and "nic_flag_quiet nic cdone"
    and "recv_ready qp cdone True n c m" "0 < n" and "nic_frame nic (qp_wq qp) (qp_cq qp)" "qp_ok (qp_wq qp) (qp_cq qp) m"
  shows "\<exists>m1 e. receiveRPCRequest_zsim_l3fwd nic junk rjunk ctx qpi cdone m = Some (Inr (rjunk\<lparr>payload_len := 0xdead\<rparr>, None, m1)) \<and>
    delivered m1 (qp_cq qp) = delivered m (qp_cq qp) @ [e] \<and> posted m1 (qp_wq qp) = posted m (qp_wq qp) \<and>
    cqe_tid e = fst (hd (cq_sends (n, c)))"
proof -
  from recv_ready_poll [OF assms(2-4), of junk] obtain ss m1 c1 where
    p: "rmc_check_cq nic junk (qp_wq qp) (qp_cq qp) m = Some (Inr (ss, m1))" "recv_ready qp cdone True (n - 1) c1 m1"
      "ss_op ss = RMC_INCOMING_SEND" "hd (cq_sends (n, c)) = (ss_tid ss, ss_recv_buf_addr ss)"
    using assms(5) by metis
  have f: "flag_at m1 cdone = Some True" using p(2) by (simp add: recv_ready_def)
  have "recv_poll (Suc k) nic junk qp cdone m = Some (Inr (Some ss, m1))" for k using p(1,3) by simp
  from this [of 499] have "recv_poll 500 nic junk qp cdone m = Some (Inr (Some ss, m1))"
    unfolding eval_nat_numeral BitM.simps numeral_plus_one by simp
  then have "receiveRPCRequest_zsim_l3fwd nic junk rjunk ctx qpi cdone m = Some (Inr (rjunk\<lparr>payload_len := 0xdead\<rparr>, None, m1))"
    using assms(1) f by (simp add: receiveRPCRequest_zsim_l3fwd_def load_flag_def del: recv_poll.simps)
  moreover from rmc_check_cq_ok [OF p(1) assms(6,7)] p(3,4) obtain e where
    "delivered m1 (qp_cq qp) = delivered m (qp_cq qp) @ [e]" "cqe_tid e = fst (hd (cq_sends (n, c)))"
    "posted m1 (qp_wq qp) = posted m (qp_wq qp)" by (auto simp: poll_ok_def hands_over_def keeps_def)
  ultimately show ?thesis by blast
qed

lemma receive_at_most_one:
  assumes "receiveRPCRequest_zsim_l3fwd nic junk rjunk ctx qpi cdone m = Some (Inr (rpc, src, m1))"
    and "load_qp ctx qpi = Inr qp" "nic_frame nic (qp_wq qp) (qp_cq qp)" "qp_ok (qp_wq qp) (qp_cq qp) m" "flag_at m cdone \<noteq> None"
  shows "\<exists>cs. length cs \<le> 1 \<and> delivered m1 (qp_cq qp) = delivered m (qp_cq qp) @ cs"
proof (rule receive_poll [OF assms(1,2)])
  fix r
  assume "recv_poll 500 nic junk qp cdone m = Some (Inr (r, m1))"
  from recv_poll_ok [OF this assms(3-5)]
  consider "delivered m1 (qp_cq qp) = delivered m (qp_cq qp)" | e where "delivered m1 (qp_cq qp) = delivered m (qp_cq qp) @ [e]"
    by (auto simp: hands_over_def split: option.splits if_splits)
  then show ?thesis
  proof cases
    case 1
    then show ?thesis by (intro exI [of _ "[]"]) simp
  next
    case (2 e)
    then show ?thesis by (intro exI [of _ "[e]"]) simp
  qed
qed

text \<open>Once the clients are done, the next receive says so.\<close>

lemma receive_done:
  assumes "receiveRPCRequest_zsim_l3fwd nic junk rjunk ctx qpi cdone m = Some (Inr (rpc, src, m1))"
    and "load_qp ctx qpi = Inr qp" "nic_sets nic cdone T" "T \<le> now m"
  shows "payload_len rpc = 0xdead"
proof (rule receive_poll [OF assms(1,2)])
  fix r
  assume p: "recv_poll 500 nic junk qp cdone m = Some (Inr (r, m1))"
    and d: "r \<noteq> None \<Longrightarrow> flag_at m1 cdone = Some True \<Longrightarrow> rpc = rjunk\<lparr>payload_len := 0xdead\<rparr>"
  obtain k where k: "500 = Suc k" by (metis numeral_eq_Suc)
  note p1 = p [unfolded k]
  from p1 obtain ret m2 where q: "rmc_check_cq nic junk (qp_wq qp) (qp_cq qp) m = Some (Inr (ret, m2))"
    by (auto simp: bindE_def split: option.splits sum.splits)
  note f = rmc_check_cq_sets [OF q assms(3,4)]
  from p1 q f have "r = Some ret" "m1 = m2"
    by (auto simp: load_flag_def split: if_splits)
  with d f show ?thesis by simp
qed

lemma recv_poll_returns:
  assumes "nic_frame nic (qp_wq qp) (qp_cq qp)" "nic_silent nic (qp_cq qp) T0" "nic_live nic (qp_wq qp)"
  shows "qp_ok (qp_wq qp) (qp_cq qp) m \<Longrightarrow> recv_poll k nic junk qp cdone m \<noteq> None"
proof (induction k arbitrary: m)
  case (Suc k)
  from rmc_check_cq_returns [OF assms Suc.prems, of junk] obtain y where
    y: "rmc_check_cq nic junk (qp_wq qp) (qp_cq qp) m = Some y" by blast
  have "recv_poll k nic junk qp cdone m1 \<noteq> None" if "y = Inr (r, m1)" for r m1
    using rmc_check_cq_ok [OF y assms(1) Suc.prems] that Suc.IH [of m1] by (simp add: poll_ok_def keeps_def)
  with y show ?case by (auto simp: bindE_def split: sum.splits)
qed simp

lemma receive_returns:
  assumes "nic_frame nic (qp_wq qp) (qp_cq qp)" "nic_silent nic (qp_cq qp) T0" "nic_live nic (qp_wq qp)"
    and "load_qp ctx qpi = Inr qp" "qp_ok (qp_wq qp) (qp_cq qp) m"
  shows "receiveRPCRequest_zsim_l3fwd nic junk rjunk ctx qpi cdone m \<noteq> None"
  using recv_poll_returns [OF assms(1-3,5), of 500 junk cdone] assms(4)
  by (auto simp: receiveRPCRequest_zsim_l3fwd_def bindE_def simp del: recv_poll.simps split: option.splits sum.splits)

section \<open>What the messaging calls keep of the machine\<close>

context poll_stable
begin

lemma polls: "recv_poll k nic junk qp cdone m = Some (Inr (r, m1)) \<Longrightarrow> qp_cq qp = cqp \<Longrightarrow> I m \<Longrightarrow> I m1"
proof (induction k arbitrary: m)
  case (Suc k)
  from recv_poll_step [OF Suc.prems(1)] obtain ret m2 where
    p: "rmc_check_cq nic junk (qp_wq qp) (qp_cq qp) m = Some (Inr (ret, m2))"
    "m1 = m2 \<or> recv_poll k nic junk qp cdone m2 = Some (Inr (r, m1))" .
  have "I m2" using poll [OF _ started [OF Suc.prems(3)]] p(1) Suc.prems(2) by simp
  with Suc.IH [of m2] Suc.prems(2) p(2) show ?case by blast
qed simp

lemma received:
  assumes "receiveRPCRequest_zsim_l3fwd nic junk rjunk ctx qpi cdone m = Some (Inr (rpc, src, m1))"
    and "load_qp ctx qpi = Inr qp" "qp_cq qp = cqp" "I m"
  shows "I m1"
  by (rule receive_poll [OF assms(1,2)]) (rule polls [OF _ assms(3,4)])

end

text \<open>
  An invariant of the machine that the NIC keeps, and that the posting calls on one work queue keep,
  is kept while a send waits for its slot. If a store into one of the 256 slots of a local buffer
  keeps it too, it is kept by sends from that buffer.
\<close>

locale post_stable = nic_stable nic I for nic :: nic and I :: "machine \<Rightarrow> bool" +
  fixes wqp :: addr
  assumes sent: "I m \<Longrightarrow> rmc_hw_send wqp cid a len nid m = Inr (r, m1) \<Longrightarrow> I m1"
    and freed: "I m \<Longrightarrow> rmc_hw_recv wqp cid a len m = Inr (r, m1) \<Longrightarrow> I m1"
begin

lemma retry:
  assumes "send_retry nic wqp cid a len nid m = Some (Inr m1)" "I m"
  shows "I m1"
proof -
  let ?P = "\<lambda>nic' wqp' (cid::u32) (a::u64) (len::u64) (nid::u64) m (y::machine res).
    nic' = nic \<longrightarrow> wqp' = wqp \<longrightarrow> I m \<longrightarrow> (\<forall>m1. y = Inr m1 \<longrightarrow> I m1)"
  have "?P nic wqp cid a len nid m (Inr m1)"
  proof (rule send_retry.raw_induct [where P = ?P, OF _ assms(1)], intro allI impI)
    fix f nic' wqp' cid a len nid m y m1
    assume IH: "\<And>nic' wqp' cid a len nid m y. f nic' wqp' cid a len nid m = Some y \<Longrightarrow> ?P nic' wqp' cid a len nid m y"
      and eq: "(case rmc_hw_send wqp' cid a len nid (nic_turn nic' m) of
          Inl e \<Rightarrow> Some (Inl e)
        | Inr (send_ret, m1) \<Rightarrow> if send_ret \<noteq> 0 then f nic' wqp' cid a len nid m1 else Some (Inr m1)) = Some y"
      and n: "nic' = nic" "wqp' = wqp" and m: "I m" and y: "y = Inr m1"
    from eq y n obtain r m2 where p: "rmc_hw_send wqp cid a len nid (nic_turn nic m) = Inr (r, m2)"
      by (cases "rmc_hw_send wqp cid a len nid (nic_turn nic m)") auto
    from sent [OF turn [OF m] p] have "I m2" .
    then show "I m1" using eq y n p IH [of nic wqp cid a len nid m2 y] by (auto split: if_splits)
  qed
  with assms(2) show ?thesis by blast
qed

lemma free:
  assumes "do_Recv_zsim nic ctx tid a sz m = Inr m1" "I m" "load_qp ctx tid = Inr qp" "qp_wq qp = wqp"
  shows "I m1"
  using assms freed [OF turn [OF assms(2)]] by (auto simp: do_Recv_zsim_def bindR_eq_Inr split: if_splits)

end

locale slot_stable = post_stable nic I wqp for nic :: nic and I :: "machine \<Rightarrow> bool" and wqp :: addr +
  fixes buf :: NIExposedBuffer and S :: nat
  assumes written: "I m \<Longrightarrow> k < 256 \<Longrightarrow> I (m\<lparr>mem := store32 (mem m) (underlyingBuffer buf + of_nat (k * S)) v\<rparr>)"
begin

lemma send:
  assumes "sendToNode_zsim nic ctx buf len dest sendQP data True count m = Some (Inr m1)" "I m"
    and "ctx_sized S ctx" "load_qp ctx sendQP = Inr qp" "qp_wq qp = wqp"
  shows "I m1"
proof -
  have "I (write_slot buf S len data True count m)"
    using written [OF assms(2), of "unat count mod 256" "0x1234"] by (simp add: write_slot_def Let_def del: of_nat_mult)
  with assms(1,5) show ?thesis unfolding sendToNode_zsim_eq [OF assms(3,4)] by (auto intro: retry)
qed

end

lemma post_keeps:
  assumes "rmc_hw_send p cid a len nid m = Inr (r, m1) \<or> rmc_hw_recv p cid a len m = Inr (r, m1)"
  shows "now m1 = now m" "cq_at m1 = cq_at m" "flag_at m1 = flag_at m" "delivered m1 = delivered m"
    "p1 \<noteq> p \<Longrightarrow> wq_at m1 p1 = wq_at m p1" "p1 \<noteq> p \<Longrightarrow> posted m1 p1 = posted m p1"
  using assms
  by (auto simp: rmc_hw_send_def rmc_hw_recv_def create_wq_entry_def Let_def bindR_eq_Inr store_wq_def
      register_buffer_def split: if_splits)

interpretation slot_clock: slot_stable nic "\<lambda>m. t \<le> now m" wqp buf S for nic wqp buf S t
  by unfold_locales (metis post_keeps(1), metis post_keeps(1), simp)

lemma post_mem:
  assumes "rmc_hw_send p cid a len nid m = Inr (r, m1) \<or> rmc_hw_recv p cid a len m = Inr (r, m1)"
  shows "mem m1 = mem m"
  using assms
  by (auto simp: rmc_hw_send_def rmc_hw_recv_def create_wq_entry_def Let_def bindR_eq_Inr store_wq_def
      register_buffer_def split: if_splits)

text \<open>The NIC does not write to an address of the memory.\<close>

definition nic_mem_quiet :: "nic \<Rightarrow> addr \<Rightarrow> bool" where
  "nic_mem_quiet nic a \<longleftrightarrow> (\<forall>t m. mem (nic t m) a = mem m a)"

interpretation post_memory: post_stable nic "\<lambda>m. nic_mem_quiet nic a \<and> mem m a = v" wqp for nic wqp a v
  by unfold_locales (simp add: nic_mem_quiet_def nic_turn_def, metis post_mem, metis post_mem)

section \<open>Properties\<close>

text \<open>
  C15. Sending in a well-dimensioned context: if the NIC frees the head slot of the work queue at
  some turn \<open>T\<close>, the call returns by then, having posted exactly one SEND entry that names the
  message's slot (number modulo 256) in the local buffer, the destination, the messaging context
  and the length in cache lines; nothing else is posted or consumed.
\<close>

theorem sendToNode_zsim_posts:
  assumes "ctx_sized S ctx" and "load_qp ctx sendQP = Inr qp" and "qp_ok (qp_wq qp) (qp_cq qp) m"
    and "nic_frame nic (qp_wq qp) (qp_cq qp)" and "nic_releases nic (qp_wq qp) T" and "now m \<le> T"
  shows "\<exists>m1 e. sendToNode_zsim nic ctx b len dest sendQP data skipcpy count m = Some (Inr m1) \<and>
    now m1 \<le> Suc T \<and> qp_ok (qp_wq qp) (qp_cq qp) m1 \<and>
    posted m1 (qp_wq qp) = posted m (qp_wq qp) @ [e] \<and> delivered m1 (qp_cq qp) = delivered m (qp_cq qp) \<and>
    wqe_op e = RMC_SEND \<and> wqe_valid e \<and> wqe_nid e = ucast dest \<and>
    wqe_cid e = ucast (ce_ctx_id (md_ctx_struct (rc_msg_domain ctx))) \<and>
    wqe_buf_addr e = underlyingBuffer b + of_nat ((unat count mod 256) * S) \<and>
    wqe_length e = drop_bit 6 (len + 63)"
proof -
  from assms(3) obtain w where w: "wq_at m (qp_wq qp) = Some w" "wf_wq w" by (auto simp: qp_ok_def)
  let ?m = "write_slot b S len data skipcpy count m"
  note eq = sendToNode_zsim_eq [OF assms(1,2), of nic b len dest data skipcpy count m]
  obtain m1 where m1: "sendToNode_zsim nic ctx b len dest sendQP data skipcpy count m = Some (Inr m1)"
    "now m1 \<le> Suc T"
    unfolding eq by (rule send_retry_returns [OF assms(4,5), of ?m w]) (use w assms(6) in auto)
  from sendToNode_zsim_ok [OF m1(1) assms(1,2,4,3) w(1)] m1 show ?thesis
    by (auto simp: posts_def send_entry_def CACHE_BLOCK_BITS_def CACHE_BLOCK_SIZE_def)
qed

definition demo_qp :: soNUMAQP_T where
  "demo_qp = \<lparr>qp_id = 0, qp_wq = 0x1000, qp_cq = 0x2000\<rparr>"

definition demo_ctx :: rpcNUMAContext where
  "demo_ctx = demo_junk\<lparr>rc_qps := [Some demo_qp], rc_msg_domain := (rc_msg_domain demo_junk)
     \<lparr>md_ctx_struct := (md_ctx_struct (rc_msg_domain demo_junk))\<lparr>ce_ctx_id := 7, ce_msg_entry_size := 512,
        ce_msgs_per_dest := 256\<rparr>\<rparr>\<rparr>"

lemma demo_ctx_simps [simp]:
  "ctx_sized 512 demo_ctx" "load_qp demo_ctx 0 = Inr demo_qp" "qp_wq demo_qp = 0x1000" "qp_cq demo_qp = 0x2000"
  by (simp_all add: ctx_sized_def demo_ctx_def load_qp_def demo_qp_def)

lemma late_nic_frame [simp]: "nic_frame late_nic wqp cqp"
  by (auto simp: nic_frame_def qp_frame_def late_nic_def wf_wq_def)

lemma late_nic_releases [simp]: "nic_releases late_nic p 3"
  by (auto simp: nic_releases_def late_nic_def wf_wq_def)

lemma demo_qp_ok [simp]: "wf_wq w \<Longrightarrow> wf_cq c \<Longrightarrow> qp_ok 0x1000 0x2000 (cq_demo w c)"
  by (simp add: qp_ok_def)

theorem sendToNode_zsim_posts_witness:
  "\<exists>m1 e. sendToNode_zsim late_nic demo_ctx \<lparr>underlyingBuffer = 0x8000\<rparr> 512 3 0 0 True 257
     (cq_demo busy_wq idle_cq) = Some (Inr m1) \<and> posted m1 0x1000 = [e] \<and> wqe_buf_addr e = 0x8200"
proof -
  have q: "qp_ok (qp_wq demo_qp) (qp_cq demo_qp) (cq_demo busy_wq idle_cq)" by simp
  have n: "now (cq_demo busy_wq idle_cq) \<le> 3" and p: "posted (cq_demo busy_wq idle_cq) 0x1000 = []"
    by (simp_all add: cq_demo_def wq_demo_def)
  from sendToNode_zsim_posts [OF demo_ctx_simps(1,2) q late_nic_frame late_nic_releases n,
      of "\<lparr>underlyingBuffer = 0x8000\<rparr>" 512 3 0 True 257]
  show ?thesis using p by auto
qed

text \<open>
  C29. The slots of the messages: every slot lies inside the local buffer of 256 packets and starts
  on a cache block, and two messages share a slot exactly when their numbers agree modulo 256.
\<close>

theorem send_slots_fit:
  assumes "ctx_sized S ctx" and "0 < S"
  shows "\<exists>off1 off2. send_slot (md_ctx_struct (rc_msg_domain ctx)) b c1 = Inr (underlyingBuffer b + of_nat off1) \<and>
    send_slot (md_ctx_struct (rc_msg_domain ctx)) b c2 = Inr (underlyingBuffer b + of_nat off2) \<and>
    64 dvd off1 \<and> off1 + S \<le> 256 * S \<and>
    (off1 = off2 \<longleftrightarrow> unat c1 mod 256 = unat c2 mod 256) \<and>
    (off1 \<noteq> off2 \<longrightarrow> off1 + S \<le> off2 \<or> off2 + S \<le> off1)"
proof -
  let ?o = "\<lambda>c :: u32. (unat c mod 256) * S"
  have "64 dvd S" using assms(1) by (simp add: ctx_sized_def)
  moreover have "?o c1 + S \<le> 256 * S"
  proof -
    have "Suc (unat c1 mod 256) \<le> 256" by (simp add: Suc_le_eq)
    then have "Suc (unat c1 mod 256) * S \<le> 256 * S" by (rule mult_right_mono) simp
    then show ?thesis by simp
  qed
  moreover have "?o c + S \<le> ?o d" if "unat c mod 256 < unat d mod 256" for c d :: u32
  proof -
    have "Suc (unat c mod 256) * S \<le> ?o d" using that by (intro mult_right_mono) simp_all
    then show ?thesis by simp
  qed
  from this [of c1 c2] this [of c2 c1] have "?o c1 \<noteq> ?o c2 \<longrightarrow> ?o c1 + S \<le> ?o c2 \<or> ?o c2 + S \<le> ?o c1"
    by (cases "unat c1 mod 256" "unat c2 mod 256" rule: linorder_cases) auto
  ultimately show ?thesis
    using assms(2) by (intro exI [of _ "?o c1"] exI [of _ "?o c2"]) (simp add: send_slot_eq [OF assms(1)])
qed

theorem send_slots_fit_witness:
  "\<exists>off. send_slot (md_ctx_struct (rc_msg_domain demo_ctx)) \<lparr>underlyingBuffer = 0x8000\<rparr> 300 =
     Inr (0x8000 + of_nat off) \<and> off + 512 \<le> 131072"
  using send_slots_fit [OF demo_ctx_simps(1), of "\<lparr>underlyingBuffer = 0x8000\<rparr>" 300 0] by auto


lemma demo_recv_ready:
  "recv_ready demo_qp 0x3000 False 1 one_send_cq ((cq_demo idle_wq one_send_cq)\<lparr>flag_at := [0x3000 \<mapsto> False]\<rparr>)"
  using one_send_cq_inv one_send_cq_pending
  by (simp add: recv_ready_def only_sends_pending del: cq_inv.simps cq_pending.simps)

lemma no_nic_flag_quiet [simp]: "nic_flag_quiet no_nic p"
  by (simp add: nic_flag_quiet_def no_nic_def)

definition blank_rpc :: RPCWithHeader where
  "blank_rpc = \<lparr>rpc_len = 0, rpc_type = 0, rpc_id = 0, senders_qp = 0, senders_nid = 0, payload = 0, payload_len = 0\<rparr>"




text \<open>
  \<open>do_Recv_zsim\<close> ignores the result of \<open>rmc_hw_recv\<close>: while the work-queue head slot is
  occupied the call returns normally but posts nothing, so the receive buffer is never given back.
\<close>

theorem do_Recv_zsim_drops:
  assumes "load_qp ctx cl_tid = Inr qp" and "wq_at (nic_turn nic m) (qp_wq qp) = Some w" and "wf_wq w"
    and "wqe_valid (head_slot w)"
  shows "do_Recv_zsim nic ctx cl_tid buf sz m = Inr (nic_turn nic m)"
  using assms(1,4)
  by (auto simp: do_Recv_zsim_def rmc_hw_recv_eq [OF assms(2,3)] load_qp_def bindR_eq_Inr vec_at_Inr_iff)

theorem do_Recv_zsim_drops_witness:
  "do_Recv_zsim no_nic demo_ctx 0 0xA000 64 (cq_demo busy_wq idle_cq) =
     Inr (nic_turn no_nic (cq_demo busy_wq idle_cq))"
  by (rule do_Recv_zsim_drops [OF demo_ctx_simps(2), of _ _ busy_wq]) (simp_all add: nic_turn_def no_nic_def)

text \<open>
  The errors of \<open>do_Recv_zsim\<close>: the assertion fires only past one more than the last queue
  pair; for the first index past the end the exception of \<open>at\<close> is thrown instead, and a queue
  pair that was never registered is a null dereference.
\<close>

theorem do_Recv_zsim_errors:
  "do_Recv_zsim nic ctx cl_tid buf sz m =
    (if length (rc_qps ctx) < unat cl_tid then Inl Assertion
     else if length (rc_qps ctx) = unat cl_tid then Inl Out_of_range
     else case rc_qps ctx ! unat cl_tid of
         None \<Rightarrow> Inl Segv
       | Some qp \<Rightarrow> map_sum id snd (rmc_hw_recv (qp_wq qp)
           (ucast (ce_ctx_id (md_ctx_struct (rc_msg_domain ctx)))) buf (ucast sz) (nic_turn nic m)))"
  by (auto simp: do_Recv_zsim_def load_qp_def vec_at_def bindR_def split: option.splits sum.splits)

text \<open>
  C16. What a reply carries: a send as \<open>batch_process_simpNF\<close> makes it (\<open>skipcpy\<close>) never reads the
  packet, and of the memory that the NIC leaves alone it changes exactly the first four bytes of the
  message's slot, to 0x1234, even when the packets, and with them the local buffer, have size zero.
\<close>

theorem send_writes_marker:
  assumes "ctx_sized S ctx" and "load_qp ctx sendQP = Inr qp"
    and "sendToNode_zsim nic ctx b len dest sendQP data True count m = Some (Inr m1)"
  shows "sendToNode_zsim nic ctx b len dest sendQP data2 True count m = Some (Inr m1) \<and>
    (\<forall>a. nic_mem_quiet nic a \<longrightarrow>
       mem m1 a = store32 (mem m) (underlyingBuffer b + of_nat ((unat count mod 256) * S)) 0x1234 a)"
proof -
  let ?m = "write_slot b S len data True count m"
  have "write_slot b S len data2 True count m = ?m" by (simp add: write_slot_def)
  then have "sendToNode_zsim nic ctx b len dest sendQP data2 True count m =
      sendToNode_zsim nic ctx b len dest sendQP data True count m"
    unfolding sendToNode_zsim_eq [OF assms(1,2)] by simp
  moreover have "mem m1 a = mem ?m a" if "nic_mem_quiet nic a" for a
    using post_memory.retry [OF assms(3) [unfolded sendToNode_zsim_eq [OF assms(1,2)]], of a "mem ?m a"] that by simp
  ultimately show ?thesis using assms(3) by (simp add: write_slot_def Let_def)
qed

theorem send_writes_marker_witness:
  "\<exists>m1. sendToNode_zsim late_nic demo_ctx \<lparr>underlyingBuffer = 0x8000\<rparr> 512 3 0 0xA000 True 257
     (cq_demo busy_wq idle_cq) = Some (Inr m1) \<and> mem m1 0x8200 = 0x34"
proof -
  let ?b = "\<lparr>underlyingBuffer = 0x8000\<rparr>" and ?m = "cq_demo busy_wq idle_cq"
  have q: "qp_ok (qp_wq demo_qp) (qp_cq demo_qp) ?m" by simp
  then obtain w where w: "wq_at ?m (qp_wq demo_qp) = Some w" "wf_wq w" by (auto simp: qp_ok_def)
  have n: "now ?m \<le> 3" by (simp add: cq_demo_def wq_demo_def)
  obtain m1 where m1: "sendToNode_zsim late_nic demo_ctx ?b 512 3 0 0xA000 True 257 ?m = Some (Inr m1)"
    unfolding sendToNode_zsim_eq [OF demo_ctx_simps(1,2)]
    by (rule send_retry_returns [OF late_nic_frame late_nic_releases, where m = "write_slot ?b 512 512 0xA000 True 257 ?m" and w = w])
      (use w n in auto)
  have "nic_mem_quiet late_nic 0x8200" by (simp add: nic_mem_quiet_def late_nic_def)
  with send_writes_marker [OF demo_ctx_simps(1,2) m1] have "mem m1 0x8200 = store32 (mem ?m) 0x8200 0x1234 0x8200" by simp
  also have "\<dots> = 0x34" by (simp add: store32_def store_bytes_def le32_def)
  finally show ?thesis using m1 by blast
qed

end
