(* ===== verification/Worker.thy ===== *)
theory Worker
  imports Rpc_Messaging "HOL-Library.Sublist"
begin

unbundle bit_operations_syntax

text \<open>
  The worker thread of the network function, \<open>simpNF/worker.c\<close>: it receives packets, collects
  them into batches (single packets during the warm-up) and answers each packet to its sender.
  One turn of the endless loop is \<open>worker_iter\<close>; \<open>run_worker\<close> is the thread from its
  registrations to its end. Binding the thread to a core, printing, and the start barrier have
  no effect on the state modelled here.
\<close>

section \<open>Structures and operations\<close>

text \<open>The pointers to the context, the barrier and the lock are passed on their own.\<close>

record thread_params =
  tp_id :: u32
  tp_start_core :: u32
  tp_local_tid :: u32
  tp_base_port_index :: int
  tp_num_server_ports :: int
  tp_num_client_ports :: int
  tp_update_percentage :: int
  tp_postlist :: int
  tp_node_cnt :: u32
  tp_sonuma_nid :: u32
  tp_qps_per_node :: u32
  tp_num_serv_threads :: u32
  tp_num_client_threads :: u32
  tp_packet_size :: u32
  tp_batch_size :: u32
  tp_num_keys :: u64
  tp_num_hash_buckets :: u64
  tp_log_capacity_bytes :: u64
  tp_run_debug_mode :: int

text \<open>
  The thread's surroundings: the NIC, the content of uninitialised local structures (of the RPC
  structure, per turn of the loop), the hook \<open>zsim_heartbeat\<close> of the simulator, and the
  pointers the simulator stores for the magic instructions.
\<close>

record worker_env =
  we_nic :: nic
  we_ss :: successStruct
  we_rpc :: "nat \<Rightarrow> RPCWithHeader"
  we_heartbeat :: "machine \<Rightarrow> machine"
  we_lbuf :: addr
  we_wq :: addr
  we_cq :: addr
  we_client_done :: addr
  we_done_sending :: addr

record worker_state =
  ws_m :: machine
  ws_tmp_count :: int
  ws_batch_counter :: u32
  ws_batch_size :: u32
  ws_rpcs :: "RPCWithHeader list"
  ws_source_node_ids :: "u64 list"
  ws_rolling_iter :: int

text \<open>The loop of \<open>batch_process_simpNF\<close> with \<open>k\<close> packets left, at index \<open>i\<close>.\<close>

fun batch_loop ::
  "nat \<Rightarrow> nat \<Rightarrow> nic \<Rightarrow> rpcNUMAContext \<Rightarrow> RPCWithHeader list \<Rightarrow> u64 list \<Rightarrow> NIExposedBuffer \<Rightarrow> u32 \<Rightarrow>
   u32 \<Rightarrow> int \<Rightarrow> u32 \<Rightarrow> machine \<Rightarrow> machine exec" where
  "batch_loop 0 i nic ctx rpcs source_node_ids buf batch_size packet_size tmp_count wrkr_lid m =
     Some (Inr m)"
| "batch_loop (Suc k) i nic ctx rpcs source_node_ids buf batch_size packet_size tmp_count wrkr_lid m =
     bindE (Some (arr_get source_node_ids i)) (\<lambda>source.
     bindE (Some (arr_get rpcs i)) (\<lambda>rpc.
     bindE (sendToNode_zsim nic ctx buf (ucast packet_size) (ucast source) wrkr_lid (payload rpc) True
              ((word_of_int tmp_count - batch_size) + of_nat i) m) (\<lambda>m1.
     bindE (Some (do_Recv_zsim nic ctx wrkr_lid (payload rpc) 64 m1)) (\<lambda>m2.
     batch_loop k (Suc i) nic ctx rpcs source_node_ids buf batch_size packet_size tmp_count wrkr_lid m2))))"

definition batch_process_simpNF ::
  "nic \<Rightarrow> rpcNUMAContext \<Rightarrow> RPCWithHeader list \<Rightarrow> u64 list \<Rightarrow> NIExposedBuffer \<Rightarrow> u32 \<Rightarrow>
   u32 \<Rightarrow> int \<Rightarrow> u32 \<Rightarrow> machine \<Rightarrow> machine exec" where
  "batch_process_simpNF nic ctx rpcs source_node_ids buf batch_size packet_size tmp_count wrkr_lid m =
     batch_loop (unat batch_size) 0 nic ctx rpcs source_node_ids buf batch_size packet_size tmp_count wrkr_lid m"

text \<open>
  The receive at the top of the loop, with its stores: the sender goes to the low 16 bits of
  \<open>source_node_ids[batch_counter]\<close>, the structure to \<open>rpcs[batch_counter]\<close>.
\<close>

definition worker_recv ::
  "worker_env \<Rightarrow> thread_params \<Rightarrow> rpcNUMAContext \<Rightarrow> worker_state \<Rightarrow> (RPCWithHeader \<times> worker_state) exec" where
  "worker_recv env p ctx s =
     bindE (receiveRPCRequest_zsim_l3fwd (we_nic env) (we_ss env) (we_rpc env (nat (ws_rolling_iter s)))
              ctx (tp_id p) (we_client_done env) (ws_m s)) (\<lambda>(rpc, src, m1).
     let bc = unat (ws_batch_counter s) in
     bindE (Some (case src of
         None \<Rightarrow> Inr (ws_source_node_ids s)
       | Some t \<Rightarrow> bindR (arr_get (ws_source_node_ids s) bc) (\<lambda>old.
           arr_set (ws_source_node_ids s) bc ((old AND NOT 0xFFFF) OR ucast t)))) (\<lambda>ids.
     bindE (Some (arr_set (ws_rpcs s) bc rpc)) (\<lambda>rpcs.
     Some (Inr (rpc, s\<lparr>ws_m := m1, ws_source_node_ids := ids, ws_rpcs := rpcs\<rparr>)))))"

text \<open>
  Accounting for what was received: the size of the current batch, and for a packet the counters,
  the four time stamps and the read of \<open>*done_sending\<close>.
\<close>

definition worker_count ::
  "worker_env \<Rightarrow> thread_params \<Rightarrow> RPCWithHeader \<Rightarrow> worker_state \<Rightarrow> worker_state res" where
  "worker_count env p rpc s =
     (let s1 = s\<lparr>ws_batch_size := if ws_tmp_count s < 1010 then 1 else tp_batch_size p\<rparr>
      in if payload_len rpc \<noteq> 0xbeef then
           bindR (c_int (ws_tmp_count s1 + 1)) (\<lambda>n.
           let m1 = timestamp n (timestamp n (timestamp n (timestamp n (ws_m s1))))
           in bindR (load_flag (we_done_sending env) m1) (\<lambda>_.
              Inr (s1\<lparr>ws_m := m1, ws_batch_counter := ws_batch_counter s1 + 1, ws_tmp_count := n\<rparr>)))
         else Inr (s1\<lparr>ws_batch_size := ws_batch_counter s1\<rparr>))"

text \<open>A complete batch is answered and the batch restarted.\<close>

definition worker_flush ::
  "worker_env \<Rightarrow> thread_params \<Rightarrow> rpcNUMAContext \<Rightarrow> NIExposedBuffer \<Rightarrow> worker_state \<Rightarrow> worker_state exec" where
  "worker_flush env p ctx buf s =
     (if ws_batch_size s \<le> ws_batch_counter s then
        bindE (batch_process_simpNF (we_nic env) ctx (ws_rpcs s) (ws_source_node_ids s) buf (ws_batch_size s)
                 (tp_packet_size p) (ws_tmp_count s) (tp_id p) (ws_m s)) (\<lambda>m1.
        Some (Inr (s\<lparr>ws_m := m1, ws_batch_counter := 0\<rparr>)))
      else Some (Inr s))"

definition c_longlong :: "int \<Rightarrow> int res" where
  "c_longlong v = (if v < 9223372036854775808 then Inr v else Inl Signed_overflow)"

text \<open>The heartbeat of the first turn.\<close>

definition worker_beat :: "worker_env \<Rightarrow> worker_state \<Rightarrow> worker_state" where
  "worker_beat env s = (if ws_rolling_iter s = 0 then s\<lparr>ws_m := we_heartbeat env (ws_m s)\<rparr> else s)"

text \<open>One turn of the loop; the flag tells that the loop was left.\<close>

definition worker_iter ::
  "worker_env \<Rightarrow> thread_params \<Rightarrow> rpcNUMAContext \<Rightarrow> NIExposedBuffer \<Rightarrow> worker_state \<Rightarrow>
   (bool \<times> worker_state) exec" where
  "worker_iter env p ctx buf s =
     bindE (worker_recv env p ctx s) (\<lambda>(rpc, s1).
     if payload_len rpc = 0xdead then Some (Inr (True, s1))
     else
       bindE (Some (worker_count env p rpc (worker_beat env s1))) (\<lambda>s3.
       bindE (worker_flush env p ctx buf s3) (\<lambda>s4.
       bindE (Some (c_longlong (ws_rolling_iter s4 + 1))) (\<lambda>r.
       Some (Inr (False, s4\<lparr>ws_rolling_iter := r\<rparr>))))))"

partial_function (option) worker_loop ::
  "worker_env \<Rightarrow> thread_params \<Rightarrow> rpcNUMAContext \<Rightarrow> NIExposedBuffer \<Rightarrow> worker_state \<Rightarrow> worker_state exec" where
  "worker_loop env p ctx buf s =
     (case worker_iter env p ctx buf s of
        None \<Rightarrow> None
      | Some (Inl e) \<Rightarrow> Some (Inl e)
      | Some (Inr (fin, s1)) \<Rightarrow> if fin then Some (Inr s1) else worker_loop env p ctx buf s1)"

definition zero_rpc :: RPCWithHeader where
  "zero_rpc = \<lparr>rpc_len = 0, rpc_type = 0, rpc_id = 0, senders_qp = 0, senders_nid = 0, payload = 0, payload_len = 0\<rparr>"

definition worker_start :: "thread_params \<Rightarrow> machine \<Rightarrow> worker_state" where
  "worker_start p m =
     \<lparr>ws_m = m, ws_tmp_count = 0, ws_batch_counter = 0, ws_batch_size = tp_batch_size p,
      ws_rpcs = replicate (unat (tp_batch_size p)) zero_rpc,
      ws_source_node_ids = replicate (unat (tp_batch_size p)) 0, ws_rolling_iter = 0\<rparr>"

definition run_worker ::
  "worker_env \<Rightarrow> thread_params \<Rightarrow> rpcNUMAContext \<Rightarrow> machine \<Rightarrow> (rpcNUMAContext \<times> worker_state) exec" where
  "run_worker env p ctx m =
     bindE (Some (registerNewLocalBuffer (we_lbuf env) (get_lbuf_size ctx) (ucast (tp_id p)) ctx m)) (\<lambda>(buf, ctx1, m1).
     bindE (Some (registerNewSONUMAQP (we_wq env) (we_cq env) (ucast (tp_id p)) ctx1 m1)) (\<lambda>(_, ctx2, m2).
     let m3 = register_done_sending (monitor_client_done m2) in
     bindE (worker_loop env p ctx2 buf (worker_start p m3)) (\<lambda>s.
     Some (Inr (ctx2, s\<lparr>ws_m := notify_done_to_zsim (we_heartbeat env (ws_m s))\<rparr>)))))"

section \<open>A batch of replies\<close>

text \<open>
  The reply to the \<open>j\<close>-th packet, which arrived with the completion \<open>c\<close>: a SEND entry to
  the sender named by the completion, from slot \<open>j\<close> modulo 256 of the local buffer.
\<close>

fun reply_to :: "NIExposedBuffer \<Rightarrow> nat \<Rightarrow> u32 \<Rightarrow> nat \<times> cq_entry_t \<Rightarrow> wq_entry_t \<Rightarrow> bool" where
  "reply_to buf S len (j, c) e \<longleftrightarrow>
     wqe_op e = RMC_SEND \<and> wqe_valid e \<and> wqe_nid e = ucast (ucast (cqe_tid c) :: u16) \<and>
     wqe_buf_addr e = underlyingBuffer buf + of_nat ((j mod 256) * S) \<and>
     wqe_length e = drop_bit 6 (ucast len + 63)"

definition sends :: "wq_entry_t list \<Rightarrow> wq_entry_t list" where
  "sends es = filter (\<lambda>e. wqe_op e = RMC_SEND) es"

definition recvs :: "wq_entry_t list \<Rightarrow> wq_entry_t list" where
  "recvs es = filter (\<lambda>e. wqe_op e = RMC_RECV) es"

text \<open>
  The posts \<open>es\<close> answer the packets \<open>cs\<close>, numbered from \<open>n\<close>: one reply each, in order, and
  some of their buffers are given back, in order, each at most once.
\<close>

definition answers :: "NIExposedBuffer \<Rightarrow> nat \<Rightarrow> u32 \<Rightarrow> nat \<Rightarrow> cq_entry_t list \<Rightarrow> wq_entry_t list \<Rightarrow> bool" where
  "answers buf S len n cs es \<longleftrightarrow>
     list_all2 (reply_to buf S len) (enumerate n cs) (sends es) \<and>
     subseq (map wqe_buf_addr (recvs es)) (map cqe_recv_buf_addr cs)"

lemma answers_append:
  assumes "answers buf S len n cs es" "answers buf S len (n + length cs) ds fs"
  shows "answers buf S len n (cs @ ds) (es @ fs)"
  using assms
  by (auto simp: answers_def sends_def recvs_def enumerate_append_eq add.commute
      intro: list_all2_appendI list_emb_append_mono)

lemma answers_Nil [simp]: "answers buf S len n [] []"
  by (simp add: answers_def sends_def recvs_def)

text \<open>The collected batch holds the packets \<open>cs\<close>.\<close>

definition batch_holds :: "RPCWithHeader list \<Rightarrow> u64 list \<Rightarrow> cq_entry_t list \<Rightarrow> bool" where
  "batch_holds rpcs ids cs \<longleftrightarrow> length cs \<le> length rpcs \<and> length rpcs = length ids \<and>
     (\<forall>i < length cs. payload (rpcs ! i) = cqe_recv_buf_addr (cs ! i) \<and>
        ids ! i = ucast (ucast (cqe_tid (cs ! i)) :: u16))"

lemma ucast_source: "(ucast (ucast (ucast (t :: u16) :: u64) :: u32) :: u64) = ucast t"
  by (rule bit_word_eqI) (auto simp: bit_simps dest: bit_imp_le_length)

lemma send_count_slot:
  assumes "unat bs \<le> n"
  shows "unat ((word_of_int (int n) - bs) + of_nat i :: u32) mod 256 = (n - unat bs + i) mod 256"
proof -
  have "(word_of_int (int n) - bs) + of_nat i = (of_nat (n - unat bs + i) :: u32)"
    using assms by simp
  then have "unat ((word_of_int (int n) - bs) + of_nat i :: u32) = (n - unat bs + i) mod 2 ^ 32"
    by (simp only: unat_of_nat) (simp add: take_bit_eq_mod)
  then show ?thesis by (simp add: mod_mod_cancel)
qed

text \<open>One reply and the return of the packet's buffer.\<close>

lemma reply_one:
  fixes src :: u64
  assumes "sendToNode_zsim nic ctx buf (ucast len) (ucast src) lid data True count m = Some (Inr m1)"
    and "ctx_sized S ctx" "load_qp ctx lid = Inr qp" "nic_frame nic (qp_wq qp) (qp_cq qp)" "qp_ok (qp_wq qp) (qp_cq qp) m"
    and "src = ucast (ucast (cqe_tid c) :: u16)" "unat count mod 256 = j mod 256"
    and "data = cqe_recv_buf_addr c"
  shows "\<exists>m2 es. do_Recv_zsim nic ctx lid data 64 m1 = Inr m2 \<and> posts (qp_wq qp) (qp_cq qp) es m m2 \<and>
    answers buf S len j [c] es"
proof -
  let ?wqp = "qp_wq qp" and ?cqp = "qp_cq qp"
  let ?cid = "ucast (ce_ctx_id (md_ctx_struct (rc_msg_domain ctx))) :: u32"
  from assms(5) obtain w where w: "wq_at m ?wqp = Some w" by (auto simp: qp_ok_def)
  let ?e = "send_entry w ?cid (underlyingBuffer buf + of_nat ((unat count mod 256) * S)) (ucast len)
    (ucast (ucast src :: u32))"
  from sendToNode_zsim_ok [OF assms(1-5) w] have p1: "posts ?wqp ?cqp [?e] m m1" by simp
  then have q1: "qp_ok ?wqp ?cqp m1" by (simp add: posts_def)
  then obtain w1 where w1: "wq_at m1 ?wqp = Some w1" by (auto simp: qp_ok_def)
  let ?f = "recv_entry w1 ?cid data (ucast (64 :: u32))"
  from do_Recv_zsim_ok [OF assms(3,4) q1 w1, of data 64] obtain m2 fs where
    m2: "do_Recv_zsim nic ctx lid data 64 m1 = Inr m2" "posts ?wqp ?cqp fs m1 m2" "fs = [] \<or> fs = [?f]"
    by blast
  have "reply_to buf S len (j, c) ?e"
    using assms(6,7) ucast_source
    by (simp add: send_entry_def CACHE_BLOCK_BITS_def CACHE_BLOCK_SIZE_def)
  moreover have "RMC_SEND \<noteq> RMC_RECV" by (simp add: RMC_SEND_def RMC_RECV_def SEND_OP_SHIFT_def)
  ultimately have "answers buf S len j [c] ([?e] @ fs)"
    using m2(3) assms(8) by (auto simp: answers_def sends_def recvs_def send_entry_def recv_entry_def)
  with m2 posts_trans [OF p1 m2(2)] show ?thesis by blast
qed

lemma batch_loop_ok:
  assumes "ctx_sized S ctx" "load_qp ctx lid = Inr qp" "nic_frame nic (qp_wq qp) (qp_cq qp)"
    and "batch_holds rpcs ids cs" "unat bs \<le> n"
  shows "batch_loop k i nic ctx rpcs ids buf bs len (int n) lid m = Some y \<Longrightarrow>
    qp_ok (qp_wq qp) (qp_cq qp) m \<Longrightarrow> i + k = length cs \<Longrightarrow>
    \<exists>m1 es. y = Inr m1 \<and> posts (qp_wq qp) (qp_cq qp) es m m1 \<and>
      answers buf S len (n - unat bs + i) (drop i cs) es"
proof (induction k arbitrary: i m)
  case 0
  then show ?case using posts_refl [OF "0.prems"(2)] by (intro exI [of _ m] exI [of _ "[]"]) simp
next
  case (Suc k)
  let ?count = "(word_of_int (int n) - bs) + of_nat i :: u32"
  have i: "i < length cs" using Suc.prems(3) by simp
  with assms(4) have b: "i < length rpcs" "i < length ids" "payload (rpcs ! i) = cqe_recv_buf_addr (cs ! i)"
    "ids ! i = ucast (ucast (cqe_tid (cs ! i)) :: u16)" by (auto simp: batch_holds_def)
  let ?send = "sendToNode_zsim nic ctx buf (ucast len) (ucast (ids ! i)) lid (payload (rpcs ! i)) True ?count m"
  have body: "batch_loop (Suc k) i nic ctx rpcs ids buf bs len (int n) lid m = bindE ?send (\<lambda>m1.
      bindE (Some (do_Recv_zsim nic ctx lid (payload (rpcs ! i)) 64 m1)) (\<lambda>m2.
      batch_loop k (Suc i) nic ctx rpcs ids buf bs len (int n) lid m2))"
    using b(1,2) by simp
  from Suc.prems(1) obtain z where z: "?send = Some z" unfolding body by (cases ?send) auto
  from Suc.prems(2) obtain w where "wq_at m (qp_wq qp) = Some w" by (auto simp: qp_ok_def)
  from sendToNode_zsim_ok [OF z assms(1-3) Suc.prems(2) this] obtain m1 where m1: "z = Inr m1" by blast
  from reply_one [OF z [unfolded m1] assms(1-3) Suc.prems(2) b(4) send_count_slot [OF assms(5)] b(3)]
  obtain m2 es where m2: "do_Recv_zsim nic ctx lid (payload (rpcs ! i)) 64 m1 = Inr m2"
    "posts (qp_wq qp) (qp_cq qp) es m m2" "answers buf S len (n - unat bs + i) [cs ! i] es" by blast
  have "batch_loop k (Suc i) nic ctx rpcs ids buf bs len (int n) lid m2 = Some y"
    using Suc.prems(1) z m1 m2(1) unfolding body by simp
  from Suc.IH [OF this] m2(2) Suc.prems(3) obtain m3 fs where m3: "y = Inr m3"
    "posts (qp_wq qp) (qp_cq qp) fs m2 m3" "answers buf S len (n - unat bs + Suc i) (drop (Suc i) cs) fs"
    by (auto simp: posts_def)
  have "drop i cs = [cs ! i] @ drop (Suc i) cs" using i by (simp add: Cons_nth_drop_Suc)
  with answers_append [OF m2(3), of "drop (Suc i) cs" fs] m3(3)
  have "answers buf S len (n - unat bs + i) (drop i cs) (es @ fs)" by simp
  with m3(1) posts_trans [OF m2(2) m3(2)] show ?case by blast
qed

section \<open>The invariant of the loop\<close>

text \<open>
  What the thread relies on: a context with the right dimensions and the thread's queue pair, a
  NIC that leaves the application's cursors alone, a heartbeat hook that only notifies the
  simulator, a batch size of at least one, and that the payload length \<open>receiveRPCRequest\<close>
  never sets does not happen to be one of its two markers.
\<close>

definition heartbeat_frame :: "(machine \<Rightarrow> machine) \<Rightarrow> bool" where
  "heartbeat_frame hb \<longleftrightarrow> (\<forall>m. wq_at (hb m) = wq_at m \<and> cq_at (hb m) = cq_at m \<and> flag_at (hb m) = flag_at m \<and>
     posted (hb m) = posted m \<and> delivered (hb m) = delivered m \<and> now m \<le> now (hb m))"

definition junk_ok :: "worker_env \<Rightarrow> bool" where
  "junk_ok env \<longleftrightarrow> (\<forall>k. payload_len (we_rpc env k) \<noteq> 0xdead \<and> payload_len (we_rpc env k) \<noteq> 0xbeef)"

definition worker_setting :: "worker_env \<Rightarrow> thread_params \<Rightarrow> rpcNUMAContext \<Rightarrow> nat \<Rightarrow> soNUMAQP_T \<Rightarrow> bool" where
  "worker_setting env p ctx S qp \<longleftrightarrow>
     ctx_sized S ctx \<and> load_qp ctx (tp_id p) = Inr qp \<and> nic_frame (we_nic env) (qp_wq qp) (qp_cq qp) \<and>
     heartbeat_frame (we_heartbeat env) \<and> junk_ok env \<and> 0 < unat (tp_batch_size p)"

text \<open>The packets received so far, and those of them that wait in the current batch.\<close>

definition packets :: "soNUMAQP_T \<Rightarrow> worker_state \<Rightarrow> cq_entry_t list" where
  "packets qp s = delivered (ws_m s) (qp_cq qp)"

definition answered :: "soNUMAQP_T \<Rightarrow> worker_state \<Rightarrow> nat" where
  "answered qp s = length (packets qp s) - unat (ws_batch_counter s)"

definition wk_core :: "worker_env \<Rightarrow> thread_params \<Rightarrow> soNUMAQP_T \<Rightarrow> NIExposedBuffer \<Rightarrow> nat \<Rightarrow> worker_state \<Rightarrow> bool" where
  "wk_core env p qp buf S s \<longleftrightarrow>
     qp_ok (qp_wq qp) (qp_cq qp) (ws_m s) \<and>
     flag_at (ws_m s) (we_client_done env) \<noteq> None \<and> flag_at (ws_m s) (we_done_sending env) \<noteq> None \<and>
     length (ws_rpcs s) = unat (tp_batch_size p) \<and> unat (ws_batch_counter s) \<le> length (packets qp s) \<and>
     ws_tmp_count s = int (length (packets qp s)) \<and>
     batch_holds (ws_rpcs s) (ws_source_node_ids s) (drop (answered qp s) (packets qp s)) \<and>
     (\<forall>i < length (ws_source_node_ids s). ws_source_node_ids s ! i AND NOT 0xFFFF = 0) \<and>
     answers buf S (tp_packet_size p) 0 (take (answered qp s) (packets qp s)) (posted (ws_m s) (qp_wq qp))"

text \<open>At the top of the loop the batch is never complete, and empty during the warm-up.\<close>

definition wk_inv :: "worker_env \<Rightarrow> thread_params \<Rightarrow> soNUMAQP_T \<Rightarrow> NIExposedBuffer \<Rightarrow> nat \<Rightarrow> worker_state \<Rightarrow> bool" where
  "wk_inv env p qp buf S s \<longleftrightarrow>
     wk_core env p qp buf S s \<and> unat (ws_batch_counter s) < unat (tp_batch_size p) \<and>
     (length (packets qp s) < 1010 \<longrightarrow> ws_batch_counter s = 0)"

text \<open>Before the batch is looked at, it is at most exactly complete.\<close>

definition wk_mid :: "worker_env \<Rightarrow> thread_params \<Rightarrow> soNUMAQP_T \<Rightarrow> NIExposedBuffer \<Rightarrow> nat \<Rightarrow> worker_state \<Rightarrow> bool" where
  "wk_mid env p qp buf S s \<longleftrightarrow>
     wk_core env p qp buf S s \<and> ws_batch_counter s \<le> ws_batch_size s \<and>
     (ws_batch_counter s < ws_batch_size s \<longrightarrow>
        unat (ws_batch_counter s) < unat (tp_batch_size p) \<and> 1010 \<le> length (packets qp s))"

subsection \<open>The receive\<close>

text \<open>What a receive adds to the state: the completions \<open>cs\<close>, at most one, behind the batch.\<close>

definition wk_got :: "worker_env \<Rightarrow> soNUMAQP_T \<Rightarrow> RPCWithHeader \<Rightarrow> worker_state \<Rightarrow> worker_state \<Rightarrow> cq_entry_t list \<Rightarrow> bool" where
  "wk_got env qp rpc s s1 cs \<longleftrightarrow>
     (payload_len rpc = 0xbeef \<longleftrightarrow> cs = []) \<and> length cs \<le> 1 \<and>
     delivered (ws_m s1) (qp_cq qp) = delivered (ws_m s) (qp_cq qp) @ cs \<and> posted (ws_m s1) (qp_wq qp) = posted (ws_m s) (qp_wq qp) \<and>
     qp_ok (qp_wq qp) (qp_cq qp) (ws_m s1) \<and>
     (\<forall>a. flag_at (ws_m s) a \<noteq> None \<longrightarrow> flag_at (ws_m s1) a \<noteq> None) \<and>
     length (ws_rpcs s1) = length (ws_rpcs s) \<and>
     batch_holds (ws_rpcs s1) (ws_source_node_ids s1) (drop (answered qp s) (packets qp s) @ cs) \<and>
     (\<forall>i < length (ws_source_node_ids s1). ws_source_node_ids s1 ! i AND NOT 0xFFFF = 0) \<and>
     ws_batch_counter s1 = ws_batch_counter s \<and> ws_tmp_count s1 = ws_tmp_count s \<and>
     ws_rolling_iter s1 = ws_rolling_iter s"

lemma batch_holds_overwrite:
  assumes "batch_holds rpcs ids cs" "length cs < length rpcs"
  shows "batch_holds (rpcs[length cs := rpc]) ids cs"
  using assms by (auto simp: batch_holds_def)

lemma batch_holds_add:
  assumes "batch_holds rpcs ids cs" "length cs < length rpcs" "payload rpc = cqe_recv_buf_addr e"
  shows "batch_holds (rpcs[length cs := rpc]) (ids[length cs := ucast (ucast (cqe_tid e) :: u16)]) (cs @ [e])"
  using assms by (auto simp: batch_holds_def nth_append nth_list_update less_Suc_eq)

lemma source_low_bits: "(old :: u64) AND NOT 0xFFFF = 0 \<Longrightarrow> (old AND NOT 0xFFFF) OR ucast (t :: u16) = ucast t"
  by simp

lemma ucast_low_bits: "(ucast (t :: u16) :: u64) AND NOT 0xFFFF = 0"
proof -
  have m: "(0xFFFF :: u64) = mask 16" by (simp add: mask_eq_exp_minus_1)
  show ?thesis
    unfolding m by (rule bit_word_eqI) (auto simp: bit_simps dest: bit_imp_le_length)
qed

lemma wk_inv_batch:
  assumes "wk_inv env p qp buf S s"
  shows "unat (ws_batch_counter s) < length (ws_rpcs s)" "length (ws_source_node_ids s) = length (ws_rpcs s)"
    and "length (drop (answered qp s) (packets qp s)) = unat (ws_batch_counter s)"
    and "batch_holds (ws_rpcs s) (ws_source_node_ids s) (drop (answered qp s) (packets qp s))"
    and "\<forall>i < length (ws_source_node_ids s). ws_source_node_ids s ! i AND NOT 0xFFFF = 0"
  using assms by (simp_all add: wk_inv_def wk_core_def answered_def batch_holds_def)

lemma wk_got_none:
  assumes "wk_inv env p qp buf S s" "keeps (qp_wq qp) (qp_cq qp) (ws_m s) m1"
    and "delivered m1 (qp_cq qp) = delivered (ws_m s) (qp_cq qp)" "payload_len rpc = 0xbeef"
  shows "wk_got env qp rpc s (s\<lparr>ws_m := m1, ws_rpcs := (ws_rpcs s)[unat (ws_batch_counter s) := rpc]\<rparr>) []"
proof -
  note b = wk_inv_batch [OF assms(1)]
  have "batch_holds ((ws_rpcs s)[unat (ws_batch_counter s) := rpc]) (ws_source_node_ids s) (drop (answered qp s) (packets qp s))"
    using batch_holds_overwrite [OF b(4)] b(1,3) by simp
  with assms(2-4) b(5) show ?thesis by (simp add: wk_got_def keeps_def)
qed

lemma wk_got_one:
  assumes "wk_inv env p qp buf S s" "keeps (qp_wq qp) (qp_cq qp) (ws_m s) m1"
    and "delivered m1 (qp_cq qp) = delivered (ws_m s) (qp_cq qp) @ [e]" "payload_len rpc \<noteq> 0xbeef"
    and "payload rpc = cqe_recv_buf_addr e"
  shows "wk_got env qp rpc s (s\<lparr>ws_m := m1,
    ws_source_node_ids := (ws_source_node_ids s)[unat (ws_batch_counter s) := ucast (ucast (cqe_tid e) :: u16)],
    ws_rpcs := (ws_rpcs s)[unat (ws_batch_counter s) := rpc]\<rparr>) [e]"
proof -
  note b = wk_inv_batch [OF assms(1)]
  let ?ids = "(ws_source_node_ids s)[unat (ws_batch_counter s) := ucast (ucast (cqe_tid e) :: u16)]"
  have "batch_holds ((ws_rpcs s)[unat (ws_batch_counter s) := rpc]) ?ids (drop (answered qp s) (packets qp s) @ [e])"
    using batch_holds_add [OF b(4) _ assms(5)] b(1,3) by simp
  moreover have "\<forall>i < length ?ids. ?ids ! i AND NOT 0xFFFF = 0"
    using b(1,2,5) ucast_low_bits by (simp add: nth_list_update)
  ultimately show ?thesis using assms(2-4) by (simp add: wk_got_def keeps_def)
qed

lemma worker_recv_ok:
  assumes "worker_recv env p ctx s = Some y" and set: "worker_setting env p ctx S qp" and inv: "wk_inv env p qp buf S s"
  shows "case y of Inl e \<Rightarrow> e = Out_of_bounds
    | Inr (rpc, s1) \<Rightarrow> payload_len rpc = 0xdead \<or> (\<exists>cs. wk_got env qp rpc s s1 cs)"
proof -
  let ?B = "unat (ws_batch_counter s)" and ?rj = "we_rpc env (nat (ws_rolling_iter s))"
  let ?rcv = "receiveRPCRequest_zsim_l3fwd (we_nic env) (we_ss env) ?rj ctx (tp_id p) (we_client_done env) (ws_m s)"
  note b = wk_inv_batch [OF inv]
  from set have qpl: "load_qp ctx (tp_id p) = Inr qp" and fr: "nic_frame (we_nic env) (qp_wq qp) (qp_cq qp)"
    and jk: "payload_len ?rj \<noteq> 0xbeef" by (simp_all add: worker_setting_def junk_ok_def)
  from inv have qp: "qp_ok (qp_wq qp) (qp_cq qp) (ws_m s)" and fl: "flag_at (ws_m s) (we_client_done env) \<noteq> None"
    by (simp_all add: wk_inv_def wk_core_def)
  from assms(1) obtain z where z: "?rcv = Some z" by (cases ?rcv) (auto simp: worker_recv_def)
  note ok = receive_ok [OF z qpl fr qp fl]
  show ?thesis
  proof (cases z)
    case (Inl e)
    with assms(1) z ok show ?thesis by (auto simp: worker_recv_def)
  next
    case (Inr r)
    obtain rpc src m1 where r: "z = Inr (rpc, src, m1)" using Inr by (cases r) auto
    show ?thesis
    proof (cases src)
      case None
      with assms(1) z r b(1) have y: "y = Inr (rpc, s\<lparr>ws_m := m1, ws_rpcs := (ws_rpcs s)[?B := rpc]\<rparr>)"
        by (simp add: worker_recv_def Let_def)
      from ok r None have o: "keeps (qp_wq qp) (qp_cq qp) (ws_m s) m1"
        "payload_len rpc = 0xdead \<or> payload_len rpc = 0xbeef \<and> delivered m1 (qp_cq qp) = delivered (ws_m s) (qp_cq qp)"
        by auto
      from o(2) wk_got_none [OF inv o(1), of rpc] show ?thesis unfolding y by fastforce
    next
      case (Some t)
      with ok r obtain e where e: "delivered m1 (qp_cq qp) = delivered (ws_m s) (qp_cq qp) @ [e]" "t = ucast (cqe_tid e)"
        "rpc = ?rj\<lparr>payload := cqe_recv_buf_addr e, senders_nid := ucast (cqe_tid e)\<rparr>" by auto
      have "ws_source_node_ids s ! ?B AND NOT 0xFFFF = 0" using b(1,2,5) by simp
      with assms(1) z r Some b(1,2) have y: "y = Inr (rpc, s\<lparr>ws_m := m1,
          ws_source_node_ids := (ws_source_node_ids s)[?B := ucast t], ws_rpcs := (ws_rpcs s)[?B := rpc]\<rparr>)"
        by (simp add: worker_recv_def Let_def)
      from ok r have "keeps (qp_wq qp) (qp_cq qp) (ws_m s) m1" by simp
      from wk_got_one [OF inv this e(1), of rpc] e(2,3) jk show ?thesis unfolding y by fastforce
    qed
  qed
qed

subsection \<open>Counting and flushing\<close>

lemma core_extend:
  assumes core: "wk_core env p qp buf S s" and got: "wk_got env qp rpc s s2 cs"
    and m3: "wq_at (ws_m s3) = wq_at (ws_m s2)" "cq_at (ws_m s3) = cq_at (ws_m s2)"
      "flag_at (ws_m s3) = flag_at (ws_m s2)" "posted (ws_m s3) = posted (ws_m s2)"
      "delivered (ws_m s3) = delivered (ws_m s2)"
    and s3: "ws_rpcs s3 = ws_rpcs s2" "ws_source_node_ids s3 = ws_source_node_ids s2"
      "unat (ws_batch_counter s3) = unat (ws_batch_counter s) + length cs"
      "ws_tmp_count s3 = ws_tmp_count s + int (length cs)"
  shows "wk_core env p qp buf S s3"
proof -
  have pk: "packets qp s3 = packets qp s @ cs" using got m3(5) by (simp add: packets_def wk_got_def comp_def)
  have B: "unat (ws_batch_counter s) \<le> length (packets qp s)" using core by (simp add: wk_core_def)
  have an: "answered qp s3 = answered qp s" using B pk s3(3) by (simp add: answered_def)
  have "answered qp s \<le> length (packets qp s)" by (simp add: answered_def)
  then have "drop (answered qp s3) (packets qp s3) = drop (answered qp s) (packets qp s) @ cs"
    "take (answered qp s3) (packets qp s3) = take (answered qp s) (packets qp s)"
    unfolding an pk by simp_all
  moreover have "qp_ok (qp_wq qp) (qp_cq qp) (ws_m s3)" using got m3(1,2) by (simp add: wk_got_def qp_ok_def)
  ultimately show ?thesis
    using core got m3 s3 B pk by (simp add: wk_core_def wk_got_def)
qed

lemma timestamp_simps [simp]:
  "wq_at (timestamp n m) = wq_at m" "cq_at (timestamp n m) = cq_at m" "flag_at (timestamp n m) = flag_at m"
  "posted (timestamp n m) = posted m" "delivered (timestamp n m) = delivered m"
  by (simp_all add: timestamp_def register_buffer_def)

text \<open>What the accounting does for a packet and without one.\<close>

lemma worker_count_packet:
  assumes "worker_count env p rpc s = Inr s1" "payload_len rpc \<noteq> 0xbeef"
  obtains n m where "n = ws_tmp_count s + 1" "m = timestamp n (timestamp n (timestamp n (timestamp n (ws_m s))))"
    "s1 = s\<lparr>ws_batch_size := if ws_tmp_count s < 1010 then 1 else tp_batch_size p, ws_m := m,
      ws_batch_counter := ws_batch_counter s + 1, ws_tmp_count := n\<rparr>"
  using assms by (auto simp: worker_count_def Let_def bindR_eq_Inr c_int_def split: if_splits)

lemma worker_count_idle:
  "payload_len rpc = 0xbeef \<Longrightarrow> worker_count env p rpc s = Inr (s\<lparr>ws_batch_size := ws_batch_counter s\<rparr>)"
  by (simp add: worker_count_def Let_def)

lemma worker_count_fault:
  assumes "worker_count env p rpc s = Inl e" "flag_at (ws_m s) (we_done_sending env) \<noteq> None"
  shows "e = Signed_overflow"
  using assms by (auto simp: worker_count_def Let_def bindR_def c_int_def load_flag_def split: if_splits)

lemma worker_count_mid:
  assumes "worker_count env p rpc s2 = Inr s3" and inv: "wk_inv env p qp buf S s" and got: "wk_got env qp rpc s s2 cs"
  shows "wk_mid env p qp buf S s3"
proof -
  let ?B = "unat (ws_batch_counter s)" and ?N = "length (packets qp s)"
  from inv have core: "wk_core env p qp buf S s" and B: "?B < unat (tp_batch_size p)"
    and warm: "?N < 1010 \<longrightarrow> ws_batch_counter s = 0" by (simp_all add: wk_inv_def)
  from got have same: "ws_batch_counter s2 = ws_batch_counter s" "ws_tmp_count s2 = ws_tmp_count s" by (simp_all add: wk_got_def)
  have tmp: "ws_tmp_count s = int ?N" using core by (simp add: wk_core_def)
  show ?thesis
  proof (cases "payload_len rpc = 0xbeef")
    case True
    with got have cs: "cs = []" by (simp add: wk_got_def)
    have s3: "s3 = s2\<lparr>ws_batch_size := ws_batch_counter s2\<rparr>" using assms(1) True by (simp add: worker_count_idle)
    have "wk_core env p qp buf S s3"
      by (rule core_extend [OF core got]) (use same cs s3 in simp_all)
    with s3 show ?thesis by (simp add: wk_mid_def)
  next
    case False
    with got obtain e where cs: "cs = [e]" by (cases cs) (auto simp: wk_got_def)
    from worker_count_packet [OF assms(1) False] obtain n m where n: "n = ws_tmp_count s2 + 1"
      and m: "m = timestamp n (timestamp n (timestamp n (timestamp n (ws_m s2))))" and
      s3: "s3 = s2\<lparr>ws_batch_size := if ws_tmp_count s2 < 1010 then 1 else tp_batch_size p, ws_m := m,
        ws_batch_counter := ws_batch_counter s2 + 1, ws_tmp_count := n\<rparr>" .
    have b1: "unat (ws_batch_counter s + 1) = Suc ?B"
      using B unat_u32_less [of "tp_batch_size p"] by (intro unat_Suc_less [where n = "unat (tp_batch_size p)"]) simp_all
    have "wk_core env p qp buf S s3"
      by (rule core_extend [OF core got]) (use b1 cs same n m s3 in simp_all)
    moreover have "packets qp s3 = packets qp s @ [e]" using got cs by (simp add: s3 m packets_def wk_got_def)
    ultimately show ?thesis
      using b1 B warm tmp same by (auto simp: wk_mid_def s3 word_less_nat_alt word_le_nat_alt)
  qed
qed

lemma worker_count_ok:
  assumes "worker_count env p rpc s2 = y" and inv: "wk_inv env p qp buf S s" and got: "wk_got env qp rpc s s2 cs"
  shows "case y of Inl e \<Rightarrow> e = Signed_overflow | Inr s3 \<Rightarrow> wk_mid env p qp buf S s3"
proof (cases y)
  case (Inl e)
  have "flag_at (ws_m s2) (we_done_sending env) \<noteq> None" using inv got by (simp add: wk_inv_def wk_core_def wk_got_def)
  with worker_count_fault assms(1) Inl show ?thesis by auto
next
  case (Inr s3)
  with worker_count_mid [OF _ inv got] assms(1) show ?thesis by simp
qed

lemma worker_flush_ok:
  assumes "worker_flush env p ctx buf s = Some y" and set: "worker_setting env p ctx S qp"
    and mid: "wk_mid env p qp buf S s"
  shows "\<exists>s4. y = Inr s4 \<and> wk_inv env p qp buf S s4 \<and> ws_rolling_iter s4 = ws_rolling_iter s"
proof (cases "ws_batch_size s \<le> ws_batch_counter s")
  case False
  with assms(1) mid show ?thesis by (auto simp: worker_flush_def wk_mid_def wk_inv_def not_le)
next
  case True
  let ?bp = "batch_process_simpNF (we_nic env) ctx (ws_rpcs s) (ws_source_node_ids s) buf (ws_batch_size s)
    (tp_packet_size p) (ws_tmp_count s) (tp_id p) (ws_m s)"
  let ?cs = "drop (answered qp s) (packets qp s)"
  from mid True have core: "wk_core env p qp buf S s" and eq: "ws_batch_size s = ws_batch_counter s"
    by (auto simp: wk_mid_def)
  from assms(1) True obtain z where z: "?bp = Some z" by (cases ?bp) (auto simp: worker_flush_def)
  from core have B: "unat (ws_batch_counter s) \<le> length (packets qp s)" and qp: "qp_ok (qp_wq qp) (qp_cq qp) (ws_m s)"
    and tmp: "ws_tmp_count s = int (length (packets qp s))"
    and holds: "batch_holds (ws_rpcs s) (ws_source_node_ids s) ?cs"
    and ans: "answers buf S (tp_packet_size p) 0 (take (answered qp s) (packets qp s)) (posted (ws_m s) (qp_wq qp))"
    by (simp_all add: wk_core_def)
  from set have st: "ctx_sized S ctx" "load_qp ctx (tp_id p) = Inr qp" "nic_frame (we_nic env) (qp_wq qp) (qp_cq qp)"
    "0 < unat (tp_batch_size p)" by (simp_all add: worker_setting_def)
  have len: "0 + unat (ws_batch_counter s) = length ?cs" using B by (simp add: answered_def)
  from batch_loop_ok [OF st(1-3) holds B, of "unat (ws_batch_counter s)" 0 buf "tp_packet_size p" "ws_m s" z] z qp len
  obtain m1 es where m1: "z = Inr m1" "posts (qp_wq qp) (qp_cq qp) es (ws_m s) m1"
    "answers buf S (tp_packet_size p) (length (packets qp s) - unat (ws_batch_counter s)) ?cs es"
    by (auto simp: batch_process_simpNF_def eq tmp)
  let ?s4 = "s\<lparr>ws_m := m1, ws_batch_counter := 0\<rparr>"
  have pk: "packets qp ?s4 = packets qp s" using m1(2) by (simp add: packets_def posts_def)
  have "length (take (answered qp s) (packets qp s)) = answered qp s" by (simp add: answered_def)
  with answers_append [OF ans, of ?cs es] m1(3)
  have "answers buf S (tp_packet_size p) 0 (packets qp s) (posted (ws_m s) (qp_wq qp) @ es)"
    by (simp add: answered_def)
  moreover have "answered qp ?s4 = length (packets qp s)" unfolding answered_def pk by simp
  moreover have "posted m1 (qp_wq qp) = posted (ws_m s) (qp_wq qp) @ es" using m1(2) by (simp add: posts_def comp_def)
  moreover have "batch_holds (ws_rpcs s) (ws_source_node_ids s) []" using holds by (simp add: batch_holds_def)
  ultimately have "wk_inv env p qp buf S ?s4"
    using core m1(2) st(4) pk by (simp add: wk_inv_def wk_core_def posts_def)
  moreover have "y = Inr ?s4" using assms(1) True z m1(1) by (simp add: worker_flush_def)
  ultimately show ?thesis by simp
qed

subsection \<open>The turn and the loop\<close>

lemma wk_got_beat:
  assumes "wk_got env qp rpc s s1 cs" "heartbeat_frame (we_heartbeat env)"
  shows "wk_got env qp rpc s (worker_beat env s1) cs"
  using assms by (simp add: wk_got_def heartbeat_frame_def qp_ok_def worker_beat_def)

text \<open>The ways through the body of the loop.\<close>

lemma worker_iter_cases:
  assumes "worker_iter env p ctx buf s = Some y"
  obtains (recv) e where "worker_recv env p ctx s = Some (Inl e)" "y = Inl e"
  | (stop) rpc s1 where "worker_recv env p ctx s = Some (Inr (rpc, s1))" "payload_len rpc = 0xdead" "y = Inr (True, s1)"
  | (count) rpc s1 e where "worker_recv env p ctx s = Some (Inr (rpc, s1))" "payload_len rpc \<noteq> 0xdead"
      "worker_count env p rpc (worker_beat env s1) = Inl e" "y = Inl e"
  | (flush) rpc s1 s3 f where "worker_recv env p ctx s = Some (Inr (rpc, s1))" "payload_len rpc \<noteq> 0xdead"
      "worker_count env p rpc (worker_beat env s1) = Inr s3" "worker_flush env p ctx buf s3 = Some f"
      "y = bindR f (\<lambda>s4. bindR (c_longlong (ws_rolling_iter s4 + 1)) (\<lambda>r. Inr (False, s4\<lparr>ws_rolling_iter := r\<rparr>)))"
proof -
  from assms obtain z where z: "worker_recv env p ctx s = Some z" by (cases "worker_recv env p ctx s") (auto simp: worker_iter_def)
  show thesis
  proof (cases z)
    case (Inl e)
    with assms z show ?thesis by (intro recv) (auto simp: worker_iter_def)
  next
    case (Inr r)
    obtain rpc s1 where r: "r = (rpc, s1)" by (cases r)
    show ?thesis
    proof (cases "payload_len rpc = 0xdead")
      case True
      with assms z Inr r show ?thesis by (intro stop) (auto simp: worker_iter_def)
    next
      case False
      then show ?thesis
        using assms z Inr r
        by (cases "worker_count env p rpc (worker_beat env s1)")
          (auto simp: worker_iter_def bindE_def bindR_def split: option.splits sum.splits intro: count flush)
    qed
  qed
qed

text \<open>The turns that return.\<close>

lemma worker_iter_returned:
  assumes "worker_iter env p ctx buf s = Some (Inr (fin, s1))"
  obtains (stop) rpc where "worker_recv env p ctx s = Some (Inr (rpc, s1))" "payload_len rpc = 0xdead" "fin"
  | (go) rpc s2 s3 s4 where "worker_recv env p ctx s = Some (Inr (rpc, s2))" "payload_len rpc \<noteq> 0xdead" "\<not> fin"
      "worker_count env p rpc (worker_beat env s2) = Inr s3" "worker_flush env p ctx buf s3 = Some (Inr s4)"
      "s1 = s4\<lparr>ws_rolling_iter := ws_rolling_iter s4 + 1\<rparr>"
  using assms
  by (cases rule: worker_iter_cases) (auto simp: bindR_eq_Inr c_longlong_def split: if_splits dest!: sym [of "Inr _" "bindR _ _"])

lemma worker_iter_ok:
  assumes it: "worker_iter env p ctx buf s = Some y" and set: "worker_setting env p ctx S qp"
    and inv: "wk_inv env p qp buf S s"
  shows "case y of Inl e \<Rightarrow> e = Out_of_bounds \<or> e = Signed_overflow
    | Inr (fin, s1) \<Rightarrow> \<not> fin \<longrightarrow> wk_inv env p qp buf S s1"
proof -
  have hb: "heartbeat_frame (we_heartbeat env)" using set by (simp add: worker_setting_def)
  have cnt: "case worker_count env p rpc (worker_beat env s1) of Inl e \<Rightarrow> e = Signed_overflow
      | Inr s3 \<Rightarrow> wk_mid env p qp buf S s3"
    if "worker_recv env p ctx s = Some (Inr (rpc, s1))" "payload_len rpc \<noteq> 0xdead" for rpc s1
    using worker_recv_ok [OF that(1) set inv] that(2) worker_count_ok [OF refl inv wk_got_beat [OF _ hb]] by auto
  from it show ?thesis
  proof (cases rule: worker_iter_cases)
    case (recv e)
    with worker_recv_ok [OF recv(1) set inv] show ?thesis by simp
  next
    case (count rpc s1 e)
    with cnt [OF count(1,2)] show ?thesis by simp
  next
    case (flush rpc s1 s3 f)
    with cnt [OF flush(1,2)] have "wk_mid env p qp buf S s3" by simp
    from worker_flush_ok [OF flush(4) set this] obtain s4 where s4: "f = Inr s4" "wk_inv env p qp buf S s4" by blast
    have "wk_inv env p qp buf S (s4\<lparr>ws_rolling_iter := k\<rparr>)" for k
      using s4(2) by (simp add: wk_inv_def wk_core_def packets_def answered_def)
    with flush(5) s4(1) show ?thesis by (auto simp: c_longlong_def split: if_splits)
  qed simp
qed

text \<open>The states at the top of the loop.\<close>

inductive worker_reach ::
  "worker_env \<Rightarrow> thread_params \<Rightarrow> rpcNUMAContext \<Rightarrow> NIExposedBuffer \<Rightarrow> worker_state \<Rightarrow> worker_state \<Rightarrow> bool"
  for env :: worker_env and p :: thread_params and ctx :: rpcNUMAContext and buf :: NIExposedBuffer
    and s0 :: worker_state where
  enter: "worker_reach env p ctx buf s0 s0"
| turn: "worker_reach env p ctx buf s0 s \<Longrightarrow> worker_iter env p ctx buf s = Some (Inr (False, s1)) \<Longrightarrow>
    worker_reach env p ctx buf s0 s1"

lemma worker_reach_inv:
  assumes "worker_reach env p ctx buf s0 s" "worker_setting env p ctx S qp" "wk_inv env p qp buf S s0"
  shows "wk_inv env p qp buf S s"
  using assms(1) by induction (use assms(2,3) worker_iter_ok in fastforce)+

text \<open>A machine on which the thread can start: its queue pair and flags, with nothing done yet.\<close>

definition fresh_machine :: "worker_env \<Rightarrow> soNUMAQP_T \<Rightarrow> machine \<Rightarrow> bool" where
  "fresh_machine env qp m \<longleftrightarrow>
     qp_ok (qp_wq qp) (qp_cq qp) m \<and> posted m (qp_wq qp) = [] \<and> delivered m (qp_cq qp) = [] \<and>
     flag_at m (we_client_done env) \<noteq> None \<and> flag_at m (we_done_sending env) \<noteq> None"

lemma worker_start_inv:
  assumes "fresh_machine env qp m" "0 < unat (tp_batch_size p)"
  shows "wk_inv env p qp buf S (worker_start p m)"
  using assms by (simp add: fresh_machine_def wk_inv_def wk_core_def worker_start_def packets_def answered_def batch_holds_def)

lemma worker_loop_faults:
  assumes "worker_loop env p ctx buf s = Some y" "worker_setting env p ctx S qp" "wk_inv env p qp buf S s"
  shows "case y of Inl e \<Rightarrow> e = Out_of_bounds \<or> e = Signed_overflow | Inr _ \<Rightarrow> True"
proof -
  let ?P = "\<lambda>env p ctx buf s y. worker_setting env p ctx S qp \<longrightarrow> wk_inv env p qp buf S s \<longrightarrow>
    (case y of Inl e \<Rightarrow> e = Out_of_bounds \<or> e = Signed_overflow | Inr _ \<Rightarrow> True)"
  have "?P env p ctx buf s y"
  proof (rule worker_loop.raw_induct [where P = ?P, OF _ assms(1)], intro impI)
    fix f env p ctx buf s y
    assume IH: "\<And>env p ctx buf s y. f env p ctx buf s = Some y \<Longrightarrow> ?P env p ctx buf s y"
      and eq: "(case worker_iter env p ctx buf s of None \<Rightarrow> None | Some (Inl e) \<Rightarrow> Some (Inl e)
        | Some (Inr (fin, s1)) \<Rightarrow> if fin then Some (Inr s1) else f env p ctx buf s1) = Some y"
      and set: "worker_setting env p ctx S qp" and inv: "wk_inv env p qp buf S s"
    from eq obtain z where z: "worker_iter env p ctx buf s = Some z" by (cases "worker_iter env p ctx buf s") auto
    note ok = worker_iter_ok [OF z set inv]
    show "case y of Inl e \<Rightarrow> e = Out_of_bounds \<or> e = Signed_overflow | Inr _ \<Rightarrow> True"
    proof (cases z)
      case (Inl e)
      with eq z have "y = Inl e" by simp
      with ok Inl show ?thesis by simp
    next
      case (Inr r)
      obtain fin s1 where r: "r = (fin, s1)" by (cases r)
      show ?thesis
      proof (cases fin)
        case False
        with eq z Inr r have "f env p ctx buf s1 = Some y" by simp
        from IH [OF this] set ok Inr r False show ?thesis by simp
      qed (use eq z Inr r in auto)
    qed
  qed
  with assms(2,3) show ?thesis by blast
qed

subsection \<open>The whole thread\<close>

text \<open>The thread as its registrations followed by its loop.\<close>

definition own_qp :: "worker_env \<Rightarrow> thread_params \<Rightarrow> soNUMAQP_T" where
  "own_qp env p = \<lparr>qp_id = tp_id p, qp_wq = we_wq env, qp_cq = we_cq env\<rparr>"

definition own_ctx :: "worker_env \<Rightarrow> thread_params \<Rightarrow> rpcNUMAContext \<Rightarrow> rpcNUMAContext" where
  "own_ctx env p ctx =
     ctx\<lparr>rc_app_buffers := (rc_app_buffers ctx)[unat (tp_id p) := Some \<lparr>underlyingBuffer = we_lbuf env\<rparr>],
         rc_qps := (rc_qps ctx)[unat (tp_id p) := Some (own_qp env p)]\<rparr>"

definition own_machine :: "rpcNUMAContext \<Rightarrow> machine \<Rightarrow> machine" where
  "own_machine ctx m = register_done_sending (monitor_client_done (register_buffer Var_addr 1 (register_buffer Var_addr 0
     (register_buffer Var_addr 2 (register_buffer (Imm (get_lbuf_size ctx)) 3 m)))))"

definition placed :: "nat \<Rightarrow> worker_env \<Rightarrow> thread_params \<Rightarrow> rpcNUMAContext \<Rightarrow> machine \<Rightarrow> bool" where
  "placed S env p ctx m \<longleftrightarrow>
     ctx_sized S ctx \<and> unat (tp_id p) < length (rc_qps ctx) \<and> unat (tp_id p) < length (rc_app_buffers ctx) \<and>
     nic_frame (we_nic env) (we_wq env) (we_cq env) \<and> heartbeat_frame (we_heartbeat env) \<and> junk_ok env \<and> 0 < unat (tp_batch_size p) \<and>
     fresh_machine env (own_qp env p) m"

lemma own_qp_simps [simp]: "qp_wq (own_qp env p) = we_wq env" "qp_cq (own_qp env p) = we_cq env"
  by (simp_all add: own_qp_def)

lemma placedD:
  assumes "placed S env p ctx m"
  shows "worker_setting env p (own_ctx env p ctx) S (own_qp env p)"
    and "wk_inv env p (own_qp env p) buf S (worker_start p (own_machine ctx m))"
    and "fresh_machine env (own_qp env p) (own_machine ctx m)"
proof -
  from assms show set: "worker_setting env p (own_ctx env p ctx) S (own_qp env p)"
    by (simp add: placed_def worker_setting_def ctx_sized_def load_qp_def own_ctx_def)
  from assms show fresh: "fresh_machine env (own_qp env p) (own_machine ctx m)"
    by (simp add: placed_def fresh_machine_def qp_ok_def own_machine_def register_buffer_def register_done_sending_def
        monitor_client_done_def)
  from worker_start_inv [OF fresh] set show "wk_inv env p (own_qp env p) buf S (worker_start p (own_machine ctx m))"
    by (simp add: worker_setting_def)
qed

lemma run_worker_eq:
  assumes "placed S env p ctx m"
  shows "run_worker env p ctx m =
    bindE (worker_loop env p (own_ctx env p ctx) \<lparr>underlyingBuffer = we_lbuf env\<rparr> (worker_start p (own_machine ctx m)))
      (\<lambda>s. Some (Inr (own_ctx env p ctx, s\<lparr>ws_m := notify_done_to_zsim (we_heartbeat env (ws_m s))\<rparr>)))"
proof -
  have id: "(ucast (ucast (tp_id p) :: u64) :: u32) = tp_id p"
    by (rule bit_word_eqI) (auto simp: bit_simps)
  show ?thesis
    using assms id
    by (simp add: placed_def run_worker_def registerNewLocalBuffer_def registerNewSONUMAQP_def Let_def unat_ucast_u32
        own_ctx_def own_qp_def own_machine_def)
qed

lemma run_worker_safe:
  assumes "placed S env p ctx m" "run_worker env p ctx m = Some (Inl e)"
  shows "e = Out_of_bounds \<or> e = Signed_overflow"
proof -
  from assms(2) have "worker_loop env p (own_ctx env p ctx) \<lparr>underlyingBuffer = we_lbuf env\<rparr>
      (worker_start p (own_machine ctx m)) = Some (Inl e)"
    unfolding run_worker_eq [OF assms(1)] by (auto simp: bindE_def split: option.splits sum.splits)
  from worker_loop_faults [OF this placedD(1,2) [OF assms(1)]] show ?thesis by simp
qed

end
