(* ===== verification/Worker_Props.thy ===== *)
theory Worker_Props
  imports Worker
begin

unbundle bit_operations_syntax

text \<open>
  Progress of the worker thread, and its properties over the states its loop can reach: replies in
  order, bounds of the batch, the absence of faults, and two ways in which packets are lost.
\<close>

section \<open>Progress\<close>

lemma sendToNode_returns:
  assumes "nic_live nic (qp_wq qp)" "ctx_sized S ctx" "load_qp ctx sendQP = Inr qp" "nic_frame nic (qp_wq qp) (qp_cq qp)"
    and "qp_ok (qp_wq qp) (qp_cq qp) m"
  shows "\<exists>m1. sendToNode_zsim nic ctx b len dest sendQP data skip count m = Some (Inr m1)"
proof -
  from assms(5) obtain w where w: "wq_at m (qp_wq qp) = Some w" "wf_wq w" by (auto simp: qp_ok_def)
  from assms(1) obtain T where T: "now m \<le> T" "nic_releases nic (qp_wq qp) T" unfolding nic_live_def by blast
  show ?thesis
    unfolding sendToNode_zsim_eq [OF assms(2,3)]
    by (rule send_retry_returns [OF assms(4) T(2), of "write_slot b S len data skip count m" w]) (use w T(1) in auto)
qed

lemma batch_loop_returns:
  assumes "nic_live nic (qp_wq qp)" "ctx_sized S ctx" "load_qp ctx lid = Inr qp" "nic_frame nic (qp_wq qp) (qp_cq qp)"
  shows "qp_ok (qp_wq qp) (qp_cq qp) m \<Longrightarrow> batch_loop k i nic ctx rpcs ids buf bs len n lid m \<noteq> None"
proof (induction k arbitrary: i m)
  case (Suc k)
  show ?case
  proof (cases "i < length ids \<and> i < length rpcs")
    case True
    let ?count = "(word_of_int n - bs) + of_nat i :: u32"
    from sendToNode_returns [OF assms Suc.prems] obtain m1 where
      m1: "sendToNode_zsim nic ctx buf (ucast len) (ucast (ids ! i)) lid (payload (rpcs ! i)) True ?count m = Some (Inr m1)"
      by blast
    from Suc.prems obtain w where "wq_at m (qp_wq qp) = Some w" by (auto simp: qp_ok_def)
    from sendToNode_zsim_ok [OF m1 assms(2-4) Suc.prems this] have q1: "qp_ok (qp_wq qp) (qp_cq qp) m1"
      by (auto simp: posts_def)
    then obtain w1 where "wq_at m1 (qp_wq qp) = Some w1" by (auto simp: qp_ok_def)
    from do_Recv_zsim_ok [OF assms(3,4) q1 this, of "payload (rpcs ! i)" 64] obtain m2 where
      m2: "do_Recv_zsim nic ctx lid (payload (rpcs ! i)) 64 m1 = Inr m2" "qp_ok (qp_wq qp) (qp_cq qp) m2"
      by (auto simp: posts_def)
    with Suc.IH [OF m2(2)] True m1 show ?thesis by simp
  qed (auto simp: arr_get_def)
qed simp

lemma worker_flush_returns:
  assumes "nic_live (we_nic env) (qp_wq qp)" "worker_setting env p ctx S qp" "wk_mid env p qp buf S s"
  shows "worker_flush env p ctx buf s \<noteq> None"
proof -
  have "ctx_sized S ctx" "load_qp ctx (tp_id p) = Inr qp" "nic_frame (we_nic env) (qp_wq qp) (qp_cq qp)"
    using assms(2) by (simp_all add: worker_setting_def)
  moreover have "qp_ok (qp_wq qp) (qp_cq qp) (ws_m s)" using assms(3) by (simp add: wk_mid_def wk_core_def)
  ultimately have "batch_process_simpNF (we_nic env) ctx (ws_rpcs s) (ws_source_node_ids s) buf (ws_batch_size s)
      (tp_packet_size p) (ws_tmp_count s) (tp_id p) (ws_m s) \<noteq> None"
    unfolding batch_process_simpNF_def by (rule batch_loop_returns [OF assms(1)])
  then show ?thesis by (auto simp: worker_flush_def bindE_def split: option.splits sum.splits)
qed

lemma worker_iter_total:
  assumes set: "worker_setting env p ctx S qp" and inv: "wk_inv env p qp buf S s"
    and live: "nic_live (we_nic env) (qp_wq qp)" and rec: "worker_recv env p ctx s \<noteq> None"
  shows "worker_iter env p ctx buf s \<noteq> None"
proof -
  have hb: "heartbeat_frame (we_heartbeat env)" using set by (simp add: worker_setting_def)
  have "worker_flush env p ctx buf s3 \<noteq> None"
    if "worker_recv env p ctx s = Some (Inr (rpc, s1))" "payload_len rpc \<noteq> 0xdead"
      "worker_count env p rpc (worker_beat env s1) = Inr s3" for rpc s1 s3
  proof -
    from worker_recv_ok [OF that(1) set inv] that(2) obtain cs where "wk_got env qp rpc s s1 cs" by auto
    from worker_count_ok [OF that(3) inv wk_got_beat [OF this hb]] show ?thesis
      using worker_flush_returns [OF live set] by simp
  qed
  with rec show ?thesis
    by (fastforce simp: worker_iter_def bindE_def split: option.splits sum.splits)
qed

lemma batch_loop_one:
  assumes "nic_quiet nic (qp_wq qp) (qp_cq qp)" "ctx_sized S ctx" "load_qp ctx lid = Inr qp" "nic_frame nic (qp_wq qp) (qp_cq qp)"
    and "qp_ok (qp_wq qp) (qp_cq qp) m" "wq_at m (qp_wq qp) = Some w" "\<not> wqe_valid (head_slot w)"
    and "0 < length ids" "0 < length rpcs"
  shows "\<exists>m1. batch_loop 1 0 nic ctx rpcs ids buf bs len n lid m = Some (Inr m1) \<and> delivered m1 (qp_cq qp) = delivered m (qp_cq qp)"
proof -
  have wf: "wf_wq w" using assms(5,6) by (auto simp: qp_ok_def)
  let ?send = "sendToNode_zsim nic ctx buf (ucast len) (ucast (ids ! 0)) lid (payload (rpcs ! 0)) True
    ((word_of_int n - bs) + of_nat 0) m"
  obtain m1 where m1: "?send = Some (Inr m1)"
  proof -
    let ?m = "write_slot buf S (ucast len) (payload (rpcs ! 0)) True ((word_of_int n - bs) + of_nat 0) m"
    have w: "wq_at ?m (qp_wq qp) = Some w" using assms(6) by simp
    have "wq_at (nic_turn nic ?m) (qp_wq qp) = Some w" using nic_quiet_turn(1) [OF assms(1)] w by simp
    then have "?send = Some (send_result nic (qp_wq qp) (ucast (ce_ctx_id (md_ctx_struct (rc_msg_domain ctx))))
        (underlyingBuffer buf + of_nat ((unat ((word_of_int n - bs) + of_nat 0 :: u32) mod 256) * S)) (ucast len)
        (ucast (ucast (ids ! 0) :: u32)) ?m)"
      unfolding sendToNode_zsim_eq [OF assms(2,3)]
      by (subst send_retry.simps) (simp add: rmc_hw_send_eq [OF _ wf] assms(7) send_result_def)
    with \<open>wq_at (nic_turn nic ?m) (qp_wq qp) = Some w\<close> show thesis
      by (intro that) (simp add: send_result_def)
  qed
  from sendToNode_zsim_ok [OF m1 assms(2-6)] have p1: "qp_ok (qp_wq qp) (qp_cq qp) m1" "delivered m1 (qp_cq qp) = delivered m (qp_cq qp)"
    by (auto simp: posts_def)
  then obtain w1 where "wq_at m1 (qp_wq qp) = Some w1" by (auto simp: qp_ok_def)
  from do_Recv_zsim_ok [OF assms(3,4) p1(1) this, of "payload (rpcs ! 0)" 64] obtain m2 where
    "do_Recv_zsim nic ctx lid (payload (rpcs ! 0)) 64 m1 = Inr m2" "delivered m2 (qp_cq qp) = delivered m1 (qp_cq qp)"
    by (auto simp: posts_def)
  with m1 p1(2) assms(8,9) show ?thesis by simp
qed

lemma worker_iter_steps:
  assumes "worker_recv env p ctx s = Some (Inr (rpc, s1))" "payload_len rpc \<noteq> 0xdead"
    and "worker_count env p rpc (worker_beat env s1) = Inr s3"
    and "worker_flush env p ctx buf s3 = Some (Inr s4)" "c_longlong (ws_rolling_iter s4 + 1) = Inr r"
  shows "worker_iter env p ctx buf s = Some (Inr (False, s4\<lparr>ws_rolling_iter := r\<rparr>))"
  using assms by (simp add: worker_iter_def)

text \<open>A pending packet is received.\<close>

lemma worker_recv_ready:
  assumes set: "worker_setting env p ctx S qp" and inv: "wk_inv env p qp buf S s"
    and quiet: "nic_quiet (we_nic env) (qp_wq qp) (qp_cq qp)" "nic_flag_quiet (we_nic env) (we_client_done env)"
    and rdy: "recv_ready qp (we_client_done env) False n c (ws_m s)" "0 < n"
  shows "\<exists>rpc s1 e c1. worker_recv env p ctx s = Some (Inr (rpc, s1)) \<and> payload_len rpc \<noteq> 0xdead \<and> payload_len rpc \<noteq> 0xbeef \<and>
    wk_got env qp rpc s s1 [e] \<and> (ucast (cqe_tid e) :: u16) = ucast (fst (hd (cq_sends (n, c)))) \<and>
    recv_ready qp (we_client_done env) False (n - 1) c1 (ws_m s1)"
proof -
  let ?rj = "we_rpc env (nat (ws_rolling_iter s))" and ?B = "unat (ws_batch_counter s)"
  from set have st: "load_qp ctx (tp_id p) = Inr qp" "nic_frame (we_nic env) (qp_wq qp) (qp_cq qp)"
    and jk: "payload_len ?rj \<noteq> 0xdead" "payload_len ?rj \<noteq> 0xbeef" by (simp_all add: worker_setting_def junk_ok_def)
  note b = wk_inv_batch [OF inv]
  from inv have qp: "qp_ok (qp_wq qp) (qp_cq qp) (ws_m s)" and fl: "flag_at (ws_m s) (we_client_done env) \<noteq> None"
    by (simp_all add: wk_inv_def wk_core_def)
  from receive_quiet_cases [OF st(1) quiet rdy(1), of "we_ss env" ?rj] rdy(2) obtain rpc t m1 c1 where
    rcv: "receiveRPCRequest_zsim_l3fwd (we_nic env) (we_ss env) ?rj ctx (tp_id p) (we_client_done env) (ws_m s) =
      Some (Inr (rpc, Some t, m1))" and r1: "recv_ready qp (we_client_done env) False (n - 1) c1 m1"
    and pl: "payload_len rpc = payload_len ?rj" "senders_nid rpc = ucast (fst (hd (cq_sends (n, c))))"
    by auto
  from receive_ok [OF rcv st qp fl] obtain e where k: "keeps (qp_wq qp) (qp_cq qp) (ws_m s) m1"
    and e: "delivered m1 (qp_cq qp) = delivered (ws_m s) (qp_cq qp) @ [e]" "t = ucast (cqe_tid e)"
      "rpc = ?rj\<lparr>payload := cqe_recv_buf_addr e, senders_nid := ucast (cqe_tid e)\<rparr>" by auto
  let ?s1 = "s\<lparr>ws_m := m1, ws_source_node_ids := (ws_source_node_ids s)[?B := ucast (ucast (cqe_tid e) :: u16)],
    ws_rpcs := (ws_rpcs s)[?B := rpc]\<rparr>"
  have "ws_source_node_ids s ! ?B AND NOT 0xFFFF = 0" using b(1,2,5) by simp
  then have "worker_recv env p ctx s = Some (Inr (rpc, ?s1))"
    using rcv b(1,2) e(2) by (simp add: worker_recv_def Let_def)
  moreover have "wk_got env qp rpc s ?s1 [e]" using wk_got_one [OF inv k e(1), of rpc] e(3) jk by simp
  moreover have "(ucast (cqe_tid e) :: u16) = ucast (fst (hd (cq_sends (n, c))))" using pl(2) e(3) by simp
  moreover have "recv_ready qp (we_client_done env) False (n - 1) c1 (ws_m ?s1)" using r1 by simp
  ultimately show ?thesis using pl(1) jk by metis
qed

text \<open>During the warm-up one turn receives and answers one packet.\<close>

lemma worker_turn_answers:
  assumes set: "worker_setting env p ctx S qp" and inv: "wk_inv env p qp buf S s"
    and quiet: "nic_quiet (we_nic env) (qp_wq qp) (qp_cq qp)" "nic_flag_quiet (we_nic env) (we_client_done env)"
    and rdy: "recv_ready qp (we_client_done env) False n c (ws_m s)" "0 < n"
    and warm: "ws_tmp_count s < 1010" "ws_rolling_iter s < 9223372036854775807"
  shows "\<exists>s1 e. worker_iter env p ctx buf s = Some (Inr (False, s1)) \<and> packets qp s1 = packets qp s @ [e] \<and>
    (ucast (cqe_tid e) :: u16) = ucast (fst (hd (cq_sends (n, c)))) \<and> ws_batch_counter s1 = 0 \<and> wk_inv env p qp buf S s1"
proof -
  from set have st: "ctx_sized S ctx" "load_qp ctx (tp_id p) = Inr qp" "nic_frame (we_nic env) (qp_wq qp) (qp_cq qp)"
    and hb: "heartbeat_frame (we_heartbeat env)" by (simp_all add: worker_setting_def)
  from inv have B0: "ws_batch_counter s = 0" and tmp: "0 \<le> ws_tmp_count s"
    and fl: "flag_at (ws_m s) (we_done_sending env) \<noteq> None" using warm(1) by (simp_all add: wk_inv_def wk_core_def)
  from worker_recv_ready [OF set inv quiet rdy] obtain rpc s1 e c1 where
    recv: "worker_recv env p ctx s = Some (Inr (rpc, s1))" "payload_len rpc \<noteq> 0xdead" "payload_len rpc \<noteq> 0xbeef" and
    got: "wk_got env qp rpc s s1 [e]" and e: "(ucast (cqe_tid e) :: u16) = ucast (fst (hd (cq_sends (n, c))))" and
    r1: "recv_ready qp (we_client_done env) False (n - 1) c1 (ws_m s1)" by blast
  let ?n = "ws_tmp_count s + 1" and ?s2 = "worker_beat env s1"
  let ?m3 = "timestamp ?n (timestamp ?n (timestamp ?n (timestamp ?n (ws_m ?s2))))"
  let ?s3 = "?s2\<lparr>ws_m := ?m3, ws_batch_size := 1, ws_batch_counter := 1, ws_tmp_count := ?n\<rparr>"
  note g = wk_got_beat [OF got hb, unfolded wk_got_def]
  have len: "0 < length (ws_rpcs ?s2)" "0 < length (ws_source_node_ids ?s2)"
    using g wk_inv_batch(1) [OF inv] B0 by (auto simp: batch_holds_def)
  have "flag_at (ws_m ?s2) (we_done_sending env) \<noteq> None" using g fl by blast
  then have cnt: "worker_count env p rpc ?s2 = Inr ?s3"
    using warm(1) tmp recv(3) B0 g by (auto simp: worker_count_def load_flag_def Let_def)
  have "wq_at (ws_m ?s2) = wq_at (ws_m s1)" using hb by (simp add: worker_beat_def heartbeat_frame_def)
  with r1 obtain w where w: "wq_at ?m3 (qp_wq qp) = Some w" "\<not> wqe_valid (head_slot w)" by (auto simp: recv_ready_def)
  have q3: "qp_ok (qp_wq qp) (qp_cq qp) ?m3" using g by (simp add: qp_ok_def)
  from batch_loop_one [OF quiet(1) st q3 w len(2,1), of buf 1 "tp_packet_size p" ?n]
  obtain m4 where m4: "batch_loop 1 0 (we_nic env) ctx (ws_rpcs ?s2) (ws_source_node_ids ?s2) buf 1 (tp_packet_size p) ?n (tp_id p) ?m3
      = Some (Inr m4)" "delivered m4 (qp_cq qp) = delivered ?m3 (qp_cq qp)" by auto
  let ?s4 = "?s3\<lparr>ws_m := m4, ws_batch_counter := 0\<rparr>"
  let ?s5 = "?s4\<lparr>ws_rolling_iter := ws_rolling_iter s + 1\<rparr>"
  have flush: "worker_flush env p ctx buf ?s3 = Some (Inr ?s4)"
    using m4(1) by (simp add: worker_flush_def batch_process_simpNF_def del: batch_loop.simps)
  have it: "worker_iter env p ctx buf s = Some (Inr (False, ?s5))"
    using worker_iter_steps [OF recv(1,2) cnt flush] warm(2) g by (simp add: c_longlong_def)
  have "wk_inv env p qp buf S ?s5" using worker_iter_ok [OF it set inv] by simp
  moreover have "packets qp ?s5 = packets qp s @ [e]" using m4(2) g by (simp add: packets_def)
  ultimately show ?thesis using it e by (intro exI [of _ ?s5] exI [of _ e]) simp
qed

section \<open>Properties\<close>

text \<open>A thread with one packet waiting for it.\<close>

definition demo_env :: worker_env where
  "demo_env = \<lparr>we_nic = no_nic, we_ss = blank_ss, we_rpc = \<lambda>_. blank_rpc, we_heartbeat = \<lambda>m. m, we_lbuf = 0x8000,
     we_wq = 0x1000, we_cq = 0x2000, we_client_done = 0x3000, we_done_sending = 0x3008\<rparr>"

definition demo_params :: "u32 \<Rightarrow> thread_params" where
  "demo_params n = \<lparr>tp_id = 0, tp_start_core = 3, tp_local_tid = 0, tp_base_port_index = -1, tp_num_server_ports = -1,
     tp_num_client_ports = -1, tp_update_percentage = 0, tp_postlist = -1, tp_node_cnt = 2, tp_sonuma_nid = 1,
     tp_qps_per_node = 1, tp_num_serv_threads = 1, tp_num_client_threads = 1, tp_packet_size = 512,
     tp_batch_size = n, tp_num_keys = 0, tp_num_hash_buckets = 0, tp_log_capacity_bytes = 0, tp_run_debug_mode = 0\<rparr>"

definition demo_machine :: machine where
  "demo_machine = (cq_demo idle_wq one_send_cq)\<lparr>flag_at := [0x3000 \<mapsto> False, 0x3008 \<mapsto> False]\<rparr>"

lemma demo_setting [simp]: "0 < unat n \<Longrightarrow> worker_setting demo_env (demo_params n) demo_ctx 512 demo_qp"
  by (simp add: worker_setting_def demo_env_def demo_params_def heartbeat_frame_def junk_ok_def blank_rpc_def)

lemma demo_fresh [simp]: "fresh_machine demo_env demo_qp demo_machine"
  using one_send_cq_inv
  by (simp add: fresh_machine_def demo_env_def demo_machine_def qp_ok_def cq_demo_def wq_demo_def)

lemma demo_ready: "recv_ready demo_qp (we_client_done demo_env) False 1 one_send_cq demo_machine"
  using demo_recv_ready by (simp add: recv_ready_def demo_env_def demo_machine_def del: cq_inv.simps)

lemma demo_turn:
  "\<exists>s1 e. worker_iter demo_env (demo_params 4) demo_ctx \<lparr>underlyingBuffer = 0x8000\<rparr>
     (worker_start (demo_params 4) demo_machine) = Some (Inr (False, s1)) \<and> packets demo_qp s1 = [e] \<and> ws_batch_counter s1 = 0"
proof -
  let ?s = "worker_start (demo_params 4) demo_machine"
  have p: "packets demo_qp ?s = []" by (simp add: packets_def worker_start_def demo_machine_def cq_demo_def wq_demo_def)
  have b: "0 < unat (tp_batch_size (demo_params 4))" by (simp add: demo_params_def)
  have i: "wk_inv demo_env (demo_params 4) demo_qp \<lparr>underlyingBuffer = 0x8000\<rparr> 512 ?s"
    by (rule worker_start_inv [OF demo_fresh b])
  have q: "nic_quiet (we_nic demo_env) (qp_wq demo_qp) (qp_cq demo_qp)"
    "nic_flag_quiet (we_nic demo_env) (we_client_done demo_env)" by (simp_all add: demo_env_def)
  have r: "recv_ready demo_qp (we_client_done demo_env) False 1 one_send_cq (ws_m ?s)"
    using demo_ready by (simp add: worker_start_def)
  have t: "ws_tmp_count ?s < 1010" "ws_rolling_iter ?s < 9223372036854775807" by (simp_all add: worker_start_def)
  have set: "worker_setting demo_env (demo_params 4) demo_ctx 512 demo_qp" by (rule demo_setting) simp
  from worker_turn_answers [OF set i q r _ t] p show ?thesis by fastforce
qed

text \<open>
  C4. End to end: whatever the NIC does that leaves the application's cursors alone, at every turn
  of the loop the worker has answered exactly the packets it received except the last
  \<open>batch_counter\<close> ones, each once, in the order of arrival, to the sender the NIC named (cut to
  16 bits), packet \<open>j\<close> from slot \<open>j\<close> modulo 256; and the receive buffers it gave back are
  buffers of answered packets, in order and without repetition. (A NIC's uninitialised payload
  length must not collide with the markers, and the batch size must not be zero.)
\<close>

theorem worker_replies_in_order:
  assumes "worker_setting env p ctx S qp" and "fresh_machine env qp m"
    and "worker_reach env p ctx buf (worker_start p m) s"
    and "n = length (packets qp s) - unat (ws_batch_counter s)"
  shows "unat (ws_batch_counter s) \<le> length (packets qp s) \<and> ws_tmp_count s = int (length (packets qp s)) \<and>
    list_all2 (reply_to buf S (tp_packet_size p)) (enumerate 0 (take n (packets qp s)))
      (sends (posted (ws_m s) (qp_wq qp))) \<and>
    subseq (map wqe_buf_addr (recvs (posted (ws_m s) (qp_wq qp))))
      (map cqe_recv_buf_addr (take n (packets qp s)))"
proof -
  have "0 < unat (tp_batch_size p)" using assms(1) by (simp add: worker_setting_def)
  from worker_reach_inv [OF assms(3,1) worker_start_inv [OF assms(2) this]]
  show ?thesis using assms(4) by (simp add: wk_inv_def wk_core_def answers_def answered_def)
qed

theorem worker_replies_in_order_witness:
  "\<exists>s e w. worker_reach demo_env (demo_params 4) demo_ctx \<lparr>underlyingBuffer = 0x8000\<rparr>
     (worker_start (demo_params 4) demo_machine) s \<and> packets demo_qp s = [e] \<and>
     sends (posted (ws_m s) 0x1000) = [w] \<and> reply_to \<lparr>underlyingBuffer = 0x8000\<rparr> 512 512 (0, e) w"
proof -
  from demo_turn obtain s e where it: "worker_iter demo_env (demo_params 4) demo_ctx \<lparr>underlyingBuffer = 0x8000\<rparr>
     (worker_start (demo_params 4) demo_machine) = Some (Inr (False, s))" and s: "packets demo_qp s = [e]" "ws_batch_counter s = 0"
    by blast
  note r = worker_reach.turn [OF worker_reach.enter it]
  have set: "worker_setting demo_env (demo_params 4) demo_ctx 512 demo_qp" by (rule demo_setting) simp
  have "tp_packet_size (demo_params 4) = 512" by (simp add: demo_params_def)
  with worker_replies_in_order [OF set demo_fresh r refl] s
  have "list_all2 (reply_to \<lparr>underlyingBuffer = 0x8000\<rparr> 512 512) [(0, e)] (sends (posted (ws_m s) 0x1000))" by simp
  then obtain w where "sends (posted (ws_m s) 0x1000) = [w]" "reply_to \<lparr>underlyingBuffer = 0x8000\<rparr> 512 512 (0, e) w"
    by (auto simp: list_all2_Cons1)
  with r s(1) show ?thesis by blast
qed

text \<open>
  C19. The batch is never overfull: at every turn the counter is below the batch size, so the
  stores to the two arrays are in bounds and the \<open>WARNING\<close> branch is dead; during the first 1010
  packets there is no batching; and the waiting packets are in the arrays, with their buffers and
  senders.
\<close>

theorem worker_batch_bounded:
  assumes "worker_setting env p ctx S qp" and "fresh_machine env qp m"
    and "worker_reach env p ctx buf (worker_start p m) s"
  shows "ws_batch_counter s < tp_batch_size p \<and>
    length (ws_rpcs s) = unat (tp_batch_size p) \<and> length (ws_source_node_ids s) = unat (tp_batch_size p) \<and>
    (length (packets qp s) < 1010 \<longrightarrow> ws_batch_counter s = 0) \<and>
    batch_holds (ws_rpcs s) (ws_source_node_ids s)
      (drop (length (packets qp s) - unat (ws_batch_counter s)) (packets qp s))"
proof -
  have "0 < unat (tp_batch_size p)" using assms(1) by (simp add: worker_setting_def)
  from worker_reach_inv [OF assms(3,1) worker_start_inv [OF assms(2) this]]
  show ?thesis by (simp add: wk_inv_def wk_core_def answered_def word_less_nat_alt batch_holds_def)
qed

theorem worker_batch_bounded_witness:
  "\<exists>s. worker_reach demo_env (demo_params 4) demo_ctx \<lparr>underlyingBuffer = 0x8000\<rparr>
     (worker_start (demo_params 4) demo_machine) s \<and> packets demo_qp s \<noteq> [] \<and> ws_batch_counter s < 4"
proof -
  from demo_turn obtain s e where it: "worker_iter demo_env (demo_params 4) demo_ctx \<lparr>underlyingBuffer = 0x8000\<rparr>
     (worker_start (demo_params 4) demo_machine) = Some (Inr (False, s))" and s: "packets demo_qp s = [e]" by blast
  note r = worker_reach.turn [OF worker_reach.enter it]
  have set: "worker_setting demo_env (demo_params 4) demo_ctx 512 demo_qp" by (rule demo_setting) simp
  from worker_batch_bounded [OF set demo_fresh r] have "ws_batch_counter s < 4" by (simp add: demo_params_def)
  with r s show ?thesis by auto
qed

text \<open>
  C9. In any reachable turn during the warm-up, with a packet pending, a free work-queue head slot
  and a quiet NIC, one turn of the loop terminates, receives the oldest packet and answers it:
  afterwards no packet waits.
\<close>

theorem worker_warmup_progress:
  assumes "worker_setting env p ctx S qp" and "fresh_machine env qp m"
    and "worker_reach env p ctx buf (worker_start p m) s"
    and "nic_quiet (we_nic env) (qp_wq qp) (qp_cq qp)" and "nic_flag_quiet (we_nic env) (we_client_done env)"
    and "recv_ready qp (we_client_done env) False n c (ws_m s)" and "0 < n"
    and "length (packets qp s) < 1010" and "ws_rolling_iter s < 9223372036854775807"
  shows "\<exists>s1 e. worker_iter env p ctx buf s = Some (Inr (False, s1)) \<and> packets qp s1 = packets qp s @ [e] \<and>
    (ucast (cqe_tid e) :: u16) = ucast (fst (hd (cq_sends (n, c)))) \<and>
    list_all2 (reply_to buf S (tp_packet_size p)) (enumerate 0 (packets qp s1)) (sends (posted (ws_m s1) (qp_wq qp)))"
proof -
  have "0 < unat (tp_batch_size p)" using assms(1) by (simp add: worker_setting_def)
  note inv = worker_reach_inv [OF assms(3,1) worker_start_inv [OF assms(2) this]]
  then have t: "ws_tmp_count s < 1010" using assms(8) by (simp add: wk_inv_def wk_core_def)
  from worker_turn_answers [OF assms(1) inv assms(4-7) t assms(9)] obtain s1 e where
    "worker_iter env p ctx buf s = Some (Inr (False, s1))" "packets qp s1 = packets qp s @ [e]"
    "(ucast (cqe_tid e) :: u16) = ucast (fst (hd (cq_sends (n, c))))" "ws_batch_counter s1 = 0"
    "wk_inv env p qp buf S s1" by blast
  moreover from this(4,5) have "list_all2 (reply_to buf S (tp_packet_size p)) (enumerate 0 (packets qp s1))
      (sends (posted (ws_m s1) (qp_wq qp)))" by (simp add: wk_inv_def wk_core_def answers_def answered_def)
  ultimately show ?thesis by blast
qed

theorem worker_warmup_progress_witness:
  "\<exists>s1 e. worker_iter demo_env (demo_params 4) demo_ctx \<lparr>underlyingBuffer = 0x8000\<rparr>
     (worker_start (demo_params 4) demo_machine) = Some (Inr (False, s1)) \<and> packets demo_qp s1 = [e] \<and>
     (ucast (cqe_tid e) :: u16) = 5"
proof -
  let ?s = "worker_start (demo_params 4) demo_machine"
  have set: "worker_setting demo_env (demo_params 4) demo_ctx 512 demo_qp" by (rule demo_setting) simp
  have q: "nic_quiet (we_nic demo_env) (qp_wq demo_qp) (qp_cq demo_qp)"
    "nic_flag_quiet (we_nic demo_env) (we_client_done demo_env)" by (simp_all add: demo_env_def)
  have r: "recv_ready demo_qp (we_client_done demo_env) False 1 one_send_cq (ws_m ?s)"
    using demo_ready by (simp add: worker_start_def)
  have p: "packets demo_qp ?s = []" by (simp add: packets_def worker_start_def demo_machine_def cq_demo_def wq_demo_def)
  have t: "length (packets demo_qp ?s) < 1010" by (simp add: p)
  have i: "ws_rolling_iter ?s < 9223372036854775807" by (simp add: worker_start_def)
  have "cq_sends (1, one_send_cq) = [(5, 0xA000)]" unfolding cq_sends_pending one_send_cq_pending by simp
  with worker_warmup_progress [OF set demo_fresh worker_reach.enter q r _ t i] p show ?thesis by fastforce
qed



text \<open>
  A turn of the loop can only hang in its receive: if the NIC keeps completing the entry in
  the work-queue head slot and the receive returns, the turn returns, however many replies it
  sends.
\<close>

theorem worker_iter_returns:
  assumes "worker_setting env p ctx S qp" and "fresh_machine env qp m"
    and "worker_reach env p ctx buf (worker_start p m) s"
    and "nic_live (we_nic env) (qp_wq qp)" and "worker_recv env p ctx s \<noteq> None"
  shows "worker_iter env p ctx buf s \<noteq> None"
proof -
  have bs: "0 < unat (tp_batch_size p)" using assms(1) by (simp add: worker_setting_def)
  from worker_reach_inv [OF assms(3,1) worker_start_inv [OF assms(2) bs]] show ?thesis
    by (rule worker_iter_total [OF assms(1) _ assms(4,5)])
qed

text \<open>A NIC that completes every posted entry at every turn.\<close>

definition sweep_nic :: nic where
  "sweep_nic t m = m\<lparr>wq_at := (\<lambda>p. map_option (\<lambda>w. w\<lparr>wq_q := map (\<lambda>e. e\<lparr>wqe_valid := False\<rparr>) (wq_q w)\<rparr>) (wq_at m p))\<rparr>"

lemma sweep_nic_simps [simp]: "nic_frame sweep_nic wqp cqp" "nic_live sweep_nic wqp" "nic_flag_quiet sweep_nic p"
  by (auto simp: nic_frame_def qp_frame_def nic_live_def nic_releases_def nic_flag_quiet_def sweep_nic_def wf_wq_def)

definition sweep_env :: worker_env where
  "sweep_env = demo_env\<lparr>we_nic := sweep_nic\<rparr>"

lemma sweep_recv: "worker_recv sweep_env (demo_params 4) demo_ctx (worker_start (demo_params 4) demo_machine) \<noteq> None"
proof -
  let ?m = "outer_start sweep_nic 0 demo_machine"
  obtain w where w: "wq_at ?m 0x1000 = Some w" "wf_wq w"
    by (auto simp: outer_start_def nic_turn_def sweep_nic_def demo_machine_def cq_demo_def idle_wq_def wf_wq_def)
  have c: "cq_at ?m 0x2000 = Some one_send_cq" "wf_cq one_send_cq"
    using one_send_cq_inv
    by (simp_all add: outer_start_def nic_turn_def sweep_nic_def demo_machine_def cq_demo_def)
  have m: "wq_at demo_machine 0x1000 = Some idle_wq" "cq_at demo_machine 0x2000 = Some one_send_cq"
    by (simp_all add: demo_machine_def)
  have e: "cq_q one_send_cq ! 0 = \<lparr>cqe_SR = True, cqe_valid = True, cqe_success = 0x7F, cqe_tid = 5, cqe_recv_buf_addr = 0xA000\<rparr>"
    "cq_tail one_send_cq = 0" "cq_SR one_send_cq" "0 < length (cq_q one_send_cq)"
    by (simp_all add: one_send_cq_def idle_cq_def)
  obtain r m1 where p: "rmc_check_cq sweep_nic blank_ss 0x1000 0x2000 demo_machine = Some (Inr (r, m1))"
    "ss_op r = RMC_INCOMING_SEND"
    using check_cq_fetch_eq [OF w c] c(1) e
    by (simp add: rmc_check_cq_unfold [OF m] check_cq_outer.simps [of sweep_nic "0x1000"]
        check_cq_inner.simps [of sweep_nic "0x1000"] check_cq_consume_def Let_def load_cq_def)
  have "flag_at m1 0x3000 = Some False"
    using rmc_check_cq_flag [OF p(1), of "0x3000"] by (simp add: demo_machine_def)
  moreover have "recv_poll 500 sweep_nic blank_ss demo_qp 0x3000 demo_machine = Some (Inr (Some r, m1))"
    using p by (simp add: numeral_eq_Suc)
  ultimately have "receiveRPCRequest_zsim_l3fwd sweep_nic blank_ss blank_rpc demo_ctx 0 0x3000 demo_machine \<noteq> None"
    by (simp add: receiveRPCRequest_zsim_l3fwd_def load_flag_def del: recv_poll.simps)
  then show ?thesis
    by (auto simp: worker_recv_def sweep_env_def demo_env_def worker_start_def demo_params_def bindE_def Let_def
        split: option.splits sum.splits)
qed

theorem worker_iter_returns_witness:
  "worker_iter sweep_env (demo_params 4) demo_ctx \<lparr>underlyingBuffer = 0x8000\<rparr>
     (worker_start (demo_params 4) demo_machine) \<noteq> None"
proof -
  have "worker_setting demo_env (demo_params 4) demo_ctx 512 demo_qp" by (rule demo_setting) simp
  then have set: "worker_setting sweep_env (demo_params 4) demo_ctx 512 demo_qp"
    by (simp add: worker_setting_def sweep_env_def junk_ok_def)
  have f: "fresh_machine sweep_env demo_qp demo_machine"
    using demo_fresh by (simp add: fresh_machine_def sweep_env_def)
  have l: "nic_live (we_nic sweep_env) (qp_wq demo_qp)" by (simp add: sweep_env_def)
  show ?thesis by (rule worker_iter_returns [OF set f worker_reach.enter l sweep_recv])
qed

text \<open>
  A batch size of zero is not rejected: the first receive that returns makes the thread write
  outside its empty arrays.
\<close>

theorem worker_zero_batch:
  assumes "tp_batch_size p = 0" and "receiveRPCRequest_zsim_l3fwd (we_nic env) (we_ss env) (we_rpc env 0) ctx (tp_id p)
    (we_client_done env) m = Some (Inr r)"
  shows "worker_iter env p ctx buf (worker_start p m) = Some (Inl Out_of_bounds)"
  using assms
  by (cases r) (auto simp: worker_iter_def worker_recv_def worker_start_def Let_def arr_get_def arr_set_def split: option.splits)

theorem worker_zero_batch_witness:
  "worker_iter demo_env (demo_params 0) demo_ctx \<lparr>underlyingBuffer = 0x8000\<rparr> (worker_start (demo_params 0) demo_machine)
     = Some (Inl Out_of_bounds)"
proof -
  have q: "nic_quiet (we_nic demo_env) (qp_wq demo_qp) (qp_cq demo_qp)"
    "nic_flag_quiet (we_nic demo_env) (we_client_done demo_env)" by (simp_all add: demo_env_def)
  have i: "tp_id (demo_params 0) = 0" "tp_batch_size (demo_params 0) = 0" by (simp_all add: demo_params_def)
  from receive_quiet_cases [OF demo_ctx_simps(2) q demo_ready, of "we_ss demo_env" "we_rpc demo_env 0"]
  obtain r where "receiveRPCRequest_zsim_l3fwd (we_nic demo_env) (we_ss demo_env) (we_rpc demo_env 0) demo_ctx
      (tp_id (demo_params 0)) (we_client_done demo_env) demo_machine = Some (Inr r)" unfolding i by blast
  from worker_zero_batch [OF i(2) this] show ?thesis .
qed

text \<open>
  C37. The payload length a receive leaves uninitialised decides whether a packet is answered: if
  it happens to hold 0xbeef, the packet is taken off the completion queue but neither counted nor
  answered.
\<close>

theorem worker_marker_loses_packet:
  assumes "payload_len (we_rpc env 0) = 0xbeef" and "0 < unat (tp_batch_size p)" and "ws_rolling_iter s = 0"
    and "ws_batch_counter s = 0" and "length (ws_rpcs s) = unat (tp_batch_size p)"
    and "length (ws_source_node_ids s) = unat (tp_batch_size p)" and "heartbeat_frame (we_heartbeat env)"
    and "load_qp ctx (tp_id p) = Inr qp" and "nic_quiet (we_nic env) (qp_wq qp) (qp_cq qp)"
    and "nic_flag_quiet (we_nic env) (we_client_done env)" and "nic_frame (we_nic env) (qp_wq qp) (qp_cq qp)"
    and "recv_ready qp (we_client_done env) False n c (ws_m s)" and "0 < n"
  shows "\<exists>s1 c1. worker_iter env p ctx buf s = Some (Inr (False, s1)) \<and> ws_tmp_count s1 = ws_tmp_count s \<and>
    posted (ws_m s1) (qp_wq qp) = posted (ws_m s) (qp_wq qp) \<and> cq_at (ws_m s1) (qp_cq qp) = Some c1 \<and>
    cq_sends (n - 1, c1) = tl (cq_sends (n, c))"
proof -
  from receive_quiet_cases [OF assms(8-10,12), of "we_ss env" "we_rpc env 0"] assms(13) obtain rpc t m1 c1 where
    rcv: "receiveRPCRequest_zsim_l3fwd (we_nic env) (we_ss env) (we_rpc env 0) ctx (tp_id p) (we_client_done env) (ws_m s) =
      Some (Inr (rpc, Some t, m1))" and r1: "recv_ready qp (we_client_done env) False (n - 1) c1 m1"
    and sq: "cq_sends (n - 1, c1) = tl (cq_sends (n, c))" and pl: "payload_len rpc = 0xbeef"
    using assms(1) by auto
  from assms(12) have qp: "qp_ok (qp_wq qp) (qp_cq qp) (ws_m s)" "flag_at (ws_m s) (we_client_done env) \<noteq> None"
    by (auto simp: recv_ready_def qp_ok_def)
  from receive_ok [OF rcv assms(8,11) qp] have po: "posted m1 (qp_wq qp) = posted (ws_m s) (qp_wq qp)" by (simp add: keeps_def)
  let ?ids = "(ws_source_node_ids s)[0 := (ws_source_node_ids s ! 0 AND NOT 0xFFFF) OR ucast t]"
  let ?s1 = "s\<lparr>ws_m := m1, ws_source_node_ids := ?ids, ws_rpcs := (ws_rpcs s)[0 := rpc]\<rparr>"
  let ?s3 = "?s1\<lparr>ws_m := we_heartbeat env m1, ws_batch_size := 0\<rparr>"
  have recv: "worker_recv env p ctx s = Some (Inr (rpc, ?s1))"
    using rcv assms(2-6) by (simp add: worker_recv_def Let_def)
  have cnt: "worker_count env p rpc (worker_beat env ?s1) = Inr ?s3"
    using pl assms(3,4) by (simp add: worker_count_def worker_beat_def)
  have flush: "worker_flush env p ctx buf ?s3 = Some (Inr (?s3\<lparr>ws_batch_counter := 0\<rparr>))"
    using assms(4) by (simp add: worker_flush_def batch_process_simpNF_def)
  have "worker_iter env p ctx buf s = Some (Inr (False, ?s3\<lparr>ws_batch_counter := 0, ws_rolling_iter := 1\<rparr>))"
    using worker_iter_steps [OF recv _ cnt flush, of 1] pl assms(3) by (simp add: c_longlong_def)
  moreover have "posted (we_heartbeat env m1) (qp_wq qp) = posted (ws_m s) (qp_wq qp)" "cq_at (we_heartbeat env m1) (qp_cq qp) = Some c1"
    using assms(7) po r1 by (simp_all add: heartbeat_frame_def recv_ready_def)
  ultimately show ?thesis using sq by (intro exI [of _ "?s3\<lparr>ws_batch_counter := 0, ws_rolling_iter := 1\<rparr>"] exI [of _ c1]) simp
qed

theorem worker_marker_loses_packet_witness:
  "\<exists>s1. worker_iter (demo_env\<lparr>we_rpc := \<lambda>_. blank_rpc\<lparr>payload_len := 0xbeef\<rparr>\<rparr>) (demo_params 4) demo_ctx
     \<lparr>underlyingBuffer = 0x8000\<rparr> (worker_start (demo_params 4) demo_machine) = Some (Inr (False, s1)) \<and>
     ws_tmp_count s1 = 0 \<and> posted (ws_m s1) 0x1000 = []"
proof -
  let ?env = "demo_env\<lparr>we_rpc := \<lambda>_. blank_rpc\<lparr>payload_len := 0xbeef\<rparr>\<rparr>" and ?s = "worker_start (demo_params 4) demo_machine"
  have h: "payload_len (we_rpc ?env 0) = 0xbeef" "0 < unat (tp_batch_size (demo_params 4))" "ws_rolling_iter ?s = 0"
    "ws_batch_counter ?s = 0" "length (ws_rpcs ?s) = unat (tp_batch_size (demo_params 4))"
    "length (ws_source_node_ids ?s) = unat (tp_batch_size (demo_params 4))" "heartbeat_frame (we_heartbeat ?env)"
    "load_qp demo_ctx (tp_id (demo_params 4)) = Inr demo_qp"
    by (simp_all add: worker_start_def demo_params_def demo_env_def heartbeat_frame_def)
  have q: "nic_quiet (we_nic ?env) (qp_wq demo_qp) (qp_cq demo_qp)" "nic_flag_quiet (we_nic ?env) (we_client_done ?env)"
    "nic_frame (we_nic ?env) (qp_wq demo_qp) (qp_cq demo_qp)" by (simp_all add: demo_env_def)
  have r: "recv_ready demo_qp (we_client_done ?env) False 1 one_send_cq (ws_m ?s)"
    using demo_ready by (simp add: worker_start_def)
  have "posted (ws_m ?s) 0x1000 = []" "ws_tmp_count ?s = 0"
    by (simp_all add: worker_start_def demo_machine_def cq_demo_def wq_demo_def)
  with worker_marker_loses_packet [OF h q r, of "\<lparr>underlyingBuffer = 0x8000\<rparr>"] show ?thesis by auto
qed

end
