(* ===== verification/Worker_Stable.thy ===== *)
theory Worker_Stable
  imports Worker
begin

text \<open>
  What a turn of the worker loop keeps of the machine: a locale that carries an invariant through
  the receive, the accounting and the replies of a turn, interpreted for the clock, for the queue
  pairs of other threads, and for the memory outside the local buffer.
\<close>

section \<open>Invariants of a turn\<close>

context poll_stable
begin

lemma taken:
  assumes "worker_recv env p ctx s = Some (Inr (rpc, s1))" "I (ws_m s)" "we_nic env = nic"
    and "load_qp ctx (tp_id p) = Inr qp" "qp_cq qp = cqp"
  shows "I (ws_m s1)"
  using assms(1-3) received [OF _ assms(4,5)] by (fastforce simp: worker_recv_def Let_def bindE_eq_Inr)

end

context slot_stable
begin

lemma batch:
  assumes "ctx_sized S ctx" "load_qp ctx lid = Inr qp" "qp_wq qp = wqp"
  shows "batch_loop k i nic ctx rpcs ids buf bs len n lid m = Some (Inr m1) \<Longrightarrow> I m \<Longrightarrow> I m1"
proof (induction k arbitrary: i m)
  case (Suc k)
  from Suc.prems(1) obtain src :: u64 and rpc :: RPCWithHeader and m2 m3 where
    st: "sendToNode_zsim nic ctx buf (ucast len) (ucast src) lid (payload rpc) True ((word_of_int n - bs) + of_nat i) m =
      Some (Inr m2)"
    "do_Recv_zsim nic ctx lid (payload rpc) 64 m2 = Inr m3"
    "batch_loop k (Suc i) nic ctx rpcs ids buf bs len n lid m3 = Some (Inr m1)"
    by (auto simp: bindE_eq_Inr)
  from send [OF st(1) Suc.prems(2) assms] have "I m2" .
  from free [OF st(2) this assms(2,3)] have "I m3" .
  from Suc.IH [OF st(3) this] show ?case .
qed simp

lemma flushed:
  assumes "worker_flush env p ctx buf s = Some (Inr s1)" "I (ws_m s)" "we_nic env = nic"
    and "ctx_sized S ctx" "load_qp ctx (tp_id p) = Inr qp" "qp_wq qp = wqp"
  shows "I (ws_m s1)"
  using assms(1-3) batch [OF assms(4-6)]
  by (auto simp: worker_flush_def batch_process_simpNF_def bindE_eq_Inr split: if_splits)

end

locale turn_stable = poll_stable "we_nic env" I cqp + slot_stable "we_nic env" I wqp buf S
  for env :: worker_env and I :: "machine \<Rightarrow> bool" and cqp :: addr and wqp :: addr and buf :: NIExposedBuffer
    and S :: nat +
  assumes stamped: "I m \<Longrightarrow> I (timestamp n m)"
    and beaten: "I m \<Longrightarrow> I (we_heartbeat env m)"
begin

lemma counted:
  assumes "worker_count env p rpc (worker_beat env s) = Inr s1" "I (ws_m s)"
  shows "I (ws_m s1)"
  using assms by (auto simp: worker_count_def worker_beat_def Let_def bindR_eq_Inr split: if_splits intro!: stamped beaten)

lemma iter:
  assumes "worker_iter env p ctx buf s = Some (Inr (fin, s1))" "I (ws_m s)"
    and "ctx_sized S ctx" "load_qp ctx (tp_id p) = Inr qp" "qp_wq qp = wqp" "qp_cq qp = cqp"
  shows "I (ws_m s1)"
  using assms(1)
proof (cases rule: worker_iter_returned)
  case (stop rpc)
  from taken [OF stop(1) assms(2) refl assms(4,6)] show ?thesis .
next
  case (go rpc s2 s3 s4)
  from flushed [OF go(5) counted [OF go(4) taken [OF go(1) assms(2) refl assms(4,6)]] refl assms(3-5)] go(6) show ?thesis by simp
qed

end

section \<open>The clock\<close>

lemma timestamp_now [simp]: "now (timestamp n m) = now m"
  by (simp add: timestamp_def)

interpretation turn_clock: turn_stable env "\<lambda>m. (\<forall>m. now m \<le> now (we_heartbeat env m)) \<and> t \<le> now m" cqp wqp buf S
  for env cqp wqp buf S t
  by unfold_locales (auto intro: order_trans, (metis post_keeps(1))+)

lemma worker_iter_clock:
  assumes "worker_iter env p ctx buf s = Some (Inr (fin, s1))" "worker_setting env p ctx S qp"
  shows "now (ws_m s) < now (ws_m s1)"
proof -
  from assms(2) have st: "ctx_sized S ctx" "load_qp ctx (tp_id p) = Inr qp" and hb: "\<forall>m. now m \<le> now (we_heartbeat env m)"
    by (simp_all add: worker_setting_def heartbeat_frame_def)
  have recv: "now (ws_m s) < now (ws_m s2)" if "worker_recv env p ctx s = Some (Inr (rpc, s2))" for rpc s2
    using that receive_clock [OF _ st(2)] by (fastforce simp: worker_recv_def Let_def bindE_eq_Inr)
  from assms(1) show ?thesis
  proof (cases rule: worker_iter_returned)
    case (stop rpc)
    with recv show ?thesis by blast
  next
    case (go rpc s2 s3 s4)
    have "(\<forall>m. now m \<le> now (we_heartbeat env m)) \<and> now (ws_m s2) \<le> now (ws_m s4)"
      by (rule turn_clock.flushed [OF go(5) turn_clock.counted [OF go(4)] refl st refl]) (use hb in simp)
    with recv [OF go(1)] go(6) show ?thesis by simp
  qed
qed

section \<open>Other queue pairs\<close>

text \<open>A turn of one thread leaves the queue pairs of the others alone.\<close>

interpretation turn_other: turn_stable env
  "\<lambda>m. nic_frame (we_nic env) wqp cqp \<and> heartbeat_frame (we_heartbeat env) \<and> wqp1 \<noteq> wqp \<and> cqp1 \<noteq> cqp \<and> qp_frame wqp cqp m0 m"
  cqp1 wqp1 buf S for env wqp1 cqp1 wqp cqp m0 buf S
proof -
  let ?I = "\<lambda>m. nic_frame (we_nic env) wqp cqp \<and> heartbeat_frame (we_heartbeat env) \<and> wqp1 \<noteq> wqp \<and> cqp1 \<noteq> cqp \<and>
    qp_frame wqp cqp m0 m"
  have step: "?I m \<Longrightarrow> (?I m \<Longrightarrow> qp_frame wqp cqp m m1) \<Longrightarrow> ?I m1" for m m1
    using qp_frame_trans by blast
  show "turn_stable env ?I cqp1 wqp1 buf S"
  proof unfold_locales
    fix m
    assume I: "?I m"
    show "?I (nic_turn (we_nic env) m)" by (rule step [OF I]) (simp add: nic_turn_frame)
    show "?I (register_buffer (Imm 1) f m)" for f by (rule step [OF I]) (auto intro!: qp_frame_eq)
    show "?I (store_cq cqp1 c m)" for c by (rule step [OF I]) (auto intro!: qp_frame_eq)
    show "?I (m\<lparr>delivered := (delivered m)(cqp1 := d)\<rparr>)" for d by (rule step [OF I]) (auto intro!: qp_frame_eq)
    show "?I (m\<lparr>mem := store32 (mem m) a v\<rparr>)" for a v by (rule step [OF I]) (auto intro!: qp_frame_eq)
    show "?I m1" if "rmc_hw_send wqp1 cid a len nid m = Inr (r, m1)" for cid a len nid r m1
      using post_keeps [of wqp1 cid a len nid m r m1] that by (intro step [OF I] qp_frame_eq) auto
    show "?I m1" if "rmc_hw_recv wqp1 cid a len m = Inr (r, m1)" for cid a len r m1
      using post_keeps [of wqp1 cid a len _ m r m1] that by (intro step [OF I] qp_frame_eq) auto
    show "?I (timestamp n m)" for n by (rule step [OF I]) (auto intro!: qp_frame_eq)
    show "?I (we_heartbeat env m)" by (rule step [OF I]) (auto intro!: qp_frame_eq simp: heartbeat_frame_def)
  qed
qed

lemma worker_iter_other:
  assumes "worker_iter env p ctx buf s = Some (Inr (fin, s1))" "worker_setting env p ctx S qp"
    and "nic_frame (we_nic env) wqp cqp" "qp_wq qp \<noteq> wqp" "qp_cq qp \<noteq> cqp"
  shows "qp_frame wqp cqp (ws_m s) (ws_m s1)"
proof -
  from assms(2) have st: "ctx_sized S ctx" "load_qp ctx (tp_id p) = Inr qp" "heartbeat_frame (we_heartbeat env)"
    by (simp_all add: worker_setting_def)
  from turn_other.iter [OF assms(1) _ st(1,2) refl refl, of wqp cqp "ws_m s"] assms(3-5) st(3) show ?thesis by simp
qed

section \<open>The received packets\<close>

text \<open>Answering a batch takes no packets.\<close>

interpretation slot_delivered: slot_stable nic "\<lambda>m. nic_frame nic wqp cqp \<and> delivered m cqp = d" wqp buf S
  for nic wqp cqp d buf S
  by unfold_locales (simp add: nic_frame_def nic_turn_def qp_frame_def, metis post_keeps(4), metis post_keeps(4), simp)

lemma worker_flush_packets:
  assumes "worker_flush env p ctx buf s = Some (Inr s1)" "worker_setting env p ctx S qp"
  shows "packets qp s1 = packets qp s"
proof -
  from assms(2) have "ctx_sized S ctx" "load_qp ctx (tp_id p) = Inr qp" "nic_frame (we_nic env) (qp_wq qp) (qp_cq qp)"
    by (simp_all add: worker_setting_def)
  with slot_delivered.flushed [OF assms(1) _ refl this(1,2) refl, of "qp_cq qp" "packets qp s"] show ?thesis
    by (simp add: packets_def)
qed

end
