(* ===== verification/Worker_Run.thy ===== *)
theory Worker_Run
  imports Worker_Props Worker_Stable
begin

text \<open>
  The whole run of a worker thread, \<open>run_worker\<close> of \<open>simpNF/worker.c\<close>: under a NIC that keeps
  completing posted entries, eventually has no more completions to deliver, and under a simulator
  that eventually sets \<open>*client_done\<close>, the thread ends, and what it has sent by then.
\<close>

section \<open>The loop ends\<close>

text \<open>
  The surroundings in which a thread ends: entries are completed again and again, and from the turn
  \<open>T\<close> on there are no more completions and the clients are done.
\<close>

definition winds_down :: "worker_env \<Rightarrow> soNUMAQP_T \<Rightarrow> nat \<Rightarrow> bool" where
  "winds_down env qp T \<longleftrightarrow>
     nic_live (we_nic env) (qp_wq qp) \<and> nic_silent (we_nic env) (qp_cq qp) T \<and>
     nic_sets (we_nic env) (we_client_done env) T"

lemma worker_iter_winds_down:
  assumes "worker_setting env p ctx S qp" "wk_inv env p qp buf S s" "winds_down env qp T"
  shows "worker_iter env p ctx buf s \<noteq> None"
    and "T \<le> now (ws_m s) \<Longrightarrow> worker_iter env p ctx buf s = Some (Inr (fin, s1)) \<Longrightarrow> fin"
proof -
  from assms(1) have qp: "load_qp ctx (tp_id p) = Inr qp" and fr: "nic_frame (we_nic env) (qp_wq qp) (qp_cq qp)"
    by (simp_all add: worker_setting_def)
  from assms(3) have wd: "nic_live (we_nic env) (qp_wq qp)" "nic_silent (we_nic env) (qp_cq qp) T"
    "nic_sets (we_nic env) (we_client_done env) T" by (simp_all add: winds_down_def)
  have ok: "qp_ok (qp_wq qp) (qp_cq qp) (ws_m s)" using assms(2) by (simp add: wk_inv_def wk_core_def)
  have "worker_recv env p ctx s \<noteq> None"
    using receive_returns [OF fr wd(2,1) qp ok] by (auto simp: worker_recv_def bindE_def Let_def split: option.splits sum.splits)
  then show "worker_iter env p ctx buf s \<noteq> None" by (rule worker_iter_total [OF assms(1,2) wd(1)])
  assume T: "T \<le> now (ws_m s)" and it: "worker_iter env p ctx buf s = Some (Inr (fin, s1))"
  from it obtain rpc s2 where r: "worker_recv env p ctx s = Some (Inr (rpc, s2))"
    by (auto simp: worker_iter_def bindE_eq_Inr)
  then have "payload_len rpc = 0xdead"
    using receive_done [OF _ qp wd(3) T] by (fastforce simp: worker_recv_def Let_def bindE_eq_Inr)
  with it r show fin by (simp add: worker_iter_def)
qed

text \<open>The loop is left from a reachable state, by the turn that sees the flag.\<close>

lemma worker_loop_ends:
  assumes set: "worker_setting env p ctx S qp" and wd: "winds_down env qp T"
  shows "wk_inv env p qp buf S s \<Longrightarrow> \<exists>y. worker_loop env p ctx buf s = Some y \<and>
    (\<forall>s2. y = Inr s2 \<longrightarrow> (\<exists>s1. worker_reach env p ctx buf s s1 \<and> worker_iter env p ctx buf s1 = Some (Inr (True, s2))))"
proof (induction "T - now (ws_m s)" arbitrary: s rule: less_induct)
  case less
  note unf = worker_loop.simps [of env p ctx buf s]
  from worker_iter_winds_down(1) [OF set less.prems wd] obtain z where z: "worker_iter env p ctx buf s = Some z" by blast
  show ?case
  proof (cases "\<exists>s1. z = Inr (False, s1)")
    case False
    with z show ?thesis by (auto simp: unf split: sum.splits intro: worker_reach.enter)
  next
    case True
    then obtain s1 where s1: "worker_iter env p ctx buf s = Some (Inr (False, s1))" using z by blast
    have inv: "wk_inv env p qp buf S s1" using worker_iter_ok [OF s1 set less.prems] by simp
    have "\<not> T \<le> now (ws_m s)" using worker_iter_winds_down(2) [OF set less.prems wd _ s1] by blast
    with worker_iter_clock [OF s1 set] have "T - now (ws_m s1) < T - now (ws_m s)" by simp
    from less.hyps [OF this inv] obtain y where y: "worker_loop env p ctx buf s1 = Some y"
      "\<forall>s2. y = Inr s2 \<longrightarrow> (\<exists>s3. worker_reach env p ctx buf s1 s3 \<and> worker_iter env p ctx buf s3 = Some (Inr (True, s2)))"
      by blast
    have "worker_reach env p ctx buf s s3" if "worker_reach env p ctx buf s1 s3" for s3
      using that by induction (use s1 in \<open>blast intro: worker_reach.intros\<close>)+
    with y s1 show ?thesis by (fastforce simp: unf)
  qed
qed

text \<open>The turn that leaves the loop takes at most one more packet and sends nothing.\<close>

lemma worker_last_turn:
  assumes "worker_iter env p ctx buf s = Some (Inr (True, s1))" "worker_setting env p ctx S qp" "wk_inv env p qp buf S s"
  shows "posted (ws_m s1) (qp_wq qp) = posted (ws_m s) (qp_wq qp) \<and> (\<exists>cs. length cs \<le> 1 \<and> packets qp s1 = packets qp s @ cs)"
proof -
  from assms(2) have qp: "load_qp ctx (tp_id p) = Inr qp" and fr: "nic_frame (we_nic env) (qp_wq qp) (qp_cq qp)"
    by (simp_all add: worker_setting_def)
  from assms(3) have ok: "qp_ok (qp_wq qp) (qp_cq qp) (ws_m s)" "flag_at (ws_m s) (we_client_done env) \<noteq> None"
    by (simp_all add: wk_inv_def wk_core_def)
  from assms(1) obtain rpc where "worker_recv env p ctx s = Some (Inr (rpc, s1))"
    by (auto simp: worker_iter_def bindE_eq_Inr Let_def split: if_splits)
  then obtain src where rcv: "receiveRPCRequest_zsim_l3fwd (we_nic env) (we_ss env) (we_rpc env (nat (ws_rolling_iter s))) ctx
      (tp_id p) (we_client_done env) (ws_m s) = Some (Inr (rpc, src, ws_m s1))"
    by (auto simp: worker_recv_def bindE_eq_Inr Let_def)
  from receive_ok [OF rcv qp fr ok] receive_at_most_one [OF rcv qp fr ok] show ?thesis
    by (fastforce simp: keeps_def packets_def comp_def)
qed

section \<open>What the surroundings see of a thread\<close>

definition own_buf :: "worker_env \<Rightarrow> NIExposedBuffer" where
  "own_buf env = \<lparr>underlyingBuffer = we_lbuf env\<rparr>"

text \<open>
  The thread has answered the packets it received once each, in the order of arrival, to their
  senders, all but at most a batch of the last ones.
\<close>

definition replied :: "nat \<Rightarrow> worker_env \<Rightarrow> thread_params \<Rightarrow> machine \<Rightarrow> bool" where
  "replied S env p m \<longleftrightarrow>
     (\<exists>k. length (delivered m (we_cq env)) \<le> k + unat (tp_batch_size p) \<and>
        list_all2 (reply_to (own_buf env) S (tp_packet_size p))
          (enumerate 0 (take k (delivered m (we_cq env)))) (sends (posted m (we_wq env))))"

lemma wk_inv_replied:
  assumes "wk_inv env p (own_qp env p) (own_buf env) S s" "posted m (we_wq env) = posted (ws_m s) (we_wq env)"
    and "delivered m (we_cq env) = delivered (ws_m s) (we_cq env) @ cs" "length cs \<le> 1"
  shows "replied S env p m"
proof -
  let ?k = "answered (own_qp env p) s"
  from assms(1) have "list_all2 (reply_to (own_buf env) S (tp_packet_size p))
      (enumerate 0 (take ?k (delivered (ws_m s) (we_cq env)))) (sends (posted (ws_m s) (we_wq env)))"
    and b: "unat (ws_batch_counter s) < unat (tp_batch_size p)"
    by (simp_all add: wk_inv_def wk_core_def answers_def packets_def answered_def)
  moreover have "take ?k (delivered m (we_cq env)) = take ?k (delivered (ws_m s) (we_cq env))"
    using assms(3) by (simp add: answered_def packets_def)
  moreover have "length (delivered m (we_cq env)) \<le> ?k + unat (tp_batch_size p)"
    using b assms(4) unfolding assms(3) answered_def packets_def own_qp_simps length_append by linarith
  ultimately show ?thesis unfolding replied_def assms(2) by metis
qed

section \<open>Properties\<close>

text \<open>
  C6. The whole thread: if the NIC keeps completing posted entries, and from some turn on delivers
  no more completions while the clients are done, \<open>run_worker\<close> ends. It either ran into a
  completion that names a slot outside the work queue or into the overflow of a counter, or it
  returned; then it has answered the packets it received once each, in the order of arrival, to
  their senders, all but at most a batch of the last ones.
\<close>

theorem run_worker_ends:
  assumes "placed S env p ctx m" and "winds_down env (own_qp env p) T"
  shows "\<exists>y. run_worker env p ctx m = Some y \<and>
    (case y of
       Inl e \<Rightarrow> e = Out_of_bounds \<or> e = Signed_overflow
     | Inr (ctx1, s) \<Rightarrow> load_qp ctx1 (tp_id p) = Inr (own_qp env p) \<and> replied S env p (ws_m s))"
proof -
  let ?ctx = "own_ctx env p ctx" and ?s0 = "worker_start p (own_machine ctx m)"
  note set = placedD(1) [OF assms(1)] and inv0 = placedD(2) [OF assms(1), of "own_buf env"]
  have lq: "load_qp ?ctx (tp_id p) = Inr (own_qp env p)" and hb: "heartbeat_frame (we_heartbeat env)"
    using set by (simp_all add: worker_setting_def)
  from worker_loop_ends [OF set assms(2) inv0] obtain y where y: "worker_loop env p ?ctx (own_buf env) ?s0 = Some y"
    "\<And>s2. y = Inr s2 \<Longrightarrow> \<exists>s1. worker_reach env p ?ctx (own_buf env) ?s0 s1 \<and>
      worker_iter env p ?ctx (own_buf env) s1 = Some (Inr (True, s2))"
    by blast
  show ?thesis
  proof (cases y)
    case (Inl e)
    then have "run_worker env p ctx m = Some (Inl e)" using y(1) by (simp add: run_worker_eq [OF assms(1)] own_buf_def)
    with run_worker_safe [OF assms(1) this] show ?thesis by simp
  next
    case (Inr s2)
    with y(2) obtain s1 where s1: "worker_reach env p ?ctx (own_buf env) ?s0 s1"
      "worker_iter env p ?ctx (own_buf env) s1 = Some (Inr (True, s2))" by blast
    note inv = worker_reach_inv [OF s1(1) set inv0]
    let ?s = "s2\<lparr>ws_m := notify_done_to_zsim (we_heartbeat env (ws_m s2))\<rparr>"
    have e: "posted (ws_m ?s) = posted (ws_m s2)" "delivered (ws_m ?s) = delivered (ws_m s2)"
      using hb by (simp_all add: heartbeat_frame_def notify_done_to_zsim_def)
    have "replied S env p (ws_m ?s)"
      using worker_last_turn [OF s1(2) set inv] e by (auto simp: packets_def intro: wk_inv_replied [OF inv])
    moreover have "run_worker env p ctx m = Some (Inr (?ctx, ?s))"
      using y(1) Inr by (simp add: run_worker_eq [OF assms(1)] own_buf_def)
    ultimately show ?thesis using lq by simp
  qed
qed

text \<open>A simulator that completes every posted entry at once and ends the run at its turn 5.\<close>

definition closing_nic :: nic where
  "closing_nic t m = (sweep_nic t m)\<lparr>flag_at := if 5 \<le> t then (flag_at m)(0x3000 \<mapsto> True) else flag_at m\<rparr>"

definition closing_env :: worker_env where
  "closing_env = demo_env\<lparr>we_nic := closing_nic\<rparr>"

lemma closing_nic_frame: "nic_frame closing_nic wqp cqp"
  by (auto simp: nic_frame_def qp_frame_def closing_nic_def sweep_nic_def wf_wq_def)

lemma closing_nic_simps [simp]:
  "nic_live closing_nic wqp" "nic_silent closing_nic cqp 5" "nic_sets closing_nic 0x3000 5"
proof -
  have "nic_releases closing_nic wqp T" for wqp T
    by (auto simp: nic_releases_def closing_nic_def sweep_nic_def wf_wq_def)
  then show "nic_live closing_nic wqp" by (auto simp: nic_live_def)
qed (auto simp: nic_silent_def nic_sets_def closing_nic_def sweep_nic_def)

lemma closing_winds_down: "winds_down closing_env (own_qp closing_env p) 5"
  by (simp add: winds_down_def closing_env_def demo_env_def)

lemma closing_placed: "placed 512 closing_env (demo_params 4) (demo_ctx\<lparr>rc_app_buffers := [None]\<rparr>) demo_machine"
proof -
  have "worker_setting demo_env (demo_params 4) demo_ctx 512 demo_qp" by (rule demo_setting) simp
  moreover have "ctx_sized 512 (demo_ctx\<lparr>rc_app_buffers := [None]\<rparr>)" using demo_ctx_simps(1) by (simp add: ctx_sized_def)
  moreover have "fresh_machine closing_env (own_qp closing_env (demo_params 4)) demo_machine"
    using demo_fresh by (simp add: fresh_machine_def closing_env_def own_qp_def demo_qp_def demo_env_def)
  ultimately show ?thesis
    using closing_nic_frame
    by (simp add: placed_def worker_setting_def closing_env_def junk_ok_def demo_params_def demo_ctx_def)
qed

theorem run_worker_ends_witness:
  "\<exists>y. run_worker closing_env (demo_params 4) (demo_ctx\<lparr>rc_app_buffers := [None]\<rparr>) demo_machine = Some y \<and>
     y \<noteq> Inl Segv \<and> y \<noteq> Inl Assertion"
  using run_worker_ends [OF closing_placed closing_winds_down] by auto

text \<open>
  C38. The end of the loop loses packets: once the clients are done, a turn that finds a packet pending
  (on a queue the NIC leaves alone) takes it off the queue and leaves the loop without an answer to it,
  nor to the packets that wait in the current batch: after it, the replies answer the packets received
  before, all but the waiting ones.
\<close>

theorem worker_end_drops:
  assumes "worker_setting env p ctx S qp" and "fresh_machine env qp m"
    and "worker_reach env p ctx buf (worker_start p m) s"
    and "nic_quiet (we_nic env) (qp_wq qp) (qp_cq qp)" and "nic_flag_quiet (we_nic env) (we_client_done env)"
    and "recv_ready qp (we_client_done env) True n c (ws_m s)" and "0 < n"
  shows "\<exists>s1 e. worker_iter env p ctx buf s = Some (Inr (True, s1)) \<and> packets qp s1 = packets qp s @ [e] \<and>
    cqe_tid e = fst (hd (cq_sends (n, c))) \<and>
    length (sends (posted (ws_m s1) (qp_wq qp))) + unat (ws_batch_counter s) = length (packets qp s)"
proof -
  have "0 < unat (tp_batch_size p)" using assms(1) by (simp add: worker_setting_def)
  note inv = worker_reach_inv [OF assms(3,1) worker_start_inv [OF assms(2) this]]
  from assms(1) have st: "load_qp ctx (tp_id p) = Inr qp" "nic_frame (we_nic env) (qp_wq qp) (qp_cq qp)"
    by (simp_all add: worker_setting_def)
  from inv have ok: "qp_ok (qp_wq qp) (qp_cq qp) (ws_m s)" and le: "unat (ws_batch_counter s) \<le> length (packets qp s)"
    and ans: "length (sends (posted (ws_m s) (qp_wq qp))) = answered qp s"
    by (auto simp: wk_inv_def wk_core_def answers_def answered_def dest!: list_all2_lengthD)
  let ?rj = "we_rpc env (nat (ws_rolling_iter s))"
  from receive_done_drops [OF st(1) assms(4-7) st(2) ok, of "we_ss env" ?rj] obtain m1 e where
    r: "receiveRPCRequest_zsim_l3fwd (we_nic env) (we_ss env) ?rj ctx (tp_id p) (we_client_done env) (ws_m s) =
      Some (Inr (?rj\<lparr>payload_len := 0xdead\<rparr>, None, m1))"
    and m1: "delivered m1 (qp_cq qp) = delivered (ws_m s) (qp_cq qp) @ [e]" "posted m1 (qp_wq qp) = posted (ws_m s) (qp_wq qp)"
      "cqe_tid e = fst (hd (cq_sends (n, c)))" by blast
  let ?s1 = "s\<lparr>ws_m := m1, ws_rpcs := (ws_rpcs s)[unat (ws_batch_counter s) := ?rj\<lparr>payload_len := 0xdead\<rparr>]\<rparr>"
  have "worker_iter env p ctx buf s = Some (Inr (True, ?s1))"
    using r wk_inv_batch(1) [OF inv] by (simp add: worker_iter_def worker_recv_def Let_def)
  moreover have "packets qp ?s1 = packets qp s @ [e]" using m1(1) by (simp add: packets_def)
  ultimately show ?thesis using m1(2,3) ans le by (intro exI [of _ ?s1] exI [of _ e]) (simp add: answered_def)
qed

theorem worker_end_drops_witness:
  "\<exists>s1 e. worker_iter demo_env (demo_params 4) demo_ctx \<lparr>underlyingBuffer = 0x8000\<rparr>
     (worker_start (demo_params 4) (demo_machine\<lparr>flag_at := [0x3000 \<mapsto> True, 0x3008 \<mapsto> False]\<rparr>)) = Some (Inr (True, s1)) \<and>
     packets demo_qp s1 = [e] \<and> cqe_tid e = 5 \<and> sends (posted (ws_m s1) 0x1000) = []"
proof -
  let ?m = "demo_machine\<lparr>flag_at := [0x3000 \<mapsto> True, 0x3008 \<mapsto> False]\<rparr>"
  let ?s = "worker_start (demo_params 4) ?m"
  have set: "worker_setting demo_env (demo_params 4) demo_ctx 512 demo_qp" by (rule demo_setting) simp
  have f: "fresh_machine demo_env demo_qp ?m"
    using demo_fresh by (simp add: fresh_machine_def qp_ok_def demo_env_def del: demo_fresh)
  have q: "nic_quiet (we_nic demo_env) (qp_wq demo_qp) (qp_cq demo_qp)"
    "nic_flag_quiet (we_nic demo_env) (we_client_done demo_env)" by (simp_all add: demo_env_def)
  have r: "recv_ready demo_qp (we_client_done demo_env) True 1 one_send_cq (ws_m ?s)"
    using demo_ready by (simp add: recv_ready_def worker_start_def demo_env_def)
  have p: "packets demo_qp ?s = []" by (simp add: packets_def worker_start_def demo_machine_def cq_demo_def wq_demo_def)
  have "cq_sends (1, one_send_cq) = [(5, 0xA000)]" unfolding cq_sends_pending one_send_cq_pending by simp
  with worker_end_drops [OF set f worker_reach.enter q r] p show ?thesis by fastforce
qed

end
