(* ===== verification/Threads.thy ===== *)
theory Threads
  imports Worker_Run
begin

text \<open>
  The worker threads together: they register one after the other, wait at the barrier, and then
  take turns of their loops in any order on one machine and one RPC context. Inside a turn the
  parameter \<open>nic\<close> of each thread stands for the NIC and for whatever the other threads do
  meanwhile; the lemmas here show that a turn of one thread is a step the others allow.
\<close>

section \<open>A turn of another thread\<close>

lemma wk_inv_frame:
  assumes "wk_inv env p qp buf S s" "qp_frame (qp_wq qp) (qp_cq qp) (ws_m s) m"
  shows "wk_inv env p qp buf S (s\<lparr>ws_m := m\<rparr>)"
proof -
  have "qp_ok (qp_wq qp) (qp_cq qp) m" if "qp_ok (qp_wq qp) (qp_cq qp) (ws_m s)"
    using that assms(2) unfolding qp_ok_def qp_frame_def by metis
  with assms show ?thesis
    by (simp add: wk_inv_def wk_core_def packets_def answered_def qp_frame_def)
qed

section \<open>The program after its launch\<close>

text \<open>The registrations up to the barrier, in the order in which the threads make them.\<close>

fun register_threads ::
  "(worker_env \<times> thread_params) list \<Rightarrow> rpcNUMAContext \<Rightarrow> machine \<Rightarrow> (rpcNUMAContext \<times> machine) res" where
  "register_threads [] ctx m = Inr (ctx, m)"
| "register_threads ((env, p) # ts) ctx m =
     bindR (registerNewLocalBuffer (we_lbuf env) (get_lbuf_size ctx) (ucast (tp_id p)) ctx m) (\<lambda>(_, ctx1, m1).
     bindR (registerNewSONUMAQP (we_wq env) (we_cq env) (ucast (tp_id p)) ctx1 m1) (\<lambda>(_, ctx2, m2).
     register_threads ts ctx2 m2))"

text \<open>
  The states in which the threads stand at the top of their loops, or have left them (\<open>None\<close>);
  the machine is shared, each thread keeps the rest of its state. Besides the turns there are the
  magic instructions of the threads between the barrier and the loop and after it (\<open>signal\<close>), and
  the heartbeat of a thread that has left its loop (\<open>beat\<close>). The schedule lists the threads whose
  turns were taken.
\<close>

inductive nf_reach ::
  "(worker_env \<times> thread_params) list \<Rightarrow> rpcNUMAContext \<Rightarrow> machine \<Rightarrow> nat list \<Rightarrow> machine \<Rightarrow> worker_state option list \<Rightarrow>
   bool"
  for ts :: "(worker_env \<times> thread_params) list" and ctx :: rpcNUMAContext and m0 :: machine where
  barrier: "nf_reach ts ctx m0 [] m0 (map (\<lambda>(env, p). Some (worker_start p m0)) ts)"
| turn: "nf_reach ts ctx m0 sched m ws \<Longrightarrow> i < length ts \<Longrightarrow> ts ! i = (env, p) \<Longrightarrow> ws ! i = Some s \<Longrightarrow>
    worker_iter env p ctx (own_buf env) (s\<lparr>ws_m := m\<rparr>) = Some (Inr (fin, s1)) \<Longrightarrow>
    nf_reach ts ctx m0 (sched @ [i]) (ws_m s1) (ws[i := if fin then None else Some s1])"
| signal: "nf_reach ts ctx m0 sched m ws \<Longrightarrow>
    notify \<in> {monitor_client_done, register_done_sending, notify_done_to_zsim} \<Longrightarrow>
    nf_reach ts ctx m0 sched (notify m) ws"
| beat: "nf_reach ts ctx m0 sched m ws \<Longrightarrow> i < length ts \<Longrightarrow> ts ! i = (env, p) \<Longrightarrow> ws ! i = None \<Longrightarrow>
    nf_reach ts ctx m0 sched (we_heartbeat env m) ws"

text \<open>
  Threads that can run together: distinct numbers and distinct queue pairs, and every thread's
  surroundings respect the queue pairs of all of them.
\<close>

definition threads_ok :: "nat \<Rightarrow> (worker_env \<times> thread_params) list \<Rightarrow> rpcNUMAContext \<Rightarrow> machine \<Rightarrow> bool" where
  "threads_ok S ts ctx m \<longleftrightarrow>
     ctx_sized S ctx \<and> distinct (map (\<lambda>t. unat (tp_id (snd t))) ts) \<and>
     distinct (map (\<lambda>t. we_wq (fst t)) ts) \<and> distinct (map (\<lambda>t. we_cq (fst t)) ts) \<and>
     (\<forall>(env, p) \<in> set ts. unat (tp_id p) < length (rc_qps ctx) \<and> unat (tp_id p) < length (rc_app_buffers ctx) \<and>
        heartbeat_frame (we_heartbeat env) \<and> junk_ok env \<and> 0 < unat (tp_batch_size p) \<and>
        fresh_machine env (own_qp env p) m \<and>
        (\<forall>(env1, p1) \<in> set ts. nic_frame (we_nic env) (we_wq env1) (we_cq env1)))"

lemma replied_frame: "qp_frame (we_wq env) (we_cq env) m m1 \<Longrightarrow> replied S env p m1 = replied S env p m"
  by (simp add: replied_def qp_frame_def)

subsection \<open>Registration\<close>

lemma register_threads_ok:
  assumes "\<forall>(env, p) \<in> set ts. unat (tp_id p) < length (rc_qps ctx) \<and> unat (tp_id p) < length (rc_app_buffers ctx)"
    and "distinct (map (\<lambda>t. unat (tp_id (snd t))) ts)"
  shows "\<exists>ctx1 g. register_threads ts ctx m = Inr (ctx1, m\<lparr>magic := g\<rparr>) \<and> rc_msg_domain ctx1 = rc_msg_domain ctx \<and>
    length (rc_qps ctx1) = length (rc_qps ctx) \<and>
    (\<forall>(env, p) \<in> set ts. rc_qps ctx1 ! unat (tp_id p) = Some (own_qp env p)) \<and>
    (\<forall>i. i \<notin> set (map (\<lambda>t. unat (tp_id (snd t))) ts) \<longrightarrow> rc_qps ctx1 ! i = rc_qps ctx ! i)"
  using assms
proof (induction ts arbitrary: ctx m)
  case Nil
  have "m = m\<lparr>magic := magic m\<rparr>" by simp
  then show ?case by (auto intro!: exI [of _ "magic m"])
next
  case (Cons t ts)
  obtain env p where t: "t = (env, p)" by (cases t)
  let ?i = "unat (tp_id p)" and ?ctx = "own_ctx env p ctx"
  have id: "(ucast (ucast (tp_id p) :: u64) :: u32) = tp_id p" by (rule bit_word_eqI) (auto simp: bit_simps)
  have i: "?i < length (rc_qps ctx)" "?i < length (rc_app_buffers ctx)" using Cons.prems(1) by (simp_all add: t)
  obtain g where g: "register_threads (t # ts) ctx m = register_threads ts ?ctx (m\<lparr>magic := g\<rparr>)"
    using i id
    by (auto simp: t registerNewLocalBuffer_def registerNewSONUMAQP_def Let_def unat_ucast_u32 own_ctx_def own_qp_def
        register_buffer_def)
  have ids: "\<forall>(env, p) \<in> set ts. unat (tp_id p) < length (rc_qps ?ctx) \<and> unat (tp_id p) < length (rc_app_buffers ?ctx)"
    using Cons.prems(1) by (auto simp: own_ctx_def)
  have d: "distinct (map (\<lambda>t. unat (tp_id (snd t))) ts)" "?i \<notin> set (map (\<lambda>t. unat (tp_id (snd t))) ts)"
    using Cons.prems(2) by (auto simp: t)
  from Cons.IH [OF ids d(1), of "m\<lparr>magic := g\<rparr>"] obtain ctx1 g1 where
    r: "register_threads ts ?ctx (m\<lparr>magic := g\<rparr>) = Inr (ctx1, m\<lparr>magic := g1\<rparr>)" "rc_msg_domain ctx1 = rc_msg_domain ?ctx"
    "length (rc_qps ctx1) = length (rc_qps ?ctx)"
    "\<forall>(env, p) \<in> set ts. rc_qps ctx1 ! unat (tp_id p) = Some (own_qp env p)"
    "\<forall>i. i \<notin> set (map (\<lambda>t. unat (tp_id (snd t))) ts) \<longrightarrow> rc_qps ctx1 ! i = rc_qps ?ctx ! i" by auto
  have "rc_qps ctx1 ! ?i = Some (own_qp env p)" using r(5) d(2) i by (simp add: own_ctx_def)
  with g r show ?case
    by (intro exI [of _ ctx1] exI [of _ g1]) (auto simp: t own_ctx_def)
qed

text \<open>The context and the machine at the barrier.\<close>

definition threads_started ::
  "nat \<Rightarrow> (worker_env \<times> thread_params) list \<Rightarrow> rpcNUMAContext \<Rightarrow> machine \<Rightarrow> bool" where
  "threads_started S ts ctx m \<longleftrightarrow>
     (\<forall>(env, p) \<in> set ts. worker_setting env p ctx S (own_qp env p) \<and> fresh_machine env (own_qp env p) m)"

lemma threads_startedD:
  assumes "threads_started S ts ctx m" "i < length ts" "ts ! i = (env, p)"
  shows "worker_setting env p ctx S (own_qp env p)" "fresh_machine env (own_qp env p) m"
proof -
  have "(env, p) \<in> set ts" using assms(2,3) by (metis nth_mem)
  with assms(1) show "worker_setting env p ctx S (own_qp env p)" "fresh_machine env (own_qp env p) m"
    by (auto simp: threads_started_def)
qed

lemma threads_start:
  assumes "threads_ok S ts ctx m"
  shows "\<exists>ctx1 m1. register_threads ts ctx m = Inr (ctx1, m1) \<and> now m1 = now m \<and> mem m1 = mem m \<and>
    threads_started S ts ctx1 m1"
proof -
  have "\<forall>(env, p) \<in> set ts. unat (tp_id p) < length (rc_qps ctx) \<and> unat (tp_id p) < length (rc_app_buffers ctx)"
    "distinct (map (\<lambda>t. unat (tp_id (snd t))) ts)" using assms by (auto simp: threads_ok_def)
  from register_threads_ok [OF this, of m] obtain ctx1 g where r: "register_threads ts ctx m = Inr (ctx1, m\<lparr>magic := g\<rparr>)"
    "rc_msg_domain ctx1 = rc_msg_domain ctx" "length (rc_qps ctx1) = length (rc_qps ctx)"
    "\<forall>(env, p) \<in> set ts. rc_qps ctx1 ! unat (tp_id p) = Some (own_qp env p)" by blast
  have "worker_setting env p ctx1 S (own_qp env p) \<and> fresh_machine env (own_qp env p) (m\<lparr>magic := g\<rparr>)"
    if t: "(env, p) \<in> set ts" for env p
  proof -
    have q: "rc_qps ctx1 ! unat (tp_id p) = Some (own_qp env p)" using r(4) t by blast
    from assms t have h: "ctx_sized S ctx" "unat (tp_id p) < length (rc_qps ctx)" "heartbeat_frame (we_heartbeat env)"
      "junk_ok env" "0 < unat (tp_batch_size p)" "fresh_machine env (own_qp env p) m"
      "nic_frame (we_nic env) (we_wq env) (we_cq env)" by (auto simp: threads_ok_def)
    with q r(2,3) show ?thesis
      by (simp add: worker_setting_def ctx_sized_def load_qp_def fresh_machine_def qp_ok_def)
  qed
  then have "threads_started S ts ctx1 (m\<lparr>magic := g\<rparr>)" by (auto simp: threads_started_def)
  with r(1) show ?thesis by (intro exI [of _ ctx1] exI [of _ "m\<lparr>magic := g\<rparr>"]) simp
qed

subsection \<open>The invariant of the threads\<close>

definition nf_inv :: "nat \<Rightarrow> (worker_env \<times> thread_params) list \<Rightarrow> machine \<Rightarrow> worker_state option list \<Rightarrow> bool" where
  "nf_inv S ts m ws \<longleftrightarrow> length ws = length ts \<and>
     (\<forall>i < length ts. case ts ! i of (env, p) \<Rightarrow> replied S env p m \<and>
        (case ws ! i of None \<Rightarrow> True
         | Some s \<Rightarrow> wk_inv env p (own_qp env p) (own_buf env) S (s\<lparr>ws_m := m\<rparr>)))"

lemma nf_invD:
  assumes "nf_inv S ts m ws" "i < length ts" "ts ! i = (env, p)"
  shows "replied S env p m" "ws ! i = Some s \<Longrightarrow> wk_inv env p (own_qp env p) (own_buf env) S (s\<lparr>ws_m := m\<rparr>)"
  using assms by (auto simp: nf_inv_def)

lemma nf_inv_frame:
  assumes "nf_inv S ts m ws" "\<And>wqp cqp. qp_frame wqp cqp m m1"
  shows "nf_inv S ts m1 ws"
proof -
  have "wk_inv env p qp buf S (s\<lparr>ws_m := m\<rparr>) \<Longrightarrow> wk_inv env p qp buf S (s\<lparr>ws_m := m1\<rparr>)" for env p qp buf s
    using wk_inv_frame [of env p qp buf S "s\<lparr>ws_m := m\<rparr>" m1] assms(2) by simp
  moreover have "replied S env p m1 = replied S env p m" for env p by (rule replied_frame) (rule assms(2))
  ultimately show ?thesis
    using assms(1) unfolding nf_inv_def by (simp only:) (simp split: prod.splits option.splits)
qed

text \<open>A turn of a thread, seen by the thread itself and by another one.\<close>

lemma turn_replied:
  assumes it: "worker_iter env p ctx (own_buf env) s = Some (Inr (fin, s1))" and set: "worker_setting env p ctx S (own_qp env p)"
    and inv: "wk_inv env p (own_qp env p) (own_buf env) S s"
  shows "replied S env p (ws_m s1)"
proof (cases fin)
  case False
  with worker_iter_ok [OF it set inv] have "wk_inv env p (own_qp env p) (own_buf env) S s1" by simp
  from wk_inv_replied [OF this refl, of "[]"] show ?thesis by simp
next
  case True
  with worker_last_turn [OF _ set inv] it obtain cs where
    "posted (ws_m s1) (we_wq env) = posted (ws_m s) (we_wq env)" "length cs \<le> 1"
    "delivered (ws_m s1) (we_cq env) = delivered (ws_m s) (we_cq env) @ cs" by (auto simp: packets_def)
  then show ?thesis by (intro wk_inv_replied [OF inv]) simp_all
qed

lemma turn_frame:
  assumes ok: "threads_ok S ts ctx0 m0" and i: "i < length ts" "ts ! i = (env, p)"
    and it: "worker_iter env p ctx (own_buf env) s = Some (Inr (fin, s1))" and set: "worker_setting env p ctx S (own_qp env p)"
    and j: "j < length ts" "ts ! j = (env1, p1)" "j \<noteq> i"
  shows "qp_frame (we_wq env1) (we_cq env1) (ws_m s) (ws_m s1)"
proof -
  from ok have d: "distinct (map (\<lambda>t. we_wq (fst t)) ts)" "distinct (map (\<lambda>t. we_cq (fst t)) ts)"
    by (simp_all add: threads_ok_def)
  have "we_wq env \<noteq> we_wq env1" "we_cq env \<noteq> we_cq env1"
    using nth_eq_iff_index_eq [OF d(1), of i j] nth_eq_iff_index_eq [OF d(2), of i j] i j by simp_all
  moreover have "(env, p) \<in> set ts" "(env1, p1) \<in> set ts" using i j by (metis nth_mem)+
  then have "nic_frame (we_nic env) (we_wq env1) (we_cq env1)" using ok by (auto simp: threads_ok_def)
  ultimately show ?thesis using worker_iter_other [OF it set] by simp
qed

lemma nf_inv_turn:
  assumes ok: "threads_ok S ts ctx0 m0" and set: "worker_setting env p ctx S (own_qp env p)"
    and inv: "nf_inv S ts m ws" and i: "i < length ts" "ts ! i = (env, p)" "ws ! i = Some s"
    and it: "worker_iter env p ctx (own_buf env) (s\<lparr>ws_m := m\<rparr>) = Some (Inr (fin, s1))"
  shows "nf_inv S ts (ws_m s1) (ws[i := if fin then None else Some s1])"
  unfolding nf_inv_def
proof (intro conjI allI impI)
  note wk = nf_invD(2) [OF inv i]
  have len: "length ws = length ts" using inv by (simp add: nf_inv_def)
  then show "length (ws[i := if fin then None else Some s1]) = length ts" by simp
  fix j
  assume j: "j < length ts"
  obtain env1 p1 where tj: "ts ! j = (env1, p1)" by (cases "ts ! j")
  show "case ts ! j of (env, p) \<Rightarrow> replied S env p (ws_m s1) \<and>
      (case ws[i := if fin then None else Some s1] ! j of None \<Rightarrow> True
       | Some s \<Rightarrow> wk_inv env p (own_qp env p) (own_buf env) S (s\<lparr>ws_m := ws_m s1\<rparr>))"
  proof (cases "j = i")
    case True
    with tj i len turn_replied [OF it set wk] worker_iter_ok [OF it set wk] show ?thesis by simp
  next
    case False
    note f = turn_frame [OF ok i(1,2) it set j tj False, simplified]
    have "wk_inv env1 p1 (own_qp env1 p1) (own_buf env1) S (s2\<lparr>ws_m := ws_m s1\<rparr>)" if "ws ! j = Some s2" for s2
      using wk_inv_frame [OF nf_invD(2) [OF inv j tj that], of "ws_m s1"] f by simp
    with nf_invD(1) [OF inv j tj] f False tj show ?thesis by (simp add: replied_frame split: option.splits)
  qed
qed

lemma nf_inv_start:
  assumes "threads_started S ts ctx m"
  shows "nf_inv S ts m (map (\<lambda>(env, p). Some (worker_start p m)) ts)"
  unfolding nf_inv_def
proof (intro conjI allI impI)
  fix i
  assume i: "i < length ts"
  obtain env p where t: "ts ! i = (env, p)" by (cases "ts ! i")
  have inv: "wk_inv env p (own_qp env p) (own_buf env) S (worker_start p m)"
    using threads_startedD [OF assms i t] by (intro worker_start_inv) (simp_all add: worker_setting_def)
  have "replied S env p m" using wk_inv_replied [OF inv, of m "[]"] by (simp add: worker_start_def)
  with t i inv show "case ts ! i of (env, p) \<Rightarrow> replied S env p m \<and>
      (case map (\<lambda>(env, p). Some (worker_start p m)) ts ! i of None \<Rightarrow> True
       | Some s \<Rightarrow> wk_inv env p (own_qp env p) (own_buf env) S (s\<lparr>ws_m := m\<rparr>))"
    by (simp add: worker_start_def)
qed simp

lemma nf_reach_inv:
  assumes "nf_reach ts ctx m0 sched m ws" and ok: "threads_ok S ts ctx0 m1" and st: "threads_started S ts ctx m0"
  shows "nf_inv S ts m ws"
  using assms(1)
proof induction
  case barrier
  from st show ?case by (rule nf_inv_start)
next
  case (turn sched m ws i env p s fin s1)
  with nf_inv_turn [OF ok threads_startedD(1) [OF st] turn.IH] show ?case by blast
next
  case (signal sched m ws notify)
  then have "qp_frame wqp cqp m (notify m)" for wqp cqp
    by (auto simp: monitor_client_done_def register_done_sending_def notify_done_to_zsim_def register_buffer_def
        intro!: qp_frame_eq)
  with signal.IH show ?case by (rule nf_inv_frame)
next
  case (beat sched m ws i env p)
  from threads_startedD(1) [OF st beat.hyps(2,3)] have "qp_frame wqp cqp m (we_heartbeat env m)" for wqp cqp
    by (auto simp: worker_setting_def heartbeat_frame_def intro!: qp_frame_eq)
  with beat.IH show ?case by (rule nf_inv_frame)
qed

section \<open>Properties\<close>

text \<open>
  C5. All threads together: threads with distinct numbers and queue pairs register without an
  error, and then, in whatever order they take their turns on the shared machine, and as long as
  each of them runs, every thread, running or ended, has answered the packets of its own
  completion queue once each, in the order of arrival, to their senders, all but at most a batch of
  the last ones, and a turn of a running thread can fail only by a completion that names a slot
  outside the work queue or by the overflow of a counter.
\<close>

theorem threads_reply_in_order:
  assumes "threads_ok S ts ctx m"
  shows "\<exists>ctx1 m1. register_threads ts ctx m = Inr (ctx1, m1) \<and>
    (\<forall>sched m2 ws. nf_reach ts ctx1 m1 sched m2 ws \<longrightarrow>
       (\<forall>i < length ts. case ts ! i of (env, p) \<Rightarrow> replied S env p m2 \<and>
          (\<forall>s e. ws ! i = Some s \<longrightarrow> worker_iter env p ctx1 (own_buf env) (s\<lparr>ws_m := m2\<rparr>) = Some (Inl e) \<longrightarrow>
             e = Out_of_bounds \<or> e = Signed_overflow)))"
proof -
  from threads_start [OF assms] obtain ctx1 m1 where r: "register_threads ts ctx m = Inr (ctx1, m1)"
    and st: "threads_started S ts ctx1 m1" by blast
  have "replied S env p m2 \<and> (\<forall>s e. ws ! i = Some s \<longrightarrow>
      worker_iter env p ctx1 (own_buf env) (s\<lparr>ws_m := m2\<rparr>) = Some (Inl e) \<longrightarrow> e = Out_of_bounds \<or> e = Signed_overflow)"
    if "nf_reach ts ctx1 m1 sched m2 ws" and i: "i < length ts" "ts ! i = (env, p)" for sched m2 ws i env p
    using nf_invD [OF nf_reach_inv [OF that(1) assms st] i] threads_startedD(1) [OF st i] worker_iter_ok by fastforce
  with r show ?thesis by (auto split: prod.splits)
qed

text \<open>Two threads with a queue pair each.\<close>

definition second_env :: worker_env where
  "second_env = demo_env\<lparr>we_lbuf := 0x9000, we_wq := 0x1100, we_cq := 0x2100\<rparr>"

definition duo :: "(worker_env \<times> thread_params) list" where
  "duo = [(demo_env, demo_params 4), (second_env, (demo_params 4)\<lparr>tp_id := 1\<rparr>)]"

definition duo_ctx :: rpcNUMAContext where
  "duo_ctx = demo_ctx\<lparr>rc_qps := [None, None], rc_app_buffers := [None, None]\<rparr>"

definition duo_machine :: machine where
  "duo_machine = demo_machine\<lparr>wq_at := [0x1000 \<mapsto> idle_wq, 0x1100 \<mapsto> idle_wq], cq_at := [0x2000 \<mapsto> one_send_cq, 0x2100 \<mapsto> idle_cq]\<rparr>"

lemma duo_ok: "threads_ok 512 duo duo_ctx duo_machine"
proof -
  have "worker_setting demo_env (demo_params 4) demo_ctx 512 demo_qp" by (rule demo_setting) simp
  then have e: "heartbeat_frame (we_heartbeat demo_env)" "junk_ok demo_env" "\<And>wqp cqp. nic_frame (we_nic demo_env) wqp cqp"
    by (simp_all add: worker_setting_def) (simp add: demo_env_def)
  moreover have "junk_ok second_env" "we_heartbeat second_env = we_heartbeat demo_env" "we_nic second_env = we_nic demo_env"
    using e(2) by (simp_all add: junk_ok_def second_env_def)
  moreover have "ctx_sized 512 duo_ctx" using demo_ctx_simps(1) by (simp add: ctx_sized_def duo_ctx_def)
  moreover have "fresh_machine demo_env (own_qp demo_env (demo_params 4)) duo_machine"
    "fresh_machine second_env (own_qp second_env ((demo_params 4)\<lparr>tp_id := 1\<rparr>)) duo_machine"
    using one_send_cq_inv
    by (simp_all add: fresh_machine_def qp_ok_def duo_machine_def second_env_def demo_env_def demo_machine_def cq_demo_def wq_demo_def)
  ultimately show ?thesis
    by (simp add: threads_ok_def duo_def duo_ctx_def) (simp add: demo_params_def second_env_def demo_env_def)
qed

text \<open>The first of them takes a turn, in which it receives and answers a packet.\<close>

lemma duo_turn:
  "\<exists>ctx1 m1 m2 ws e s. register_threads duo duo_ctx duo_machine = Inr (ctx1, m1) \<and> nf_reach duo ctx1 m1 [0] m2 ws \<and>
     delivered m2 (we_cq demo_env) = [e] \<and> ws ! 0 = Some s"
proof -
  let ?p = "demo_params 4" and ?qp = "own_qp demo_env (demo_params 4)"
  from threads_start [OF duo_ok] obtain ctx1 m1 where r: "register_threads duo duo_ctx duo_machine = Inr (ctx1, m1)"
    and st: "threads_started 512 duo ctx1 m1" by blast
  from r obtain g where g: "m1 = duo_machine\<lparr>magic := g\<rparr>"
    using register_threads_ok [of duo duo_ctx duo_machine] duo_ok by (auto simp: threads_ok_def)
  have i: "0 < length duo" "duo ! 0 = (demo_env, ?p)" by (simp_all add: duo_def)
  note set = threads_startedD [OF st i]
  let ?s = "worker_start ?p m1"
  have qp: "qp_wq ?qp = qp_wq demo_qp" "qp_cq ?qp = qp_cq demo_qp" by (simp_all add: demo_env_def)
  have q: "nic_quiet (we_nic demo_env) (qp_wq ?qp) (qp_cq ?qp)" "nic_flag_quiet (we_nic demo_env) (we_client_done demo_env)"
    by (simp_all add: demo_env_def)
  have rd: "recv_ready ?qp (we_client_done demo_env) False 1 one_send_cq (ws_m ?s)"
    using demo_ready unfolding recv_ready_def qp by (simp add: g duo_machine_def worker_start_def demo_machine_def cq_demo_def wq_demo_def)
  have inv: "wk_inv demo_env ?p ?qp (own_buf demo_env) 512 ?s" by (rule worker_start_inv [OF set(2)]) (simp add: demo_params_def)
  have w: "ws_tmp_count ?s < 1010" "ws_rolling_iter ?s < 9223372036854775807" by (simp_all add: worker_start_def)
  from worker_turn_answers [OF set(1) inv q rd _ w] obtain s1 e where
    s1: "worker_iter demo_env ?p ctx1 (own_buf demo_env) ?s = Some (Inr (False, s1))" "packets ?qp s1 = packets ?qp ?s @ [e]" by auto
  let ?ws = "map (\<lambda>(env, p). Some (worker_start p m1)) duo"
  have ws: "?ws ! 0 = Some ?s" by (simp add: duo_def)
  have m: "?s\<lparr>ws_m := m1\<rparr> = ?s" by (simp add: worker_start_def)
  from nf_reach.turn [OF nf_reach.barrier i ws] s1(1) m have "nf_reach duo ctx1 m1 [0] (ws_m s1) (?ws[0 := Some s1])" by fastforce
  moreover have "?ws[0 := Some s1] ! 0 = Some s1" by (simp add: duo_def)
  moreover have "packets ?qp ?s = []" using set(2) by (simp add: packets_def fresh_machine_def worker_start_def)
  moreover have "delivered (ws_m s1) (we_cq demo_env) = packets ?qp s1" by (simp add: packets_def)
  ultimately show ?thesis using r s1(2) by (metis append_Nil)
qed

theorem threads_reply_in_order_witness:
  "\<exists>ctx1 m1 m2 ws e. register_threads duo duo_ctx duo_machine = Inr (ctx1, m1) \<and> nf_reach duo ctx1 m1 [0] m2 ws \<and>
     delivered m2 (we_cq demo_env) = [e] \<and>
     replied 512 demo_env (demo_params 4) m2 \<and> replied 512 second_env ((demo_params 4)\<lparr>tp_id := 1\<rparr>) m2"
proof -
  from duo_turn obtain ctx1 m1 m2 ws e where t: "register_threads duo duo_ctx duo_machine = Inr (ctx1, m1)"
    "nf_reach duo ctx1 m1 [0] m2 ws" "delivered m2 (we_cq demo_env) = [e]" by blast
  from threads_reply_in_order [OF duo_ok] t(1,2) have "\<forall>i < length duo. case duo ! i of (env, p) \<Rightarrow> replied 512 env p m2"
    by (fastforce split: prod.splits)
  then have "replied 512 demo_env (demo_params 4) m2" "replied 512 second_env ((demo_params 4)\<lparr>tp_id := 1\<rparr>) m2"
    by (auto simp: duo_def less_Suc_eq)
  with t show ?thesis by blast
qed

end
