(* ===== verification/Threads_End.thy ===== *)
theory Threads_End
  imports Threads
begin

text \<open>
  The threads end, whatever the scheduler does: when the NIC keeps completing posted entries, has no
  more completions from some turn on and the clients are done by then, the number of turns of all
  threads together is bounded, and every run can be continued until each thread has left its loop or
  has stopped at a fault.
\<close>

section \<open>The number of turns\<close>

text \<open>What is left of the time to \<open>T\<close>, and the threads that still run.\<close>

definition turns_left :: "nat \<Rightarrow> machine \<Rightarrow> worker_state option list \<Rightarrow> nat" where
  "turns_left T m ws = (T - now m) + length (filter (\<lambda>w. w \<noteq> None) ws)"

definition all_wind_down :: "(worker_env \<times> thread_params) list \<Rightarrow> nat \<Rightarrow> bool" where
  "all_wind_down ts T \<longleftrightarrow> list_all (\<lambda>(env, p). winds_down env (own_qp env p) T) ts"

lemma all_wind_downD: "all_wind_down ts T \<Longrightarrow> i < length ts \<Longrightarrow> ts ! i = (env, p) \<Longrightarrow> winds_down env (own_qp env p) T"
  by (auto simp: all_wind_down_def list_all_length)

lemma filter_update_Some:
  "i < length ws \<Longrightarrow> ws ! i \<noteq> None \<Longrightarrow> length (filter (\<lambda>w. w \<noteq> None) (ws[i := Some s])) = length (filter (\<lambda>w. w \<noteq> None) ws)"
proof (induction ws arbitrary: i)
  case (Cons w ws)
  then show ?case by (cases i) auto
qed simp

lemma filter_update_None:
  "i < length ws \<Longrightarrow> ws ! i \<noteq> None \<Longrightarrow>
   Suc (length (filter (\<lambda>w. w \<noteq> None) (ws[i := None]))) = length (filter (\<lambda>w. w \<noteq> None) ws)"
proof (induction ws arbitrary: i)
  case (Cons w ws)
  then show ?case by (cases i) auto
qed simp

lemma turns_left_turn:
  assumes "i < length ws" "ws ! i \<noteq> None" "now m < now m1" "T \<le> now m \<Longrightarrow> fin"
  shows "turns_left T m1 (ws[i := if fin then None else Some s]) < turns_left T m ws"
proof (cases fin)
  case True
  with assms(3) filter_update_None [OF assms(1,2)] show ?thesis by (simp add: turns_left_def)
next
  case False
  then have "now m < T" using assms(4) by linarith
  with False assms(3) filter_update_Some [OF assms(1,2), of s] show ?thesis by (simp add: turns_left_def)
qed

lemma notify_now:
  "notify \<in> {monitor_client_done, register_done_sending, notify_done_to_zsim} \<Longrightarrow> now (notify m) = now m"
  by (auto simp: monitor_client_done_def register_done_sending_def notify_done_to_zsim_def)

lemma nf_reach_turns:
  assumes "nf_reach ts ctx m0 sched m ws" and ok: "threads_ok S ts ctx0 m1" and st: "threads_started S ts ctx m0"
    and wd: "all_wind_down ts T"
  shows "length sched + turns_left T m ws \<le> (T - now m0) + length ts"
  using assms(1)
proof induction
  case barrier
  have "filter (\<lambda>w. w \<noteq> None) (map (\<lambda>(env, p). Some (worker_start p m0)) ts) = map (\<lambda>(env, p). Some (worker_start p m0)) ts"
    by (auto simp: filter_id_conv)
  then show ?case by (simp add: turns_left_def)
next
  case (turn sched m ws i env p s fin s1)
  note inv = nf_reach_inv [OF turn.hyps(1) ok st]
  note set = threads_startedD(1) [OF st turn.hyps(2,3)]
  have "i < length ws" using inv turn.hyps(2) by (simp add: nf_inv_def)
  moreover have "now m < now (ws_m s1)" using worker_iter_clock [OF turn.hyps(5) set] by simp
  moreover have "T \<le> now m \<Longrightarrow> fin"
    using worker_iter_winds_down(2) [OF set nf_invD(2) [OF inv turn.hyps(2-4)] all_wind_downD [OF wd turn.hyps(2,3)] _
        turn.hyps(5)] by simp
  ultimately have "turns_left T (ws_m s1) (ws[i := if fin then None else Some s1]) < turns_left T m ws"
    using turn.hyps(4) by (intro turns_left_turn) simp_all
  with turn.IH show ?case by simp
next
  case (signal sched m ws notify)
  then show ?case by (simp add: turns_left_def notify_now)
next
  case (beat sched m ws i env p)
  from threads_startedD(1) [OF st beat.hyps(2,3)] have "now m \<le> now (we_heartbeat env m)"
    by (simp add: worker_setting_def heartbeat_frame_def)
  with beat.IH show ?case by (simp add: turns_left_def)
qed

section \<open>Complete runs\<close>

text \<open>A thread is over if it has left its loop, or if its next turn stops at a fault.\<close>

definition thread_over ::
  "rpcNUMAContext \<Rightarrow> machine \<Rightarrow> worker_env \<times> thread_params \<Rightarrow> worker_state option \<Rightarrow> bool" where
  "thread_over ctx m t w \<longleftrightarrow>
     (case w of None \<Rightarrow> True
      | Some s \<Rightarrow> worker_iter (fst t) (snd t) ctx (own_buf (fst t)) (s\<lparr>ws_m := m\<rparr>)
                    \<in> {Some (Inl Out_of_bounds), Some (Inl Signed_overflow)})"

lemma running_can_turn:
  assumes reach: "nf_reach ts ctx m0 sched m ws" and ok: "threads_ok S ts ctx0 m1" and st: "threads_started S ts ctx m0"
    and wd: "all_wind_down ts T" and i: "i < length ts" "\<not> thread_over ctx m (ts ! i) (ws ! i)"
  shows "\<exists>m2 ws2. nf_reach ts ctx m0 (sched @ [i]) m2 ws2"
proof -
  obtain env p where t: "ts ! i = (env, p)" by (cases "ts ! i")
  from i(2) obtain s where s: "ws ! i = Some s" by (auto simp: thread_over_def split: option.splits)
  note inv = nf_invD(2) [OF nf_reach_inv [OF reach ok st] i(1) t s]
  note set = threads_startedD(1) [OF st i(1) t]
  from worker_iter_winds_down(1) [OF set inv all_wind_downD [OF wd i(1) t]] obtain y where
    y: "worker_iter env p ctx (own_buf env) (s\<lparr>ws_m := m\<rparr>) = Some y" by blast
  show ?thesis
  proof (cases y)
    case (Inl e)
    with worker_iter_ok [OF y set inv] y s t i(2) show ?thesis by (auto simp: thread_over_def)
  next
    case (Inr r)
    obtain fin s1 where "r = (fin, s1)" by (cases r)
    with nf_reach.turn [OF reach i(1) t s] y Inr show ?thesis by blast
  qed
qed

lemma run_completes:
  assumes ok: "threads_ok S ts ctx0 m1" and st: "threads_started S ts ctx m0" and wd: "all_wind_down ts T"
  shows "nf_reach ts ctx m0 sched m ws \<Longrightarrow> \<exists>more m2 ws2. nf_reach ts ctx m0 (sched @ more) m2 ws2 \<and>
    (\<forall>i < length ts. thread_over ctx m2 (ts ! i) (ws2 ! i))"
proof (induction "(T - now m0) + length ts - length sched" arbitrary: sched m ws rule: less_induct)
  case less
  show ?case
  proof (cases "\<forall>i < length ts. thread_over ctx m (ts ! i) (ws ! i)")
    case True
    with less.prems show ?thesis by (metis append_Nil2)
  next
    case False
    then obtain i m2 ws2 where r: "nf_reach ts ctx m0 (sched @ [i]) m2 ws2"
      using running_can_turn [OF less.prems ok st wd] by blast
    have "length (sched @ [i]) \<le> (T - now m0) + length ts" using nf_reach_turns [OF r ok st wd] by simp
    then have "(T - now m0) + length ts - length (sched @ [i]) < (T - now m0) + length ts - length sched" by simp
    from less.hyps [OF this r] show ?thesis by (metis append.assoc)
  qed
qed

section \<open>The end of all threads\<close>

text \<open>
  If the NIC keeps completing posted entries, and from its turn \<open>T\<close> on delivers no more completions
  while the clients are done, the threads take at most as many turns as are left to \<open>T\<close> and one more
  each, and every run they can have reached is the beginning of one at whose end each thread is over.
\<close>

lemma threads_end:
  assumes "threads_ok S ts ctx m" and "all_wind_down ts T"
  shows "\<exists>ctx1 m1. register_threads ts ctx m = Inr (ctx1, m1) \<and>
    (\<forall>sched m2 ws. nf_reach ts ctx1 m1 sched m2 ws \<longrightarrow> length sched \<le> (T - now m) + length ts \<and>
       (\<exists>more m3 ws3. nf_reach ts ctx1 m1 (sched @ more) m3 ws3 \<and>
          (\<forall>i < length ts. thread_over ctx1 m3 (ts ! i) (ws3 ! i))))"
proof -
  from threads_start [OF assms(1)] obtain ctx1 m1 where r: "register_threads ts ctx m = Inr (ctx1, m1)" "now m1 = now m"
    and st: "threads_started S ts ctx1 m1" by blast
  have "length sched \<le> (T - now m) + length ts" if "nf_reach ts ctx1 m1 sched m2 ws" for sched m2 ws
    using nf_reach_turns [OF that assms(1) st assms(2)] r(2) by simp
  with r(1) run_completes [OF assms(1) st assms(2)] show ?thesis by blast
qed

end
