(* ===== verification/Worker_Memory.thy ===== *)
theory Worker_Memory
  imports Threads
begin

text \<open>
  What the threads write to memory: a thread stores four bytes per reply, into the slots of its own
  local buffer, and nothing else. The locale \<open>turn_stable\<close>, interpreted for the byte at an address
  outside the slots of a buffer, carries this from the single store to whole runs of all threads.
\<close>

section \<open>Outside the slots\<close>

text \<open>The 256 slots of a buffer, of which only the first four bytes each are written.\<close>

definition outside :: "NIExposedBuffer \<Rightarrow> nat \<Rightarrow> addr \<Rightarrow> bool" where
  "outside buf S a \<longleftrightarrow> 255 * S + 4 \<le> unat (a - underlyingBuffer buf)"

lemma slot_store_outside:
  assumes "outside buf S a" "k < 256"
  shows "store32 m (underlyingBuffer buf + of_nat (k * S)) v a = m a"
proof -
  let ?b = "underlyingBuffer buf"
  have k: "k * S \<le> 255 * S" using assms(2) by simp
  then have "k * S \<le> unat (a - ?b)" using assms(1) unfolding outside_def by linarith
  note unat_minus_offset [OF this]
  then have "4 \<le> unat (a - (?b + of_nat (k * S)))" using assms(1) k unfolding outside_def by linarith
  then show ?thesis unfolding store32_def by (intro store_bytes_outside) simp
qed

text \<open>The surroundings of a thread leave a byte alone.\<close>

definition quiet_at :: "worker_env \<Rightarrow> addr \<Rightarrow> bool" where
  "quiet_at env a \<longleftrightarrow> nic_mem_quiet (we_nic env) a \<and> (\<forall>m. mem (we_heartbeat env m) a = mem m a)"

lemma quiet_at_turn [simp]: "quiet_at env a \<Longrightarrow> mem (nic_turn (we_nic env) m) a = mem m a"
  by (simp add: quiet_at_def nic_mem_quiet_def nic_turn_def)

lemma magic_mem [simp]:
  "mem (timestamp n m) = mem m" "mem (monitor_client_done m) = mem m"
  "mem (register_done_sending m) = mem m" "mem (notify_done_to_zsim m) = mem m"
  by (simp_all add: register_buffer_def timestamp_def monitor_client_done_def register_done_sending_def
      notify_done_to_zsim_def)

interpretation turn_memory: turn_stable env "\<lambda>m. quiet_at env a \<and> outside buf S a \<and> mem m a = v" cqp wqp buf S
  for env a buf S v cqp wqp
proof unfold_locales
  show "quiet_at env a \<and> outside buf S a \<and> mem m1 a = v"
    if "quiet_at env a \<and> outside buf S a \<and> mem m a = v" "rmc_hw_send wqp cid b len nid m = Inr (r, m1)" for m cid b len nid r m1
    using that post_mem [of wqp cid b len nid m r m1] by simp
  show "quiet_at env a \<and> outside buf S a \<and> mem m1 a = v"
    if "quiet_at env a \<and> outside buf S a \<and> mem m a = v" "rmc_hw_recv wqp cid b len m = Inr (r, m1)" for m cid b len r m1
    using that post_mem [of wqp cid b len _ m r m1] by simp
  show "quiet_at env a \<and> outside buf S a \<and> mem (m\<lparr>mem := store32 (mem m) (underlyingBuffer buf + of_nat (k * S)) w\<rparr>) a = v"
    if "quiet_at env a \<and> outside buf S a \<and> mem m a = v" "k < 256" for m :: machine and k w
    using that slot_store_outside by simp
  show "quiet_at env a \<and> outside buf S a \<and> mem (we_heartbeat env m) a = v"
    if "quiet_at env a \<and> outside buf S a \<and> mem m a = v" for m
    using that by (simp add: quiet_at_def)
qed (simp_all add: store_cq_def)

lemma worker_iter_memory:
  assumes "worker_iter env p ctx buf s = Some (Inr (fin, s1))" "worker_setting env p ctx S qp"
    and "quiet_at env a" "outside buf S a"
  shows "mem (ws_m s1) a = mem (ws_m s) a"
proof -
  from assms(2) have "ctx_sized S ctx" "load_qp ctx (tp_id p) = Inr qp" by (simp_all add: worker_setting_def)
  from turn_memory.iter [OF assms(1) _ this refl refl, of a "mem (ws_m s) a"] assms(3,4) show ?thesis by simp
qed

lemma nf_reach_memory:
  assumes "nf_reach ts ctx m0 sched m ws" and st: "threads_started S ts ctx m0"
    and quiet: "\<forall>(env, p) \<in> set ts. quiet_at env a"
  shows "\<forall>i \<in> set sched. outside (own_buf (fst (ts ! i))) S a \<Longrightarrow> mem m a = mem m0 a"
  using assms(1)
proof induction
  case (turn sched m ws i env p s fin s1)
  have q: "quiet_at env a" using quiet turn.hyps(2,3) nth_mem [of i ts] by auto
  have "outside (own_buf env) S a" using turn.prems turn.hyps(3) by simp
  from worker_iter_memory [OF turn.hyps(5) threads_startedD(1) [OF st turn.hyps(2,3)] q this] turn.IH turn.prems
  show ?case by simp
next
  case (beat sched m ws i env p)
  have "quiet_at env a" using quiet beat.hyps(2,3) nth_mem [of i ts] by auto
  with beat.IH beat.prems show ?case by (simp add: quiet_at_def)
qed auto

section \<open>Properties\<close>



end
