(* ===== verification/Worker_Log.thy ===== *)
theory Worker_Log
  imports Worker_Props Worker_Stable
begin

text \<open>
  What the simulator learns from a thread through the magic instructions: one notification per entry
  the thread writes to its work queue, and four time stamps per packet, numbered by the packets.
\<close>

section \<open>Notifications and time stamps in the log\<close>

definition noted :: "u64 \<Rightarrow> machine \<Rightarrow> magic_arg list" where
  "noted f m = map fst (filter (\<lambda>x. snd x = f) (magic m))"

text \<open>The NIC leaves the log alone, and the heartbeat hook adds neither notifications nor time stamps.\<close>

definition log_quiet :: "worker_env \<Rightarrow> bool" where
  "log_quiet env \<longleftrightarrow> (\<forall>t m. magic (we_nic env t m) = magic m) \<and>
     (\<forall>m. \<forall>f \<in> {NOTIFY_WQ_WRITE, 0x13}. noted f (we_heartbeat env m) = noted f m)"

lemma noted_cong: "magic m1 = magic m \<Longrightarrow> noted f m1 = noted f m"
  by (simp add: noted_def)

lemma noted_simps [simp]:
  "noted f (register_buffer v g m) = noted f m @ (if g = f then [v] else [])"
  "noted f (store_cq p c m) = noted f m" "noted f (store_wq p w m) = noted f m"
  "noted f (m\<lparr>mem := h\<rparr>) = noted f m" "noted f (m\<lparr>delivered := d\<rparr>) = noted f m" "noted f (m\<lparr>posted := q\<rparr>) = noted f m"
  by (simp_all add: noted_def register_buffer_def store_cq_def store_wq_def)

lemma noted_timestamp [simp]:
  "noted f (timestamp n m) = noted f m @ (if f = 0x13 then [Imm (word_of_int n)] else [])"
  by (simp add: timestamp_def)

lemma noted_turn [simp]: "log_quiet env \<Longrightarrow> noted f (nic_turn (we_nic env) m) = noted f m"
  by (rule noted_cong) (simp add: log_quiet_def nic_turn_def)

text \<open>A post is notified exactly when it writes an entry.\<close>

lemma post_noted:
  assumes "rmc_hw_send p cid a len nid m = Inr (r, m1) \<or> rmc_hw_recv p cid a len m = Inr (r, m1)"
  shows "(m1 = m \<or> (\<exists>e. posted m1 p = posted m p @ [e] \<and> noted NOTIFY_WQ_WRITE m1 = noted NOTIFY_WQ_WRITE m @ [Imm NULL])) \<and>
    (f \<noteq> NOTIFY_WQ_WRITE \<longrightarrow> noted f m1 = noted f m)"
  using assms
  by (auto simp: rmc_hw_send_def rmc_hw_recv_def create_wq_entry_def Let_def bindR_eq_Inr load_wq_def store_wq_def
      register_buffer_def noted_def split: if_splits)

text \<open>The notifications and the entries of the thread's work queue, since the state with \<open>v\<close> and none.\<close>

definition notified :: "addr \<Rightarrow> magic_arg list \<Rightarrow> machine \<Rightarrow> bool" where
  "notified wqp v m \<longleftrightarrow> noted NOTIFY_WQ_WRITE m = v @ replicate (length (posted m wqp)) (Imm NULL)"

lemma notified_post:
  assumes "rmc_hw_send p cid a len nid m = Inr (r, m1) \<or> rmc_hw_recv p cid a len m = Inr (r, m1)" "notified p v m"
  shows "notified p v m1"
  using post_noted [OF assms(1), of NOTIFY_WQ_WRITE] assms(2) by (auto simp: notified_def replicate_append_same)

lemma notified_cong:
  "noted NOTIFY_WQ_WRITE m1 = noted NOTIFY_WQ_WRITE m \<Longrightarrow> posted m1 p = posted m p \<Longrightarrow> notified p v m1 = notified p v m"
  by (simp add: notified_def)

interpretation turn_notified: turn_stable env
  "\<lambda>m. log_quiet env \<and> nic_frame (we_nic env) wqp cqp \<and> heartbeat_frame (we_heartbeat env) \<and> notified wqp v m" cqp wqp buf S
  for env wqp cqp v buf S
proof -
  let ?I = "\<lambda>m. log_quiet env \<and> nic_frame (we_nic env) wqp cqp \<and> heartbeat_frame (we_heartbeat env) \<and> notified wqp v m"
  show "turn_stable env ?I cqp wqp buf S"
  proof unfold_locales
    fix m
    assume I: "?I m"
    have "posted (nic_turn (we_nic env) m) wqp = posted m wqp" using I by (simp add: nic_frame_def nic_turn_def qp_frame_def)
    with I show "?I (nic_turn (we_nic env) m)" by (simp add: notified_def)
    show "?I m1" if "rmc_hw_send wqp cid a len nid m = Inr (r, m1)" for cid a len nid r m1
      using I that notified_post [of wqp cid a len nid m r m1] by simp
    show "?I m1" if "rmc_hw_recv wqp cid a len m = Inr (r, m1)" for cid a len r m1
      using I that notified_post [of wqp cid a len _ m r m1] by simp
    show "?I (we_heartbeat env m)" using I by (simp add: notified_def log_quiet_def heartbeat_frame_def)
    show "?I (store_cq cqp c m)" for c using I by (simp add: notified_def)
    show "?I (m\<lparr>delivered := (delivered m)(cqp := d)\<rparr>)" for d using I by (simp add: notified_def)
    show "?I (m\<lparr>mem := store32 (mem m) (underlyingBuffer buf + of_nat (k * S)) w\<rparr>)" for k w using I by (simp add: notified_def)
    show "?I (register_buffer (Imm 1) f m)" if "f = 0x11 \<or> f = 0x12" for f
      using I that by (auto simp: notified_def NOTIFY_WQ_WRITE_def)
    show "?I (timestamp n m)" for n using I by (simp add: notified_def NOTIFY_WQ_WRITE_def)
  qed
qed

interpretation poll_stamps: poll_stable "we_nic env" "\<lambda>m. log_quiet env \<and> noted 0x13 m = v" cqp for env v cqp
  by unfold_locales auto

interpretation slot_stamps: slot_stable "we_nic env" "\<lambda>m. log_quiet env \<and> noted 0x13 m = v" wqp buf S for env v wqp buf S
proof unfold_locales
  fix m
  assume I: "log_quiet env \<and> noted 0x13 m = v"
  show "log_quiet env \<and> noted 0x13 m1 = v" if "rmc_hw_send wqp cid a len nid m = Inr (r, m1)" for cid a len nid r m1
    using I that post_noted [of wqp cid a len nid m r m1 "0x13"] by (simp add: NOTIFY_WQ_WRITE_def)
  show "log_quiet env \<and> noted 0x13 m1 = v" if "rmc_hw_recv wqp cid a len m = Inr (r, m1)" for cid a len r m1
    using I that post_noted [of wqp cid a len _ m r m1 "0x13"] by (simp add: NOTIFY_WQ_WRITE_def)
qed simp_all

section \<open>The log of a thread\<close>

text \<open>The time stamps of the first \<open>n\<close> packets: the packet's number, four times.\<close>

definition stamps :: "nat \<Rightarrow> magic_arg list" where
  "stamps n = concat (map (\<lambda>i. replicate 4 (Imm (of_nat (Suc i)))) [0..<n])"

lemma stamps_simps [simp]:
  "stamps 0 = []"
  "stamps (Suc n) = stamps n @ [Imm (of_nat (Suc n)), Imm (of_nat (Suc n)), Imm (of_nat (Suc n)), Imm (of_nat (Suc n))]"
  by (simp_all add: stamps_def eval_nat_numeral)

definition log_ok :: "worker_env \<Rightarrow> soNUMAQP_T \<Rightarrow> machine \<Rightarrow> worker_state \<Rightarrow> bool" where
  "log_ok env qp m0 s \<longleftrightarrow> notified (qp_wq qp) (noted NOTIFY_WQ_WRITE m0) (ws_m s) \<and>
     noted 0x13 (ws_m s) = noted 0x13 m0 @ stamps (length (packets qp s))"

text \<open>What one turn adds to the time stamps: those of the packet it received, if it received one.\<close>

definition stamped_by :: "soNUMAQP_T \<Rightarrow> worker_state \<Rightarrow> worker_state \<Rightarrow> bool" where
  "stamped_by qp s s1 \<longleftrightarrow> (\<exists>vs. noted 0x13 (ws_m s1) = noted 0x13 (ws_m s) @ vs \<and>
     stamps (length (packets qp s1)) = stamps (length (packets qp s)) @ vs)"

lemma worker_count_stamps:
  assumes "worker_count env p rpc s2 = Inr s3" "wk_got env qp rpc s s2 cs" "ws_tmp_count s = int (length (packets qp s))"
    and "noted 0x13 (ws_m s2) = noted 0x13 (ws_m s)"
  shows "stamped_by qp s s3"
proof (cases "payload_len rpc = 0xbeef")
  case True
  with assms show ?thesis by (auto simp: worker_count_idle wk_got_def packets_def stamped_by_def)
next
  case False
  from worker_count_packet [OF assms(1) this] obtain n m where
    n: "n = ws_tmp_count s2 + 1" and m: "m = timestamp n (timestamp n (timestamp n (timestamp n (ws_m s2))))" and
    s3: "s3 = s2\<lparr>ws_batch_size := if ws_tmp_count s2 < 1010 then 1 else tp_batch_size p, ws_m := m,
      ws_batch_counter := ws_batch_counter s2 + 1, ws_tmp_count := n\<rparr>" .
  from False assms(2) obtain e where "cs = [e]" by (cases cs) (auto simp: wk_got_def)
  with assms(2) have "packets qp s3 = packets qp s @ [e]" by (simp add: s3 m packets_def wk_got_def)
  moreover have "n = int (Suc (length (packets qp s)))" using assms(2,3) n by (simp add: wk_got_def)
  ultimately show ?thesis using assms(4) by (simp add: s3 m stamped_by_def)
qed

lemma worker_iter_stamps:
  assumes it: "worker_iter env p ctx buf s = Some (Inr (fin, s1))" and set: "worker_setting env p ctx S qp"
    and inv: "wk_inv env p qp buf S s" and quiet: "log_quiet env"
  shows "if fin then noted 0x13 (ws_m s1) = noted 0x13 (ws_m s) else stamped_by qp s s1"
proof -
  from set have st: "ctx_sized S ctx" "load_qp ctx (tp_id p) = Inr qp" and hb: "heartbeat_frame (we_heartbeat env)"
    by (simp_all add: worker_setting_def)
  have recv: "noted 0x13 (ws_m s2) = noted 0x13 (ws_m s)" if "worker_recv env p ctx s = Some (Inr (rpc, s2))" for rpc s2
    using poll_stamps.taken [OF that _ refl st(2) refl, of "noted 0x13 (ws_m s)"] quiet by simp
  from it show ?thesis
  proof (cases rule: worker_iter_returned)
    case (go rpc s2 s3 s4)
    from worker_recv_ok [OF go(1) set inv] go(2) obtain cs where "wk_got env qp rpc s s2 cs" by auto
    note got = wk_got_beat [OF this hb]
    have "noted 0x13 (ws_m (worker_beat env s2)) = noted 0x13 (ws_m s)"
      using quiet recv [OF go(1)] by (simp add: worker_beat_def log_quiet_def)
    then have "stamped_by qp s s3"
      by (intro worker_count_stamps [OF go(4) got]) (use inv in \<open>simp_all add: wk_inv_def wk_core_def\<close>)
    moreover have "noted 0x13 (ws_m s4) = noted 0x13 (ws_m s3)"
      using slot_stamps.flushed [OF go(5) _ refl st(1,2) refl, of "noted 0x13 (ws_m s3)"] quiet by simp
    ultimately show ?thesis using worker_flush_packets [OF go(5) set] go(3,6) by (simp add: packets_def stamped_by_def)
  qed (use recv in simp)
qed

lemma worker_iter_notified:
  assumes "worker_iter env p ctx buf s = Some (Inr (fin, s1))" "worker_setting env p ctx S qp" "log_quiet env"
    and "notified (qp_wq qp) v (ws_m s)"
  shows "notified (qp_wq qp) v (ws_m s1)"
proof -
  from assms(2) have st: "ctx_sized S ctx" "load_qp ctx (tp_id p) = Inr qp" "nic_frame (we_nic env) (qp_wq qp) (qp_cq qp)"
    "heartbeat_frame (we_heartbeat env)" by (simp_all add: worker_setting_def)
  from turn_notified.iter [OF assms(1) _ st(1,2) refl refl, of v] assms(3,4) st(3,4) show ?thesis by simp
qed

lemma worker_iter_log:
  assumes "worker_iter env p ctx buf s = Some (Inr (False, s1))" "worker_setting env p ctx S qp"
    and "wk_inv env p qp buf S s" "log_quiet env" "log_ok env qp m0 s"
  shows "log_ok env qp m0 s1"
  using worker_iter_notified [OF assms(1,2,4)] worker_iter_stamps [OF assms(1-4)] assms(5)
  by (auto simp: log_ok_def stamped_by_def)

section \<open>Properties\<close>

text \<open>
  What the simulator is told: at every turn of the loop, each entry the thread has written to its
  work queue was notified by exactly one magic instruction, refused posts by none; and each received
  packet was stamped exactly four times, with its number, in the order of arrival.
\<close>

theorem worker_log_exact:
  assumes "worker_setting env p ctx S qp" and "fresh_machine env qp m" and "log_quiet env"
    and "worker_reach env p ctx buf (worker_start p m) s"
  shows "noted NOTIFY_WQ_WRITE (ws_m s) =
      noted NOTIFY_WQ_WRITE m @ replicate (length (posted (ws_m s) (qp_wq qp))) (Imm NULL) \<and>
    noted 0x13 (ws_m s) = noted 0x13 m @ stamps (length (packets qp s))"
proof -
  have "0 < unat (tp_batch_size p)" using assms(1) by (simp add: worker_setting_def)
  note start = worker_start_inv [OF assms(2) this]
  from assms(4) have "log_ok env qp m s"
  proof induction
    case enter
    then show ?case using assms(2) by (simp add: log_ok_def notified_def fresh_machine_def worker_start_def packets_def)
  next
    case (turn s s1)
    from worker_iter_log [OF turn.hyps(2) assms(1) worker_reach_inv [OF turn.hyps(1) assms(1) start] assms(3) turn.IH]
    show ?case .
  qed
  then show ?thesis by (simp add: log_ok_def notified_def)
qed

theorem worker_log_exact_witness:
  "\<exists>s e. worker_reach demo_env (demo_params 4) demo_ctx \<lparr>underlyingBuffer = 0x8000\<rparr>
     (worker_start (demo_params 4) demo_machine) s \<and> packets demo_qp s = [e] \<and>
     noted NOTIFY_WQ_WRITE (ws_m s) = replicate (length (posted (ws_m s) 0x1000)) (Imm NULL) \<and>
     noted 0x13 (ws_m s) = [Imm 1, Imm 1, Imm 1, Imm 1]"
proof -
  from demo_turn obtain s e where it: "worker_iter demo_env (demo_params 4) demo_ctx \<lparr>underlyingBuffer = 0x8000\<rparr>
     (worker_start (demo_params 4) demo_machine) = Some (Inr (False, s))" and s: "packets demo_qp s = [e]" by blast
  note r = worker_reach.turn [OF worker_reach.enter it]
  have set: "worker_setting demo_env (demo_params 4) demo_ctx 512 demo_qp" by (rule demo_setting) simp
  have q: "log_quiet demo_env" by (simp add: log_quiet_def demo_env_def no_nic_def)
  have "noted f demo_machine = []" for f by (simp add: noted_def demo_machine_def cq_demo_def wq_demo_def)
  with worker_log_exact [OF set demo_fresh q r] s
  have "noted NOTIFY_WQ_WRITE (ws_m s) = replicate (length (posted (ws_m s) 0x1000)) (Imm NULL)"
    "noted 0x13 (ws_m s) = [Imm 1, Imm 1, Imm 1, Imm 1]" by simp_all
  with r s show ?thesis by blast
qed

end
