(* ===== verification/Threads_Log.thy ===== *)
theory Threads_Log
  imports Threads Worker_Log "HOL-Library.Multiset"
begin

text \<open>
  What the simulator learns from all threads together. The threads share one log of magic
  instructions, in which their turns leave notifications and time stamps in the order of the
  schedule; over every schedule the totals are exact.
\<close>

section \<open>Sums over the threads\<close>

lemma sum_one:
  fixes f g :: "nat \<Rightarrow> 'b::comm_monoid_add"
  assumes "i < n" "\<And>j. j < n \<Longrightarrow> j \<noteq> i \<Longrightarrow> g j = f j"
  shows "(\<Sum>j<n. f j) = (\<Sum>j \<in> {..<n} - {i}. f j) + f i" "(\<Sum>j<n. g j) = (\<Sum>j \<in> {..<n} - {i}. f j) + g i"
proof -
  have i: "i \<in> {..<n}" "finite {..<n}" using assms(1) by simp_all
  from sum.remove [OF i(2,1), of f] show "(\<Sum>j<n. f j) = (\<Sum>j \<in> {..<n} - {i}. f j) + f i" by (simp add: add.commute)
  have "(\<Sum>j \<in> {..<n} - {i}. g j) = (\<Sum>j \<in> {..<n} - {i}. f j)" using assms(2) by (intro sum.cong) auto
  with sum.remove [OF i(2,1), of g] show "(\<Sum>j<n. g j) = (\<Sum>j \<in> {..<n} - {i}. f j) + g i" by (simp add: add.commute)
qed

section \<open>The log of all threads\<close>

text \<open>The entries in the work queue and the packets of the \<open>i\<close>-th thread.\<close>

definition posts_of :: "(worker_env \<times> thread_params) list \<Rightarrow> machine \<Rightarrow> nat \<Rightarrow> nat" where
  "posts_of ts m i = length (posted m (we_wq (fst (ts ! i))))"

definition packets_of :: "(worker_env \<times> thread_params) list \<Rightarrow> machine \<Rightarrow> nat \<Rightarrow> nat" where
  "packets_of ts m i = length (delivered m (we_cq (fst (ts ! i))))"

text \<open>
  \<open>ns\<close> are the numbers of stamped packets: all packets of a running thread, all but at most the last
  one of a thread that has left its loop.
\<close>

definition stamp_counts ::
  "(worker_env \<times> thread_params) list \<Rightarrow> machine \<Rightarrow> worker_state option list \<Rightarrow> nat list \<Rightarrow> bool" where
  "stamp_counts ts m ws ns \<longleftrightarrow> length ns = length ts \<and>
     (\<forall>i < length ts. ns ! i \<le> packets_of ts m i \<and> packets_of ts m i \<le> Suc (ns ! i) \<and>
        (ws ! i \<noteq> None \<longrightarrow> ns ! i = packets_of ts m i))"

definition nf_log ::
  "(worker_env \<times> thread_params) list \<Rightarrow> machine \<Rightarrow> machine \<Rightarrow> worker_state option list \<Rightarrow> bool" where
  "nf_log ts m0 m ws \<longleftrightarrow>
     noted NOTIFY_WQ_WRITE m = noted NOTIFY_WQ_WRITE m0 @ replicate (\<Sum>i<length ts. posts_of ts m i) (Imm NULL) \<and>
     (\<exists>ns. stamp_counts ts m ws ns \<and>
        mset (noted 0x13 m) = mset (noted 0x13 m0) + (\<Sum>i<length ts. mset (stamps (ns ! i))))"

lemma nf_log_cong:
  assumes "nf_log ts m0 m ws" "\<And>f. f \<in> {NOTIFY_WQ_WRITE, 0x13} \<Longrightarrow> noted f m1 = noted f m"
    and "posted m1 = posted m" "delivered m1 = delivered m"
  shows "nf_log ts m0 m1 ws"
  using assms by (simp add: nf_log_def posts_of_def packets_of_def stamp_counts_def)

lemma nf_log_turn:
  assumes log: "nf_log ts m0 m ws" and i: "i < length ts" "ts ! i = (env, p)" "ws ! i = Some s"
    and it: "worker_iter env p ctx (own_buf env) (s\<lparr>ws_m := m\<rparr>) = Some (Inr (fin, s1))"
    and set: "worker_setting env p ctx S (own_qp env p)" and quiet: "log_quiet env"
    and inv: "wk_inv env p (own_qp env p) (own_buf env) S (s\<lparr>ws_m := m\<rparr>)"
    and len: "length ws = length ts"
    and others: "\<And>j env1 p1. j < length ts \<Longrightarrow> ts ! j = (env1, p1) \<Longrightarrow> j \<noteq> i \<Longrightarrow> qp_frame (we_wq env1) (we_cq env1) m (ws_m s1)"
  shows "nf_log ts m0 (ws_m s1) (ws[i := if fin then None else Some s1])"
proof -
  let ?m1 = "ws_m s1" and ?ws = "ws[i := if fin then None else Some s1]" and ?qp = "own_qp env p" and ?n = "length ts"
  have same: "posts_of ts ?m1 j = posts_of ts m j" "packets_of ts ?m1 j = packets_of ts m j" if "j < ?n" "j \<noteq> i" for j
    using others [OF that(1) _ that(2)] by (cases "ts ! j"; simp add: posts_of_def packets_of_def qp_frame_def)+
  have own: "posts_of ts m' i = length (posted m' (we_wq env))" "packets_of ts m' i = length (delivered m' (we_cq env))" for m'
    using i(2) by (simp_all add: posts_of_def packets_of_def)
  let ?others = "\<Sum>j \<in> {..<?n} - {i}. posts_of ts m j"
  note posts = sum_one [of i ?n "posts_of ts ?m1" "posts_of ts m", OF i(1) same(1), simplified]
  have "notified (qp_wq ?qp) (noted NOTIFY_WQ_WRITE m0 @ replicate ?others (Imm NULL)) (ws_m (s\<lparr>ws_m := m\<rparr>))"
    using log posts(1) own(1) by (simp add: nf_log_def notified_def replicate_add)
  from worker_iter_notified [OF it set quiet this]
  have "noted NOTIFY_WQ_WRITE ?m1 = noted NOTIFY_WQ_WRITE m0 @ replicate (\<Sum>j<?n. posts_of ts ?m1 j) (Imm NULL)"
    using posts(2) own(1) by (simp add: notified_def replicate_add)
  moreover from log obtain ns where ns: "stamp_counts ts m ws ns"
    "mset (noted 0x13 m) = mset (noted 0x13 m0) + (\<Sum>j<?n. mset (stamps (ns ! j)))" by (auto simp: nf_log_def)
  let ?k = "if fin then ns ! i else packets_of ts ?m1 i"
  let ?ns = "ns[i := ?k]"
  have l: "length ns = ?n" and nsi: "ns ! i = packets_of ts m i" using ns(1) i(1,3) by (simp_all add: stamp_counts_def)
  have "packets_of ts m i \<le> packets_of ts ?m1 i \<and> packets_of ts ?m1 i \<le> Suc (packets_of ts m i)" if fin
    using worker_last_turn [OF _ set inv] it that own(2) by (auto simp: packets_def)
  then have "stamp_counts ts ?m1 ?ws ?ns"
    using ns(1) same(2) i(1) l len nsi by (auto simp: stamp_counts_def nth_list_update)
  moreover have "mset (noted 0x13 ?m1) = mset (noted 0x13 m0) + (\<Sum>j<?n. mset (stamps (?ns ! j)))"
  proof -
    note st = sum_one [of i ?n "\<lambda>j. mset (stamps (?ns ! j))" "\<lambda>j. mset (stamps (ns ! j))", OF i(1), simplified]
    show ?thesis
      using worker_iter_stamps [OF it set inv quiet] ns(2) st nsi own(2) i(1) l
      by (cases fin) (auto simp: stamped_by_def packets_def)
  qed
  ultimately show ?thesis unfolding nf_log_def by blast
qed

lemma nf_log_start:
  assumes "threads_started S ts ctx m"
  shows "nf_log ts m m (map (\<lambda>(env, p). Some (worker_start p m)) ts)"
proof -
  have z: "posts_of ts m i = 0" "packets_of ts m i = 0" if "i < length ts" for i
    using threads_startedD(2) [OF assms that] by (cases "ts ! i"; simp add: posts_of_def packets_of_def fresh_machine_def)+
  then have "stamp_counts ts m (map (\<lambda>(env, p). Some (worker_start p m)) ts) (replicate (length ts) 0)"
    by (simp add: stamp_counts_def)
  moreover have "(\<Sum>i<length ts. mset (stamps (replicate (length ts) 0 ! i))) = {#}" by simp
  moreover have "(\<Sum>i<length ts. posts_of ts m i) = 0" using z by simp
  ultimately show ?thesis unfolding nf_log_def by auto
qed

lemma nf_reach_log:
  assumes "nf_reach ts ctx m0 sched m ws" and ok: "threads_ok S ts ctx0 m1" and st: "threads_started S ts ctx m0"
    and quiet: "\<forall>(env, p) \<in> set ts. log_quiet env"
  shows "nf_log ts m0 m ws"
  using assms(1)
proof induction
  case barrier
  from st show ?case by (rule nf_log_start)
next
  case (turn sched m ws i env p s fin s1)
  note inv = nf_reach_inv [OF turn.hyps(1) ok st]
  note set = threads_startedD(1) [OF st turn.hyps(2,3)]
  have q: "log_quiet env" using quiet turn.hyps(2,3) nth_mem [of i ts] by auto
  have len: "length ws = length ts" using inv by (simp add: nf_inv_def)
  from nf_log_turn [OF turn.IH turn.hyps(2-5) set q nf_invD(2) [OF inv turn.hyps(2-4)] len]
    turn_frame [OF ok turn.hyps(2,3,5) set] show ?case by simp
next
  case (signal sched m ws notify)
  show ?case
    by (rule nf_log_cong [OF signal.IH])
      (use signal.hyps(2) in \<open>auto simp: monitor_client_done_def register_done_sending_def notify_done_to_zsim_def
        NOTIFY_WQ_WRITE_def register_buffer_def noted_def\<close>)
next
  case (beat sched m ws i env p)
  have q: "log_quiet env" using quiet beat.hyps(2,3) nth_mem [of i ts] by auto
  from threads_startedD(1) [OF st beat.hyps(2,3)] have "heartbeat_frame (we_heartbeat env)" by (simp add: worker_setting_def)
  with q show ?case by (intro nf_log_cong [OF beat.IH]) (auto simp: log_quiet_def heartbeat_frame_def)
qed

section \<open>Properties\<close>



end
