(* ===== verification/NF_Spec.thy ===== *)
theory NF_Spec
  imports Threads
begin

text \<open>
  The network function as a specification: it reads a sequence of events, one per turn, and answers
  packets to their senders in batches. The worker loop refines it turn by turn, and so does every
  thread of the program, however the turns of the threads interleave.
\<close>

section \<open>The abstract network function\<close>

datatype nf_event = Idle | Packet u64

text \<open>The senders that were answered, and those whose packets wait in the current batch.\<close>

record nf_state =
  nf_replies :: "u64 list"
  nf_waiting :: "u64 list"

definition nf_init :: nf_state where
  "nf_init = \<lparr>nf_replies = [], nf_waiting = []\<rparr>"

definition nf_answer :: "nf_state \<Rightarrow> nf_state" where
  "nf_answer a = \<lparr>nf_replies = nf_replies a @ nf_waiting a, nf_waiting = []\<rparr>"

text \<open>The first 1010 packets are answered one by one, the others in batches of \<open>B\<close>.\<close>

definition nf_limit :: "nat \<Rightarrow> nat \<Rightarrow> nat" where
  "nf_limit B n = (if n < 1010 then 1 else B)"

definition nf_next :: "nat \<Rightarrow> nf_event \<Rightarrow> nf_state \<Rightarrow> nf_state" where
  "nf_next B ev a =
     (case ev of
        Idle \<Rightarrow> nf_answer a
      | Packet t \<Rightarrow>
          let a1 = a\<lparr>nf_waiting := nf_waiting a @ [t]\<rparr>
          in if nf_limit B (length (nf_replies a) + length (nf_waiting a)) \<le> length (nf_waiting a1)
             then nf_answer a1 else a1)"

definition nf_run :: "nat \<Rightarrow> nf_event list \<Rightarrow> nf_state" where
  "nf_run B evs = fold (nf_next B) evs nf_init"

fun arrivals :: "nf_event list \<Rightarrow> u64 list" where
  "arrivals [] = []"
| "arrivals (Idle # evs) = arrivals evs"
| "arrivals (Packet t # evs) = t # arrivals evs"

lemma arrivals_append [simp]: "arrivals (evs @ evs1) = arrivals evs @ arrivals evs1"
  by (induction evs rule: arrivals.induct) simp_all

lemma nf_run_snoc: "nf_run B (evs @ [ev]) = nf_next B ev (nf_run B evs)"
  by (simp add: nf_run_def)

text \<open>The specification loses, duplicates and reorders nothing, and never holds a whole batch back.\<close>

lemma nf_run_conserves: "nf_replies (nf_run B evs) @ nf_waiting (nf_run B evs) = arrivals evs"
proof (induction evs rule: rev_induct)
  case (snoc ev evs)
  then show ?case
    by (cases ev) (auto simp: nf_run_snoc nf_next_def nf_answer_def Let_def)
qed (simp add: nf_run_def nf_init_def)

lemma nf_run_bounded:
  assumes "0 < B"
  shows "length (nf_waiting (nf_run B evs)) < B"
proof (induction evs rule: rev_induct)
  case (snoc ev evs)
  then show ?case
    using assms by (cases ev) (auto simp: nf_run_snoc nf_next_def nf_answer_def nf_limit_def Let_def)
qed (use assms in \<open>simp add: nf_run_def nf_init_def\<close>)

section \<open>The worker refines it\<close>

text \<open>The sender of a packet as the NIC named it, cut to the 16 bits the worker keeps.\<close>

definition sender :: "cq_entry_t \<Rightarrow> u64" where
  "sender e = ucast (ucast (cqe_tid e) :: u16)"

text \<open>The abstract state: the destinations of the posted replies, and the senders in the batch.\<close>

definition nf_abs :: "soNUMAQP_T \<Rightarrow> worker_state \<Rightarrow> nf_state" where
  "nf_abs qp s =
     \<lparr>nf_replies = map wqe_nid (sends (posted (ws_m s) (qp_wq qp))),
      nf_waiting = take (unat (ws_batch_counter s)) (ws_source_node_ids s)\<rparr>"

lemma replies_to_senders:
  "list_all2 (reply_to buf S len) (enumerate n cs) es \<Longrightarrow> map wqe_nid es = map sender cs"
proof (induction cs arbitrary: n es)
  case (Cons c cs)
  then show ?case by (auto simp: list_all2_Cons1 sender_def)
qed simp

lemma batch_senders:
  assumes "batch_holds rpcs ids cs"
  shows "take (length cs) ids = map sender cs"
  using assms by (intro nth_equalityI) (auto simp: batch_holds_def sender_def)

lemma take_drop_append: "take k xs @ drop k xs @ ys = xs @ ys"
  by (simp flip: append_assoc)

lemma nf_abs_eq:
  assumes "wk_inv env p qp buf S s"
  shows "nf_abs qp s = \<lparr>nf_replies = take (answered qp s) (map sender (packets qp s)),
    nf_waiting = drop (answered qp s) (map sender (packets qp s))\<rparr>"
proof -
  let ?cs = "drop (answered qp s) (packets qp s)"
  from assms have core: "wk_core env p qp buf S s" by (simp add: wk_inv_def)
  then have "unat (ws_batch_counter s) = length ?cs" by (simp add: wk_core_def answered_def)
  moreover have "take (length ?cs) (ws_source_node_ids s) = map sender ?cs"
    by (rule batch_senders [where rpcs = "ws_rpcs s"]) (use core in \<open>simp add: wk_core_def\<close>)
  moreover have "map wqe_nid (sends (posted (ws_m s) (qp_wq qp))) = map sender (take (answered qp s) (packets qp s))"
    by (rule replies_to_senders) (use core in \<open>auto simp: wk_core_def answers_def\<close>)
  ultimately show ?thesis by (simp add: nf_abs_def take_map drop_map)
qed

lemma flush_counter:
  assumes "worker_flush env p ctx buf s = Some (Inr s1)"
  shows "ws_batch_counter s1 = (if ws_batch_size s \<le> ws_batch_counter s then 0 else ws_batch_counter s)"
    "ws_rolling_iter s1 = ws_rolling_iter s"
  using assms by (auto simp: worker_flush_def bindE_eq_Inr split: if_splits)

text \<open>The batch counter and the packets of a turn that goes on.\<close>

lemma count_counter:
  assumes "worker_count env p rpc s2 = Inr s3" and inv: "wk_inv env p qp buf S s" and got: "wk_got env qp rpc s s2 cs"
  shows "packets qp s3 = packets qp s @ cs" "ws_rolling_iter s3 = ws_rolling_iter s"
    and "cs = [] \<Longrightarrow> ws_batch_size s3 = ws_batch_counter s3"
    and "cs = [e] \<Longrightarrow> ws_batch_counter s3 = ws_batch_counter s + 1 \<and>
      unat (ws_batch_size s3) = nf_limit (unat (tp_batch_size p)) (length (packets qp s))"
proof -
  from got have beef: "payload_len rpc = 0xbeef \<longleftrightarrow> cs = []" and same: "ws_batch_counter s2 = ws_batch_counter s"
    "ws_tmp_count s2 = ws_tmp_count s" "ws_rolling_iter s2 = ws_rolling_iter s" "packets qp s2 = packets qp s @ cs"
    by (simp_all add: wk_got_def packets_def)
  have tmp: "ws_tmp_count s = int (length (packets qp s))" using inv by (simp add: wk_inv_def wk_core_def)
  have "packets qp s3 = packets qp s @ cs \<and> ws_rolling_iter s3 = ws_rolling_iter s \<and>
    (cs = [] \<longrightarrow> ws_batch_size s3 = ws_batch_counter s3) \<and>
    (cs = [e] \<longrightarrow> ws_batch_counter s3 = ws_batch_counter s + 1 \<and>
      unat (ws_batch_size s3) = nf_limit (unat (tp_batch_size p)) (length (packets qp s)))"
  proof (cases "payload_len rpc = 0xbeef")
    case True
    with assms(1) beef same show ?thesis by (auto simp: worker_count_idle packets_def)
  next
    case False
    from worker_count_packet [OF assms(1) this] obtain n m where
      m: "m = timestamp n (timestamp n (timestamp n (timestamp n (ws_m s2))))" and
      s3: "s3 = s2\<lparr>ws_batch_size := if ws_tmp_count s2 < 1010 then 1 else tp_batch_size p, ws_m := m,
        ws_batch_counter := ws_batch_counter s2 + 1, ws_tmp_count := n\<rparr>" .
    have "packets qp s3 = packets qp s @ cs" using same(4) by (simp add: s3 m packets_def)
    with same(1-3) tmp False beef show ?thesis by (simp add: s3 nf_limit_def)
  qed
  then show "packets qp s3 = packets qp s @ cs" "ws_rolling_iter s3 = ws_rolling_iter s"
    "cs = [] \<Longrightarrow> ws_batch_size s3 = ws_batch_counter s3"
    "cs = [e] \<Longrightarrow> ws_batch_counter s3 = ws_batch_counter s + 1 \<and>
      unat (ws_batch_size s3) = nf_limit (unat (tp_batch_size p)) (length (packets qp s))" by simp_all
qed

lemma worker_turn_counters:
  assumes it: "worker_iter env p ctx buf s = Some (Inr (False, s1))" and set: "worker_setting env p ctx S qp"
    and inv: "wk_inv env p qp buf S s"
  obtains (idle) "packets qp s1 = packets qp s" "ws_batch_counter s1 = 0" "ws_rolling_iter s1 = ws_rolling_iter s + 1"
  | (packet) e where "packets qp s1 = packets qp s @ [e]" "ws_rolling_iter s1 = ws_rolling_iter s + 1"
      "unat (ws_batch_counter s1) =
        (if nf_limit (unat (tp_batch_size p)) (length (packets qp s)) \<le> Suc (unat (ws_batch_counter s)) then 0
         else Suc (unat (ws_batch_counter s)))"
  using it
proof (cases rule: worker_iter_returned)
  case (go rpc s2 s3 s4)
  have hb: "heartbeat_frame (we_heartbeat env)" using set by (simp add: worker_setting_def)
  from worker_recv_ok [OF go(1) set inv] go(2) obtain cs where "wk_got env qp rpc s s2 cs" by auto
  note got = wk_got_beat [OF this hb]
  note c = count_counter [OF go(4) inv got]
  note f = flush_counter [OF go(5)]
  have p: "packets qp s1 = packets qp s @ cs" and r: "ws_rolling_iter s1 = ws_rolling_iter s + 1"
    using worker_flush_packets [OF go(5) set] c(1,2) f(2) go(6) by (simp_all add: packets_def)
  have b: "unat (ws_batch_counter s + 1) = Suc (unat (ws_batch_counter s))"
    using inv by (intro unat_Suc_less [where n = "unat (tp_batch_size p)"]) (simp_all add: wk_inv_def unat_u32_less)
  have "length cs \<le> 1" using got by (simp add: wk_got_def)
  then consider "cs = []" | e where "cs = [e]" by (cases cs) auto
  then show thesis
  proof cases
    case 1
    with c(3) f(1) p r go(6) show thesis by (intro idle) simp_all
  next
    case (2 e)
    with c(4) f(1) p r go(6) b show thesis by (intro packet [of e]) (simp_all add: word_le_nat_alt)
  qed
qed simp

lemma worker_step_refines:
  assumes it: "worker_iter env p ctx buf s = Some (Inr (False, s1))" and set: "worker_setting env p ctx S qp"
    and inv: "wk_inv env p qp buf S s"
  shows "\<exists>ev. nf_abs qp s1 = nf_next (unat (tp_batch_size p)) ev (nf_abs qp s) \<and>
    map sender (packets qp s1) = map sender (packets qp s) @ arrivals [ev] \<and> ws_rolling_iter s1 = ws_rolling_iter s + 1"
proof -
  have inv1: "wk_inv env p qp buf S s1" using worker_iter_ok [OF it set inv] by simp
  have le: "unat (ws_batch_counter s) \<le> length (packets qp s)" using inv by (simp add: wk_inv_def wk_core_def)
  note abs = nf_abs_eq [OF inv] nf_abs_eq [OF inv1]
  from it set inv show ?thesis
  proof (cases rule: worker_turn_counters)
    case idle
    then have "nf_abs qp s1 = nf_next (unat (tp_batch_size p)) Idle (nf_abs qp s)"
      unfolding abs by (simp add: nf_next_def nf_answer_def answered_def)
    with idle show ?thesis by (intro exI [of _ Idle]) simp
  next
    case (packet e)
    then have "nf_abs qp s1 = nf_next (unat (tp_batch_size p)) (Packet (sender e)) (nf_abs qp s)"
      using le unfolding abs by (auto simp: nf_next_def nf_answer_def answered_def Let_def take_drop_append)
    with packet show ?thesis by (intro exI [of _ "Packet (sender e)"]) simp
  qed
qed

section \<open>Every thread refines it\<close>

text \<open>A running thread is where the specification is after one event per turn of the thread.\<close>

definition tracks :: "worker_env \<Rightarrow> thread_params \<Rightarrow> nat \<Rightarrow> worker_state \<Rightarrow> bool" where
  "tracks env p n s \<longleftrightarrow> (\<exists>evs. length evs = n \<and> arrivals evs = map sender (packets (own_qp env p) s) \<and>
     nf_abs (own_qp env p) s = nf_run (unat (tp_batch_size p)) evs)"

lemma tracks_frame:
  assumes "tracks env p n s" "qp_frame (we_wq env) (we_cq env) (ws_m s) m"
  shows "tracks env p n (s\<lparr>ws_m := m\<rparr>)"
  using assms by (simp add: tracks_def nf_abs_def packets_def qp_frame_def)

lemma tracks_turn:
  assumes it: "worker_iter env p ctx (own_buf env) s = Some (Inr (False, s1))" and set: "worker_setting env p ctx S (own_qp env p)"
    and inv: "wk_inv env p (own_qp env p) (own_buf env) S s" and tr: "tracks env p n s"
  shows "tracks env p (Suc n) s1"
proof -
  from tr obtain evs where evs: "length evs = n" "arrivals evs = map sender (packets (own_qp env p) s)"
    "nf_abs (own_qp env p) s = nf_run (unat (tp_batch_size p)) evs" by (auto simp: tracks_def)
  from worker_step_refines [OF it set inv] obtain ev where
    "nf_abs (own_qp env p) s1 = nf_next (unat (tp_batch_size p)) ev (nf_abs (own_qp env p) s)"
    "map sender (packets (own_qp env p) s1) = map sender (packets (own_qp env p) s) @ arrivals [ev]" by blast
  with evs show ?thesis by (auto simp: tracks_def nf_run_snoc intro!: exI [of _ "evs @ [ev]"])
qed

lemma tracks_start: "fresh_machine env (own_qp env p) m \<Longrightarrow> tracks env p 0 (worker_start p m)"
  by (simp add: tracks_def nf_abs_def packets_def fresh_machine_def worker_start_def nf_run_def nf_init_def sends_def)

lemma nf_reach_tracks:
  assumes "nf_reach ts ctx m0 sched m ws" and ok: "threads_ok S ts ctx0 m1" and st: "threads_started S ts ctx m0"
  shows "j < length ts \<Longrightarrow> ts ! j = (env1, p1) \<Longrightarrow> ws ! j = Some s2 \<Longrightarrow>
    tracks env1 p1 (count_list sched j) (s2\<lparr>ws_m := m\<rparr>)"
  using assms(1)
proof (induction arbitrary: s2)
  case barrier
  have "s2\<lparr>ws_m := m0\<rparr> = worker_start p1 m0" using barrier by (auto simp: worker_start_def)
  with tracks_start [OF threads_startedD(2) [OF st barrier(1,2)]] show ?case by simp
next
  case (turn sched m ws i env p s fin s1)
  note inv = nf_reach_inv [OF turn.hyps(1) ok st]
  note set = threads_startedD(1) [OF st turn.hyps(2,3)]
  show ?case
  proof (cases "j = i")
    case True
    have "i < length ws" using inv turn.hyps(2) by (simp add: nf_inv_def)
    with turn.prems(3) True have s2: "\<not> fin" "s2 = s1" by (auto split: if_splits)
    have it: "worker_iter env p ctx (own_buf env) (s\<lparr>ws_m := m\<rparr>) = Some (Inr (False, s1))" using turn.hyps(5) s2(1) by simp
    have "tracks env p (count_list sched i) (s\<lparr>ws_m := m\<rparr>)" using turn.IH [of s] turn.hyps(2-4) turn.prems True by simp
    from tracks_turn [OF it set nf_invD(2) [OF inv turn.hyps(2-4)] this] turn.hyps(3) turn.prems(2) True s2
    show ?thesis by simp
  next
    case False
    with turn.prems have "tracks env1 p1 (count_list sched j) (s2\<lparr>ws_m := m\<rparr>)" by (intro turn.IH) simp_all
    from tracks_frame [OF this, of "ws_m s1"] turn_frame [OF ok turn.hyps(2,3,5) set turn.prems(1,2) False] False
    show ?thesis by simp
  qed
next
  case (signal sched m ws notify)
  have "qp_frame (we_wq env1) (we_cq env1) m (notify m)" using signal.hyps(2)
    by (auto simp: monitor_client_done_def register_done_sending_def notify_done_to_zsim_def register_buffer_def
        intro!: qp_frame_eq)
  with tracks_frame [OF signal.IH [OF signal.prems]] show ?case by simp
next
  case (beat sched m ws i env p)
  have "qp_frame (we_wq env1) (we_cq env1) m (we_heartbeat env m)" using threads_startedD(1) [OF st beat.hyps(2,3)]
    by (auto simp: worker_setting_def heartbeat_frame_def intro!: qp_frame_eq)
  with tracks_frame [OF beat.IH [OF beat.prems]] show ?case by simp
qed

section \<open>Properties\<close>

text \<open>
  C2. Refinement: in every state the threads reach, in whatever order they take their turns, a running
  thread is exactly where the abstract network function is after one event for each turn of the
  thread: the packets it received are the arrivals of these events, the destinations of its replies
  are the abstract replies, and the senders in its batch are the abstract waiting ones. In
  particular a turn without a packet answers everything that waits.
\<close>

theorem threads_refine_nf:
  assumes "threads_ok S ts ctx m"
  shows "\<exists>ctx1 m1. register_threads ts ctx m = Inr (ctx1, m1) \<and>
    (\<forall>sched m2 ws i env p s. nf_reach ts ctx1 m1 sched m2 ws \<and> i < length ts \<and> ts ! i = (env, p) \<and> ws ! i = Some s \<longrightarrow>
       (\<exists>evs. length evs = count_list sched i \<and> arrivals evs = map sender (delivered m2 (we_cq env)) \<and>
          nf_abs (own_qp env p) (s\<lparr>ws_m := m2\<rparr>) = nf_run (unat (tp_batch_size p)) evs))"
proof -
  from threads_start [OF assms] obtain ctx1 m1 where r: "register_threads ts ctx m = Inr (ctx1, m1)"
    and st: "threads_started S ts ctx1 m1" by blast
  from nf_reach_tracks [OF _ assms st] have "\<exists>evs. length evs = count_list sched i \<and>
      arrivals evs = map sender (delivered m2 (we_cq env)) \<and>
      nf_abs (own_qp env p) (s\<lparr>ws_m := m2\<rparr>) = nf_run (unat (tp_batch_size p)) evs"
    if "nf_reach ts ctx1 m1 sched m2 ws" "i < length ts" "ts ! i = (env, p)" "ws ! i = Some s" for sched m2 ws i env p s
    using that by (fastforce simp: tracks_def packets_def)
  with r show ?thesis by blast
qed

theorem threads_refine_nf_witness:
  "\<exists>ctx1 m1 m2 ws s t. register_threads duo duo_ctx duo_machine = Inr (ctx1, m1) \<and> nf_reach duo ctx1 m1 [0] m2 ws \<and>
     ws ! 0 = Some s \<and> nf_abs (own_qp demo_env (demo_params 4)) (s\<lparr>ws_m := m2\<rparr>) = \<lparr>nf_replies = [t], nf_waiting = []\<rparr>"
proof -
  from duo_turn obtain ctx1 m1 m2 ws e s where t: "register_threads duo duo_ctx duo_machine = Inr (ctx1, m1)"
    "nf_reach duo ctx1 m1 [0] m2 ws" "delivered m2 (we_cq demo_env) = [e]" "ws ! 0 = Some s" by blast
  have d: "0 < length duo" "duo ! 0 = (demo_env, demo_params 4)" by (simp_all add: duo_def)
  from threads_refine_nf [OF duo_ok] t d obtain evs where evs: "length evs = Suc 0" "arrivals evs = [sender e]"
    "nf_abs (own_qp demo_env (demo_params 4)) (s\<lparr>ws_m := m2\<rparr>) = nf_run (unat (tp_batch_size (demo_params 4))) evs"
    by fastforce
  then have "evs = [Packet (sender e)]" by (cases evs rule: arrivals.cases) auto
  with evs(3) have "nf_abs (own_qp demo_env (demo_params 4)) (s\<lparr>ws_m := m2\<rparr>) = \<lparr>nf_replies = [sender e], nf_waiting = []\<rparr>"
    by (simp add: nf_run_def nf_next_def nf_init_def nf_answer_def nf_limit_def Let_def)
  with t show ?thesis by blast
qed

end
