(* ===== verification/Main_NF.thy ===== *)
theory Main_NF
  imports Worker_Props
begin

text \<open>
  The main program of the network function, \<open>simpNF/main.c\<close>: its options, its checks, the
  creation of the RPC context and the parameters of the worker threads it launches. The command
  line is the list of its options, each with the argument written after it, if any; the C library
  calls that can fail are a parameter. Pinning the main thread, printing and joining the threads
  have no effect on the state modelled here.
\<close>

section \<open>The C library\<close>

fun drop_space :: "string \<Rightarrow> string" where
  "drop_space [] = []"
| "drop_space (c # cs) = (if c \<in> set [CHR '' '', CHR 0x09, CHR 0x0A, CHR 0x0B, CHR 0x0C, CHR 0x0D]
     then drop_space cs else c # cs)"

fun decimal_value :: "string \<Rightarrow> int \<Rightarrow> int" where
  "decimal_value [] acc = acc"
| "decimal_value (c # cs) acc =
     (if c \<in> set ''0123456789''
      then decimal_value cs (10 * acc + (of_char c - 48)) else acc)"

text \<open>\<open>atol\<close> saturates at the range of \<open>long\<close>; \<open>atoi\<close> cuts its result to 32 bits.\<close>

definition atol :: "string \<Rightarrow> int" where
  "atol s =
     (case drop_space s of
        [] \<Rightarrow> 0
      | c # cs \<Rightarrow>
          let v = (if c = CHR ''-'' then - decimal_value cs 0
                   else if c = CHR ''+'' then decimal_value cs 0 else decimal_value (c # cs) 0)
          in max (- 9223372036854775808) (min 9223372036854775807 v))"

definition atoi :: "string \<Rightarrow> int" where
  "atoi s = sint (word_of_int (atol s) :: u32)"

text \<open>
  \<open>getopt_long\<close> with the tables of \<open>main\<close>: an option it accepts is its character and the
  value of \<open>optarg\<close> (\<open>None\<close> for a null pointer); an unknown short option and a missing
  argument are the character \<open>?\<close>. A short option takes an argument exactly if a colon follows
  it in the option string. The table of the long options has no terminating entry, so a name that
  is not in it is searched past its end. Names are written in full.
\<close>

datatype cmd_option = Short char "string option" | Long string "string option"

definition short_opts :: string where
  "short_opts = ''M:t:b:N:n:c:u:m:C:q:O:K:B:L:D:r:d:p''"

definition long_opts :: "(string \<times> char) list" where
  "long_opts = [(''master'', CHR ''M''), (''num-threads'', CHR ''t''), (''start-core'', CHR ''s''),
     (''base-port-index'', CHR ''b''), (''num-server-ports'', CHR ''N''), (''num-client-ports'', CHR ''n''),
     (''is-client'', CHR ''c''), (''update-percentage'', CHR ''u''), (''machine-id'', CHR ''m''),
     (''total-nodes'', CHR ''C''), (''qps-to-create'', CHR ''q''), (''num-remote-threads'', CHR ''O''),
     (''num-keys'', CHR ''K''), (''num-server-buckets'', CHR ''B''), (''log-capacity-bytes'', CHR ''L''),
     (''debug'', CHR ''D''), (''packet-size'', CHR ''r''), (''batchsize'', CHR ''d''), (''postlist'', CHR ''p'')]"

fun short_kind :: "string \<Rightarrow> char \<Rightarrow> bool option" where
  "short_kind [] c = None"
| "short_kind [x] c = (if x = c then Some False else None)"
| "short_kind (x # y # xs) c =
     (if x = c then Some (y = CHR '':'')
      else short_kind (if y = CHR '':'' then xs else y # xs) c)"

fun getopt :: "cmd_option \<Rightarrow> (char \<times> string option) res" where
  "getopt (Short c v) = Inr
     (case short_kind short_opts c of
        None \<Rightarrow> (CHR ''?'', None)
      | Some False \<Rightarrow> (c, None)
      | Some True \<Rightarrow> (case v of None \<Rightarrow> (CHR ''?'', None) | Some a \<Rightarrow> (c, Some a)))"
| "getopt (Long n v) =
     bindR (of_option Out_of_bounds (map_of long_opts n)) (\<lambda>c.
     Inr (case v of None \<Rightarrow> (CHR ''?'', None) | Some a \<Rightarrow> (c, Some a)))"

text \<open>
  The calls that can fail. The allocations take the number of their call site, so that each of them
  may fail on its own (site 0 is the context, in \<open>createRPCNUMAContext\<close>); \<open>lc_create\<close> is the
  result of \<open>pthread_create\<close> for each thread.
\<close>

record libc =
  lc_memalign :: "u64 \<Rightarrow> u64 \<Rightarrow> addr option"
  lc_malloc :: "nat \<Rightarrow> u64 \<Rightarrow> addr option"
  lc_calloc :: "u64 \<Rightarrow> u64 \<Rightarrow> addr option"
  lc_barrier_init :: "u32 \<Rightarrow> int"
  lc_mutex_init :: int
  lc_create :: "nat \<Rightarrow> int"

section \<open>Options\<close>

record main_opts =
  mo_run_debug_mode :: int
  mo_packet_size :: u32
  mo_batch_size :: u32
  mo_num_threads :: u32
  mo_num_rem_threads :: u32
  mo_node_cnt :: u32
  mo_qps :: u32
  mo_postlist :: int
  mo_update_percentage :: int
  mo_machine_id :: int
  mo_base_port_index :: int
  mo_num_server_ports :: int
  mo_num_client_ports :: int
  mo_start_core :: u32
  mo_num_client_keys :: u64
  mo_num_hash_buckets :: u64
  mo_log_cap :: u64

definition default_opts :: main_opts where
  "default_opts = \<lparr>mo_run_debug_mode = 0, mo_packet_size = 512, mo_batch_size = 1, mo_num_threads = 0,
     mo_num_rem_threads = 0, mo_node_cnt = 0, mo_qps = 0, mo_postlist = -1, mo_update_percentage = -1,
     mo_machine_id = 1, mo_base_port_index = -1, mo_num_server_ports = -1, mo_num_client_ports = -1,
     mo_start_core = 3, mo_num_client_keys = 1024 * 1024, mo_num_hash_buckets = 2 * 1024 * 1024,
     mo_log_cap = 8 * 1024 * 1024\<rparr>"

text \<open>The \<open>switch\<close>: every case converts \<open>optarg\<close>, the default asserts.\<close>

definition with_arg :: "string option \<Rightarrow> (string \<Rightarrow> main_opts) \<Rightarrow> main_opts res" where
  "with_arg optarg f = bindR (of_option Segv optarg) (\<lambda>a. Inr (f a))"

definition set_opt :: "char \<Rightarrow> string option \<Rightarrow> main_opts \<Rightarrow> main_opts res" where
  "set_opt c optarg o1 =
     (if c = CHR ''K'' then with_arg optarg (\<lambda>a. o1\<lparr>mo_num_client_keys := word_of_int (atol a)\<rparr>)
      else if c = CHR ''s'' then with_arg optarg (\<lambda>a. o1\<lparr>mo_start_core := word_of_int (atol a)\<rparr>)
      else if c = CHR ''L'' then with_arg optarg (\<lambda>a. o1\<lparr>mo_log_cap := word_of_int (atol a)\<rparr>)
      else if c = CHR ''B'' then with_arg optarg (\<lambda>a. o1\<lparr>mo_num_hash_buckets := word_of_int (atol a)\<rparr>)
      else if c = CHR ''D'' then with_arg optarg (\<lambda>a. o1\<lparr>mo_run_debug_mode := atoi a\<rparr>)
      else if c = CHR ''t'' then with_arg optarg (\<lambda>a. o1\<lparr>mo_num_threads := word_of_int (atol a)\<rparr>)
      else if c = CHR ''b'' then with_arg optarg (\<lambda>a. o1\<lparr>mo_base_port_index := atoi a\<rparr>)
      else if c = CHR ''N'' then with_arg optarg (\<lambda>a. o1\<lparr>mo_num_server_ports := atoi a\<rparr>)
      else if c = CHR ''n'' then with_arg optarg (\<lambda>a. o1\<lparr>mo_num_client_ports := atoi a\<rparr>)
      else if c = CHR ''u'' then with_arg optarg (\<lambda>a. o1\<lparr>mo_update_percentage := atoi a\<rparr>)
      else if c = CHR ''m'' then with_arg optarg (\<lambda>a. o1\<lparr>mo_machine_id := atoi a\<rparr>)
      else if c = CHR ''p'' then with_arg optarg (\<lambda>a. o1\<lparr>mo_postlist := atoi a\<rparr>)
      else if c = CHR ''C'' then with_arg optarg (\<lambda>a. o1\<lparr>mo_node_cnt := word_of_int (atoi a)\<rparr>)
      else if c = CHR ''O'' then with_arg optarg (\<lambda>a. o1\<lparr>mo_num_rem_threads := word_of_int (atoi a)\<rparr>)
      else if c = CHR ''q'' then with_arg optarg (\<lambda>a. o1\<lparr>mo_qps := word_of_int (atoi a)\<rparr>)
      else if c = CHR ''r'' then with_arg optarg (\<lambda>a. o1\<lparr>mo_packet_size := word_of_int (atoi a)\<rparr>)
      else if c = CHR ''d'' then with_arg optarg (\<lambda>a. o1\<lparr>mo_batch_size := word_of_int (atoi a)\<rparr>)
      else Inl Assertion)"

fun parse_opts :: "cmd_option list \<Rightarrow> main_opts \<Rightarrow> main_opts res" where
  "parse_opts [] o1 = Inr o1"
| "parse_opts (x # xs) o1 =
     bindR (getopt x) (\<lambda>(c, optarg). bindR (set_opt c optarg o1) (parse_opts xs))"

section \<open>The program\<close>

text \<open>The shuffling of \<open>get_random_permutation\<close> is commented out: it returns the null pointer.\<close>

definition get_random_permutation :: "u32 \<Rightarrow> u32 \<Rightarrow> addr \<Rightarrow> addr" where
  "get_random_permutation n clt_gid seed = NULL"

text \<open>
  The end of the program: an exit code, or the context and, for each thread, its parameters and the
  result of \<open>pthread_create\<close>, which is printed if it is not 0 and then ignored.
\<close>

datatype launch = Exit int | Launch "rpcNUMAContext option" "(thread_params \<times> int) list"

definition thread_args :: "main_opts \<Rightarrow> thread_params \<Rightarrow> nat \<Rightarrow> thread_params" where
  "thread_args o1 junk i =
     junk\<lparr>tp_postlist := mo_postlist o1, tp_sonuma_nid := word_of_int (mo_machine_id o1),
       tp_node_cnt := mo_node_cnt o1, tp_qps_per_node := mo_qps o1, tp_num_keys := mo_num_client_keys o1,
       tp_num_hash_buckets := mo_num_hash_buckets o1, tp_log_capacity_bytes := mo_log_cap o1,
       tp_run_debug_mode := mo_run_debug_mode o1, tp_start_core := mo_start_core o1, tp_id := of_nat i,
       tp_base_port_index := mo_base_port_index o1, tp_num_server_ports := mo_num_server_ports o1,
       tp_num_client_ports := mo_num_client_ports o1, tp_num_client_threads := mo_num_rem_threads o1,
       tp_num_serv_threads := mo_num_threads o1, tp_packet_size := mo_packet_size o1,
       tp_batch_size := mo_batch_size o1\<rparr>"

text \<open>
  The body after the options. The arrays of the threads are written only if there are threads; a
  null result of their allocation is then dereferenced.
\<close>

definition launch_threads :: "libc \<Rightarrow> main_opts \<Rightarrow> (nat \<Rightarrow> thread_params) \<Rightarrow> (thread_params \<times> int) list" where
  "launch_threads lc o1 tjunk =
     map (\<lambda>i. (thread_args o1 (tjunk i) i, lc_create lc i)) [0..<unat (mo_num_threads o1)]"

definition nf_main ::
  "libc \<Rightarrow> rpcNUMAContext \<Rightarrow> (nat \<Rightarrow> send_buf_management_t) \<Rightarrow> (nat \<Rightarrow> thread_params) \<Rightarrow> cmd_option list \<Rightarrow>
   launch res" where
  "nf_main lc junk junk_ctrl tjunk argv =
     bindR (parse_opts argv default_opts) (\<lambda>o1.
     let n = mo_num_threads o1 in
     if \<not> n \<le> mo_qps o1 then Inl Assertion
     else bindR (createRPCNUMAContext (lc_memalign lc) (lc_malloc lc 0) junk junk_ctrl 1 (mo_node_cnt o1) 0 (n - 1)
                   (mo_packet_size o1)) (\<lambda>rpcContext.
       let param_arr = lc_malloc lc 1 (ucast n * 120) in
       if lc_malloc lc 2 32 = None then Inr (Exit 1)
       else if lc_malloc lc 3 40 = None then Inr (Exit 1)
       else if lc_barrier_init lc n \<noteq> 0 then Inr (Exit 1)
       else if lc_mutex_init lc \<noteq> 0 then Inr (Exit 1)
       else
         let thread_arr = lc_malloc lc 4 (ucast n * 8); thread_pin = lc_calloc lc (ucast n) 4 in
         if 0 < n \<and> (thread_pin = None \<or> param_arr = None \<or> thread_arr = None) then Inl Segv
         else Inr (Launch rpcContext (launch_threads lc o1 tjunk))))"

section \<open>Lemmas\<close>

text \<open>A C library in which nothing fails.\<close>

definition libc_ok :: "libc \<Rightarrow> bool" where
  "libc_ok lc \<longleftrightarrow> (\<forall>a n. lc_memalign lc a n \<noteq> None) \<and> (\<forall>i n. lc_malloc lc i n \<noteq> None) \<and>
     (\<forall>n k. lc_calloc lc n k \<noteq> None) \<and> (\<forall>i. lc_create lc i = 0) \<and>
     (\<forall>n. 0 < n \<longrightarrow> lc_barrier_init lc n = 0) \<and> lc_mutex_init lc = 0"

lemma create_context_sized:
  assumes "64 dvd unat packet_size" "unat packet_size < 8388608" "unat aNodeID < 100000"
    and "malloc (ucast (ucast totalNodes :: u16) * 64) \<noteq> None"
  obtains ctx where "createRPCNUMAContext memalign malloc junk junk_ctrl aNodeID totalNodes qp_start qp_end packet_size
      = Inr (Some ctx)" "ctx_sized (unat packet_size) ctx"
    "rc_qps ctx = replicate (unat (qp_end - qp_start + 1)) None"
    "rc_app_buffers ctx = replicate (unat (qp_end - qp_start + 1)) None"
proof -
  have m: "(scast packet_size :: u64) mod CACHE_BLOCK_SIZE = 0" using scast_mod_block [OF assms(2)] assms(1) by simp
  from assms(4) obtain a where a: "malloc (ucast (ucast totalNodes :: u16) * sizeof_send_buf_management) = Some a"
    by (auto simp: sizeof_send_buf_management_def)
  let ?ce = "(md_ctx_struct (fresh_domain junk))\<lparr>ce_msg_entry_size := scast packet_size,
    ce_num_nodes := ucast totalNodes, ce_msgs_per_dest := 256, ce_send_buf_addr := NULL,
    ce_recv_buf_addr := NULL, ce_buf_management := a\<rparr>"
  obtain arr where k: "kal_reg_send_recv_bufs malloc junk_ctrl (rc_kfd junk) (Some (md_ctx_struct (fresh_domain junk)))
      NULL 256 (scast packet_size) (ucast totalNodes) NULL NULL =
      Inr (0, \<lparr>kb_ctx = Some ?ce, kb_send_ctrl = a, kb_ctrl = arr\<rparr>)"
    using kal_reg_send_recv_bufs_ok [where malloc = malloc and ce = "md_ctx_struct (fresh_domain junk)" and sb = NULL and
        rb = NULL and sc = NULL and entries = 256 and kfd = "rc_kfd junk", OF m a] by blast
  have e: "unat (scast packet_size :: u64) = unat packet_size" using assms(2) by (intro unat_scast_u32) simp
  show thesis
    by (rule that [OF createRPCNUMAContext_eq [where ce = ?ce, OF slot_file_fits [OF assms(3)] assms(2) k]])
      (use e assms(1,2) in \<open>simp_all add: fresh_context_def ctx_sized_def\<close>)
qed

lemma nf_main_launches:
  assumes "parse_opts argv default_opts = Inr o1" "mo_num_threads o1 \<le> mo_qps o1" "0 < mo_num_threads o1"
    and "64 dvd unat (mo_packet_size o1)" "unat (mo_packet_size o1) < 8388608" "libc_ok lc"
  obtains ctx where "nf_main lc junk junk_ctrl tjunk argv =
      Inr (Launch (Some ctx) (launch_threads lc o1 tjunk))"
    "ctx_sized (unat (mo_packet_size o1)) ctx"
    "length (rc_qps ctx) = unat (mo_num_threads o1)" "length (rc_app_buffers ctx) = unat (mo_num_threads o1)"
proof -
  from assms(6) have lc: "lc_malloc lc i k \<noteq> None" "lc_calloc lc l k \<noteq> None" "lc_barrier_init lc (mo_num_threads o1) = 0" "lc_mutex_init lc = 0" for i k l
    using assms(3) by (auto simp: libc_ok_def)
  obtain ctx where "createRPCNUMAContext (lc_memalign lc) (lc_malloc lc 0) junk junk_ctrl 1 (mo_node_cnt o1) 0
      (mo_num_threads o1 - 1) (mo_packet_size o1) = Inr (Some ctx)" "ctx_sized (unat (mo_packet_size o1)) ctx"
    "length (rc_qps ctx) = unat (mo_num_threads o1)" "length (rc_app_buffers ctx) = unat (mo_num_threads o1)"
    by (rule create_context_sized [OF assms(4,5), of 1 "lc_malloc lc 0" "mo_node_cnt o1" "lc_memalign lc" junk junk_ctrl 0
        "mo_num_threads o1 - 1"]) (use lc(1) in simp_all)
  with assms(1,2) lc show thesis
    by (intro that) (simp_all add: nf_main_def Let_def)
qed

lemma thread_args_sizes [simp]:
  "tp_batch_size (thread_args o1 junk i) = mo_batch_size o1"
  "tp_packet_size (thread_args o1 junk i) = mo_packet_size o1"
  by (simp_all add: thread_args_def)

lemma thread_args_id: "i < unat n \<Longrightarrow> unat (tp_id (thread_args o1 junk i)) = i" for n :: u32
  using unat_u32_less [of n] by (simp add: thread_args_def unat_of_nat_less)

section \<open>Properties\<close>

text \<open>
  With options that ask for at least one thread, no more threads than queue pairs, and packets
  of a whole number of cache blocks below 8 MB, and a C library that does not fail, the program
  creates a context with one place per thread and launches exactly the requested threads, numbered
  from 0, each with the packet and batch size of the options.
\<close>

theorem nf_main_ok:
  assumes "parse_opts argv default_opts = Inr o1" and "mo_num_threads o1 \<le> mo_qps o1" and "0 < mo_num_threads o1"
    and "64 dvd unat (mo_packet_size o1)" and "unat (mo_packet_size o1) < 8388608" and "libc_ok lc"
  shows "\<exists>ctx ps. nf_main lc junk junk_ctrl tjunk argv = Inr (Launch (Some ctx) ps) \<and>
    length ps = unat (mo_num_threads o1) \<and> length (rc_qps ctx) = length ps \<and> length (rc_app_buffers ctx) = length ps \<and>
    ctx_sized (unat (mo_packet_size o1)) ctx \<and>
    (\<forall>i < length ps. unat (tp_id (fst (ps ! i))) = i \<and> snd (ps ! i) = 0 \<and>
       tp_batch_size (fst (ps ! i)) = mo_batch_size o1 \<and> tp_packet_size (fst (ps ! i)) = mo_packet_size o1)"
proof -
  from nf_main_launches [OF assms, of junk junk_ctrl tjunk] obtain ctx where
    "nf_main lc junk junk_ctrl tjunk argv = Inr (Launch (Some ctx) (launch_threads lc o1 tjunk))"
    "ctx_sized (unat (mo_packet_size o1)) ctx"
    "length (rc_qps ctx) = unat (mo_num_threads o1)" "length (rc_app_buffers ctx) = unat (mo_num_threads o1)" by blast
  then show ?thesis
    using thread_args_id by (intro exI [of _ ctx] exI [of _ "launch_threads lc o1 tjunk"])
      (use assms(6) in \<open>simp_all add: launch_threads_def libc_ok_def\<close>)
qed

definition demo_argv :: "cmd_option list" where
  "demo_argv = [Short (CHR ''t'') (Some ''2''), Long ''qps-to-create'' (Some ''2''), Short (CHR ''d'') (Some ''4'')]"

definition demo_libc :: libc where
  "demo_libc = \<lparr>lc_memalign = \<lambda>_ _. Some 0x10000, lc_malloc = \<lambda>_ _. Some 0x20000, lc_calloc = \<lambda>_ _. Some 0x30000,
     lc_barrier_init = \<lambda>n. if n = 0 then 22 else 0, lc_mutex_init = 0, lc_create = \<lambda>_. 0\<rparr>"

lemma demo_parse:
  "parse_opts demo_argv default_opts = Inr (default_opts\<lparr>mo_num_threads := 2, mo_qps := 2, mo_batch_size := 4\<rparr>)"
  by (simp add: demo_argv_def short_opts_def long_opts_def set_opt_def with_arg_def atol_def atoi_def default_opts_def)

theorem nf_main_ok_witness:
  "\<exists>ctx ps. nf_main demo_libc demo_junk demo_ctrl (\<lambda>_. demo_params 0) demo_argv = Inr (Launch (Some ctx) ps) \<and> length ps = 2"
proof -
  have l: "libc_ok demo_libc" by (simp add: libc_ok_def demo_libc_def)
  show ?thesis
    using nf_main_ok [OF demo_parse _ _ _ _ l, of demo_junk demo_ctrl "\<lambda>_. demo_params 0"] by (auto simp: default_opts_def)
qed


end
