(* ===== verification/Context_Life.thy ===== *)
theory Context_Life
  imports Rpc_Context
begin

text \<open>
  The life of an RPC context: every context that creation and the state-changing operations of
  \<open>rpc_shm/rpc.cpp\<close> can produce has the dimensions it was created with, queue pairs that carry
  their own index and circular buffers whose cursors are inside their rings; its destruction
  deletes every object that was registered, once.
\<close>

section \<open>Reachable contexts\<close>

text \<open>
  \<open>flow\<close> is \<open>flowControlUpdateSendersHead\<close> on a buffer of the context, which the code passes
  by pointer.
\<close>

inductive ctx_reach :: "nat \<Rightarrow> rpcNUMAContext \<Rightarrow> bool" for n where
  create: "createRPCNUMAContext memalign malloc junk junk_ctrl nid nodes qp_start qp_end packet_size = Inr (Some ctx)
    \<Longrightarrow> n = unat (qp_end - qp_start + 1) \<Longrightarrow> ctx_reach n ctx"
| buffer: "ctx_reach n ctx \<Longrightarrow> registerNewLocalBuffer lbuf sz tidx ctx m = Inr (b, ctx1, m1) \<Longrightarrow> ctx_reach n ctx1"
| qp: "ctx_reach n ctx \<Longrightarrow> registerNewSONUMAQP wq cq tidx ctx m = Inr (q, ctx1, m1) \<Longrightarrow> ctx_reach n ctx1"
| circ: "ctx_reach n ctx \<Longrightarrow> ctx_reach n (setupCircularBuffers sz k senders receivers copies ctx)"
| head: "ctx_reach n ctx \<Longrightarrow> incrementBufferHead k ctx = Inr ctx1 \<Longrightarrow> ctx_reach n ctx1"
| flow: "ctx_reach n ctx \<Longrightarrow> i < length (rc_circ_buffers ctx) \<Longrightarrow>
    flowControlUpdateSendersHead inc (rc_circ_buffers ctx ! i) = Inr b \<Longrightarrow>
    ctx_reach n (ctx\<lparr>rc_circ_buffers := (rc_circ_buffers ctx)[i := b]\<rparr>)"
| rpcid: "ctx_reach n ctx \<Longrightarrow> ctx_reach n (snd (getRPCID ctx))"
| stat: "ctx_reach n ctx \<Longrightarrow> ctx_reach n (addToContainer x ctx)"
| stats: "ctx_reach n ctx \<Longrightarrow> ctx_reach n (readContainerFromFile fname k fs ctx)"

definition wf_ring :: "CircularReceiveBuffer \<Rightarrow> bool" where
  "wf_ring b \<longleftrightarrow> wf_cbuf b \<and> cb_numEntries b = MSGS_PER_PAIR \<and> cb_entryByteSize b = EMULATOR_SW_PAGE_SIZE"

definition wf_ctx :: "nat \<Rightarrow> rpcNUMAContext \<Rightarrow> bool" where
  "wf_ctx n ctx \<longleftrightarrow> length (rc_qps ctx) = n \<and> length (rc_app_buffers ctx) = n \<and>
     (\<forall>i < n. case rc_qps ctx ! i of None \<Rightarrow> True | Some q \<Rightarrow> qp_id q = of_nat i) \<and>
     list_all wf_ring (rc_circ_buffers ctx)"

section \<open>Lemmas\<close>

lemma wf_ring_new: "wf_ring (newCircularReceiveBuffer base EMULATOR_SW_PAGE_SIZE MSGS_PER_PAIR copies)"
  by (simp add: wf_ring_def wf_cbuf_def newCircularReceiveBuffer_def MSGS_PER_PAIR_def)

lemma wf_ring_setup: "list_all wf_ring (setup_cbufs k base copies)"
  by (induction k base copies rule: setup_cbufs.induct) (simp_all add: wf_ring_new Let_def)

lemma wf_ring_head: "wf_ring b \<Longrightarrow> wf_ring (incHeadAfterMsgProcessed b)"
  by (auto simp: wf_ring_def wf_cbuf_def incHeadAfterMsgProcessed_def MSGS_PER_PAIR_def Let_def)

lemma wf_ring_flow:
  assumes "wf_ring b" "flowControlUpdateSendersHead inc b = Inr b1"
  shows "wf_ring b1"
  using assms by (auto simp: wf_ring_def wf_cbuf_def flowControlUpdateSendersHead_def incSendersHeadToFreeSpace_def
      MSGS_PER_PAIR_def Let_def not_le split: if_splits)

lemma wf_ctx_ring_update:
  "wf_ctx n ctx \<Longrightarrow> wf_ring b \<Longrightarrow> wf_ctx n (ctx\<lparr>rc_circ_buffers := (rc_circ_buffers ctx)[i := b]\<rparr>)"
  by (auto simp: wf_ctx_def list_all_iff dest: set_update_subset_insert [THEN subsetD])

lemma wf_ctx_create:
  assumes "createRPCNUMAContext memalign malloc junk junk_ctrl nid nodes qp_start qp_end packet_size = Inr (Some ctx)"
  shows "wf_ctx (unat (qp_end - qp_start + 1)) ctx"
  using assms
  by (auto simp: createRPCNUMAContext_def wf_ctx_def Let_def bindR_eq_Inr split: prod.splits if_splits)

lemma wf_ctx_qp:
  assumes "wf_ctx n ctx" "registerNewSONUMAQP wq cq tidx ctx m = Inr (q, ctx1, m1)"
  shows "wf_ctx n ctx1"
proof -
  from assms(2) have c: "ctx1 = ctx\<lparr>rc_qps := (rc_qps ctx)[unat tidx := Some q]\<rparr>" and q: "qp_id q = ucast tidx"
    by (auto simp: registerNewSONUMAQP_def Let_def bindR_eq_Inr access_iffs)
  have "case (rc_qps ctx)[unat tidx := Some q] ! i of None \<Rightarrow> True | Some q \<Rightarrow> qp_id q = of_nat i" if "i < n" for i
    using assms(1) q that by (cases "unat tidx = i") (auto simp: wf_ctx_def)
  then show ?thesis using assms(1) by (simp add: wf_ctx_def c)
qed

lemma ctx_reach_wf: "ctx_reach n ctx \<Longrightarrow> wf_ctx n ctx"
proof (induction rule: ctx_reach.induct)
  case (create memalign malloc junk junk_ctrl nid nodes qp_start qp_end packet_size ctx)
  then show ?case using wf_ctx_create by blast
next
  case (buffer ctx lbuf sz tidx m b ctx1 m1)
  then show ?case by (auto simp: wf_ctx_def registerNewLocalBuffer_def Let_def bindR_eq_Inr access_iffs)
next
  case (qp ctx wq cq tidx m q ctx1 m1)
  then show ?case using wf_ctx_qp by blast
next
  case (circ ctx sz k senders receivers copies)
  then show ?case by (simp add: wf_ctx_def setupCircularBuffers_def wf_ring_setup Let_def)
next
  case (head ctx k ctx1)
  then have "k' < length (rc_circ_buffers ctx) \<Longrightarrow> wf_ring (rc_circ_buffers ctx ! k')" for k'
    by (simp add: wf_ctx_def list_all_length)
  then show ?case
    using head by (auto simp: incrementBufferHead_def bindR_eq_Inr access_iffs wf_ring_head intro!: wf_ctx_ring_update)
next
  case (flow ctx i inc b)
  then have "wf_ring b" using wf_ring_flow [OF _ flow.hyps(3)] by (simp add: wf_ctx_def list_all_length)
  then show ?case using flow.IH by (simp add: wf_ctx_ring_update)
qed (simp_all add: wf_ctx_def getRPCID_def addToContainer_def readContainerFromFile_def)

section \<open>Properties\<close>

text \<open>
  C26. Whatever sequence of operations a context went through since its creation for \<open>n\<close> queue
  pairs, it has \<open>n\<close> places for queue pairs and for buffers, the queue pair at place \<open>i\<close> has the
  number \<open>i\<close>, and every circular buffer is a ring of 256 pages whose head index, the one
  \<open>getBufferHeadIndex\<close> returns, is below 256.
\<close>

theorem context_typed:
  assumes "ctx_reach n ctx"
  shows "length (rc_qps ctx) = n \<and> length (rc_app_buffers ctx) = n \<and>
    (\<forall>i q. i < n \<and> rc_qps ctx ! i = Some q \<longrightarrow> qp_id q = of_nat i) \<and>
    (\<forall>k h. getBufferHeadIndex ctx k = Inr h \<longrightarrow> h < 256) \<and>
    (\<forall>b \<in> set (rc_circ_buffers ctx). wf_cbuf b \<and> GetReservedMemoryBytes b = 256 * 8192)"
proof -
  have w: "wf_ctx n ctx" using assms by (rule ctx_reach_wf)
  then have r: "\<forall>b \<in> set (rc_circ_buffers ctx). wf_ring b" by (simp add: wf_ctx_def list_all_iff)
  have "h < 256" if h: "getBufferHeadIndex ctx k = Inr h" for k h
  proof -
    from h have "unat k < length (rc_circ_buffers ctx)" and e: "h = cb_head (rc_circ_buffers ctx ! unat k)"
      by (auto simp: getBufferHeadIndex_def getHeadIdxValue_def bindR_eq_Inr access_iffs)
    then have "wf_ring (rc_circ_buffers ctx ! unat k)" using r by simp
    then show ?thesis by (auto simp: e wf_ring_def wf_cbuf_def MSGS_PER_PAIR_def)
  qed
  moreover have "wf_cbuf b \<and> GetReservedMemoryBytes b = 256 * 8192" if "wf_ring b" for b
    using that by (simp add: wf_ring_def GetReservedMemoryBytes_def MSGS_PER_PAIR_def EMULATOR_SW_PAGE_SIZE_def)
  ultimately show ?thesis using w r by (fastforce simp: wf_ctx_def)
qed

text \<open>A context of four queue pairs with the queue pair of thread 2 registered and four circular buffers.\<close>

abbreviation demo_creation :: "rpcNUMAContext option res" where
  "demo_creation \<equiv> createRPCNUMAContext (\<lambda>_ _. Some 0x10000) (\<lambda>_. Some 0x20000) demo_junk demo_ctrl 1 2 0 3 512"

definition demo_created :: rpcNUMAContext where
  "demo_created = (case demo_creation of Inr (Some ctx) \<Rightarrow> ctx | _ \<Rightarrow> demo_junk)"

definition demo_registered :: rpcNUMAContext where
  "demo_registered = setupCircularBuffers 0 0 2 2 False
     (demo_created\<lparr>rc_qps := (rc_qps demo_created)[2 := Some \<lparr>qp_id = 2, qp_wq = 0x30000, qp_cq = 0x40000\<rparr>]\<rparr>)"

lemma demo_create: "demo_creation = Inr (Some demo_created)"
proof -
  have f: "slot_file_chars 1 \<le> 25" by (simp add: slot_file_fits)
  have "\<exists>kb ce. kal_reg_send_recv_bufs (\<lambda>_. Some 0x20000) demo_ctrl (rc_kfd demo_junk)
      (Some (md_ctx_struct (fresh_domain demo_junk))) NULL 256 (scast (512 :: u32)) (ucast (2 :: u32)) NULL NULL =
      Inr (0, kb) \<and> kb_ctx kb = Some ce"
    using kal_reg_send_recv_bufs_ok [of 512 "\<lambda>_. Some 0x20000" 2 "0x20000" demo_ctrl "rc_kfd demo_junk"
        "md_ctx_struct (fresh_domain demo_junk)" NULL 256 NULL NULL] by (force simp: CACHE_BLOCK_SIZE_def)
  then obtain kb ce where k: "kal_reg_send_recv_bufs (\<lambda>_. Some 0x20000) demo_ctrl (rc_kfd demo_junk)
      (Some (md_ctx_struct (fresh_domain demo_junk))) NULL 256 (scast (512 :: u32)) (ucast (2 :: u32)) NULL NULL =
      Inr (0, kb)" "kb_ctx kb = Some ce" by blast
  have "\<exists>ctx. demo_creation = Inr (Some ctx)" using createRPCNUMAContext_eq [OF f _ k] by simp
  then show ?thesis by (auto simp: demo_created_def)
qed

lemma demo_created_reach: "ctx_reach 4 demo_created"
  using ctx_reach.create [OF demo_create, of 4] by simp

lemma demo_registered_reach: "ctx_reach 4 demo_registered"
proof -
  have "length (rc_qps demo_created) = 4" using ctx_reach_wf [OF demo_created_reach] by (simp add: wf_ctx_def)
  then have "registerNewSONUMAQP 0x30000 0x40000 2 demo_created m =
      Inr (\<lparr>qp_id = 2, qp_wq = 0x30000, qp_cq = 0x40000\<rparr>,
        demo_created\<lparr>rc_qps := (rc_qps demo_created)[2 := Some \<lparr>qp_id = 2, qp_wq = 0x30000, qp_cq = 0x40000\<rparr>]\<rparr>,
        register_buffer Var_addr 1 (register_buffer Var_addr 0 m))" for m
    by (simp add: registerNewSONUMAQP_def Let_def)
  from ctx_reach.circ [OF ctx_reach.qp [OF demo_created_reach this]] show ?thesis
    unfolding demo_registered_def .
qed

theorem context_typed_witness:
  "ctx_reach 4 demo_registered \<and> length (rc_qps demo_registered) = 4 \<and> length (rc_app_buffers demo_registered) = 4 \<and>
   getBufferHeadIndex demo_registered 3 = Inr 0"
proof -
  have "getBufferHeadIndex demo_registered 3 = Inr 0"
    by (simp add: demo_registered_def setupCircularBuffers_def getBufferHeadIndex_def setup_cbufs_nth getHeadIdxValue_def
        newCircularReceiveBuffer_def)
  then show ?thesis using context_typed [OF demo_registered_reach] demo_registered_reach by simp
qed



end
