(* ===== verification/Dump_Hex.thy ===== *)
theory Dump_Hex
  imports C_Memory
begin

text \<open>
  The debugging helper \<open>rpc_shm/DumpHex.c\<close>: it prints a block of memory in lines of sixteen
  bytes, in hexadecimal and as characters. The output is a string; the local array \<open>ascii\<close> starts
  with indeterminate content.
\<close>

section \<open>The code\<close>

definition nul :: char where
  "nul = CHR 0x00"

definition hex_digit :: "nat \<Rightarrow> char" where
  "hex_digit n = ''0123456789ABCDEF'' ! n"

text \<open>\<open>printf("%02X ", b)\<close> and what \<open>printf("%s", a)\<close> prints of an array.\<close>

definition hex_byte :: "u8 \<Rightarrow> string" where
  "hex_byte b = [hex_digit (unat b div 16), hex_digit (unat b mod 16), CHR '' '']"

definition c_string :: "char list \<Rightarrow> string" where
  "c_string a = takeWhile (\<lambda>c. c \<noteq> nul) a"

definition printable :: "u8 \<Rightarrow> char" where
  "printable b = (if 0x20 \<le> b \<and> b \<le> 0x7E then char_of (unat b) else CHR ''.'')"

definition ascii_column :: "char list \<Rightarrow> string" where
  "ascii_column ascii = ''|  '' @ c_string ascii @ '' '' @ [CHR 0x0A]"

text \<open>The body of the loop for the byte \<open>b\<close> at index \<open>i\<close>.\<close>

definition dump_step :: "nat \<Rightarrow> nat \<Rightarrow> u8 \<Rightarrow> string \<times> char list \<Rightarrow> string \<times> char list" where
  "dump_step sz i b st =
     (case st of (out, ascii) \<Rightarrow>
      let out1 = out @ hex_byte b;
          ascii1 = ascii[i mod 16 := printable b]
      in if (i + 1) mod 8 = 0 \<or> i + 1 = sz then
           let out2 = out1 @ '' ''
           in if (i + 1) mod 16 = 0 then (out2 @ ascii_column ascii1, ascii1)
              else if i + 1 = sz then
                let ascii2 = ascii1[(i + 1) mod 16 := nul];
                    out3 = (if (i + 1) mod 16 \<le> 8 then out2 @ '' '' else out2);
                    out4 = out3 @ concat (map (\<lambda>j. ''   '') [(i + 1) mod 16..<16])
                in (out4 @ ascii_column ascii2, ascii2)
              else (out2, ascii1)
         else (out1, ascii1))"

definition DumpHex :: "char list \<Rightarrow> memory \<Rightarrow> addr \<Rightarrow> u64 \<Rightarrow> string" where
  "DumpHex junk m data sz =
     fst (fold (\<lambda>i. dump_step (unat sz) i (m (data + of_nat i))) [0..<unat sz] ([], junk[16 := nul]))"

section \<open>The reference layout\<close>

text \<open>A line: two groups of eight bytes, padded to a fixed width, and the characters.\<close>

definition pad :: "nat \<Rightarrow> string \<Rightarrow> string" where
  "pad n s = s @ replicate (n - length s) (CHR '' '')"

definition dump_line :: "u8 list \<Rightarrow> string" where
  "dump_line bs = pad 24 (concat (map hex_byte (take 8 bs))) @ '' '' @ pad 24 (concat (map hex_byte (drop 8 bs))) @ '' '' @
     ''|  '' @ map printable bs @ '' '' @ [CHR 0x0A]"

fun dump_lines :: "u8 list \<Rightarrow> string" where
  "dump_lines bs = (if bs = [] then [] else dump_line (take 16 bs) @ dump_lines (drop 16 bs))"

declare dump_lines.simps [simp del]

section \<open>Lemmas\<close>

lemma length_hex_byte [simp]: "length (hex_byte b) = 3"
  by (simp add: hex_byte_def)

lemma length_hex [simp]: "length (concat (map hex_byte bs)) = 3 * length bs"
  by (induction bs) simp_all

lemma printable_nul [simp]: "printable b \<noteq> nul"
proof (cases "0x20 \<le> b \<and> b \<le> 0x7E")
  case True
  then have b: "unat b mod 256 \<noteq> 0" by (simp add: word_le_nat_alt)
  have "char_of (unat b) \<noteq> nul"
  proof
    assume "char_of (unat b) = nul"
    then have "(of_char (char_of (unat b)) :: nat) = of_char nul" by simp
    with b show False by (simp add: nul_def)
  qed
  then show ?thesis using True by (simp add: printable_def)
qed (auto simp: printable_def nul_def)

lemma c_string_prefix:
  assumes "take (length bs) a = map printable bs" "length bs < length a" "a ! length bs = nul"
  shows "c_string a = map printable bs"
proof -
  have "a = map printable bs @ nul # drop (Suc (length bs)) a"
    using assms by (metis Cons_nth_drop_Suc append_take_drop_id)
  then have "c_string a = takeWhile (\<lambda>c. c \<noteq> nul) (map printable bs @ nul # drop (Suc (length bs)) a)"
    unfolding c_string_def by metis
  also have "takeWhile (\<lambda>c. c \<noteq> nul) (map printable bs @ nul # ys) = map printable bs" for ys
    by (induction bs) simp_all
  finally show ?thesis .
qed

text \<open>What is printed of an unfinished line.\<close>

definition seg :: "u8 list \<Rightarrow> string" where
  "seg c = concat (map hex_byte (take 8 c)) @ (if 8 \<le> length c then '' '' else []) @ concat (map hex_byte (drop 8 c))"

lemma seg_snoc:
  assumes "length c < 15"
  shows "seg c @ hex_byte b @ (if length c = 7 then '' '' else []) = seg (c @ [b])"
proof -
  consider "length c < 7" | "length c = 7" | "8 \<le> length c" by linarith
  then show ?thesis by cases (simp_all add: seg_def)
qed

lemma blanks: "concat (map (\<lambda>j. ''   '') [r..<16]) = replicate (3 * (16 - r)) (CHR '' '')"
proof -
  have "concat (replicate k ''   '') = replicate (3 * k) (CHR '' '')" for k
    by (induction k) (simp_all add: replicate_add numeral_3_eq_3)
  then show ?thesis by (simp add: map_replicate_const)
qed

lemma blank_eqI:
  "length xs = length ys \<Longrightarrow> set xs \<subseteq> {x} \<Longrightarrow> set ys \<subseteq> {x} \<Longrightarrow> xs = ys"
  by (metis replicate_eqI singletonD subsetD)

lemma line_full:
  assumes "length c = 15" "cs = map printable (c @ [b])"
  shows "seg c @ hex_byte b @ '' '' @ ''|  '' @ cs @ '' '' @ [CHR 0x0A] = dump_line (c @ [b])"
  using assms by (simp add: seg_def dump_line_def pad_def)

lemma line_part:
  assumes "length c < 15" "cs = map printable (c @ [b])"
  shows "seg c @ hex_byte b @ '' '' @ (if length c < 8 then '' '' else []) @
    replicate (3 * (15 - length c)) (CHR '' '') @ ''|  '' @ cs @ '' '' @ [CHR 0x0A] = dump_line (c @ [b])"
proof (cases "length c < 8")
  case True
  let ?n = "length c"
  have "seg c @ hex_byte b = concat (map hex_byte (c @ [b]))" using True by (simp add: seg_def)
  moreover have "'' '' @ '' '' @ replicate (3 * (15 - ?n)) (CHR '' '') =
      replicate (24 - 3 * Suc ?n) (CHR '' '') @ '' '' @ replicate 24 (CHR '' '') @ '' ''"
    using True by (intro blank_eqI [of _ _ "CHR '' ''"]) auto
  ultimately show ?thesis
    using True assms(2) by (simp add: dump_line_def pad_def del: append_assoc flip: append_assoc)
next
  case False
  have "'' '' @ replicate (3 * (15 - length c)) (CHR '' '') = replicate (24 - 3 * (Suc (length c) - 8)) (CHR '' '') @ '' ''"
    using False assms(1) by (intro blank_eqI [of _ _ "CHR '' ''"]) auto
  then show ?thesis
    using False assms by (simp add: seg_def dump_line_def pad_def)
qed

lemma dump_lines_append:
  "length xs mod 16 = 0 \<Longrightarrow> dump_lines (xs @ ys) = dump_lines xs @ dump_lines ys"
proof (induction xs rule: dump_lines.induct)
  case (1 xs)
  show ?case
  proof (cases "xs = []")
    case False
    with 1(2) have "16 \<le> length xs" by (metis mod_less length_greater_0_conv not_le neq0_conv)
    with False 1 show ?thesis
      by (simp add: dump_lines.simps [of "xs @ ys"] dump_lines.simps [of xs] mod_diff_right_eq le_mod_geq)
  qed (simp add: dump_lines.simps [of "[]"])
qed

lemma dump_lines_short: "bs \<noteq> [] \<Longrightarrow> length bs \<le> 16 \<Longrightarrow> dump_lines bs = dump_line bs"
  by (simp add: dump_lines.simps [of bs] dump_lines.simps [of "[]"])

text \<open>
  The state before the byte \<open>i\<close> of a block \<open>bs\<close>: the complete lines and the unfinished one are
  printed, and the characters of the latter are in the array.
\<close>

definition dump_inv :: "u8 list \<Rightarrow> nat \<Rightarrow> string \<times> char list \<Rightarrow> bool" where
  "dump_inv bs i st \<longleftrightarrow>
     (\<exists>ds c. take i bs = ds @ c \<and> length ds mod 16 = 0 \<and> length c < 16 \<and> fst st = dump_lines ds @ seg c \<and>
        length (snd st) = 17 \<and> snd st ! 16 = nul \<and> take (length c) (snd st) = map printable c)"

lemma dump_invI:
  "take i bs = ds @ c \<Longrightarrow> length ds mod 16 = 0 \<Longrightarrow> length c < 16 \<Longrightarrow> out = dump_lines ds @ seg c \<Longrightarrow>
   length a = 17 \<Longrightarrow> a ! 16 = nul \<Longrightarrow> take (length c) a = map printable c \<Longrightarrow> dump_inv bs i (out, a)"
  unfolding dump_inv_def fst_conv snd_conv by (intro exI [of _ ds] exI [of _ c] conjI)

text \<open>The three ways through the body: a line is completed, the block ends within a line, or neither.\<close>

lemma mod8_of_mod16: "n mod 16 mod 8 = n mod (8 :: nat)"
  by (rule mod_mod_cancel) simp

lemma dump_step_full:
  assumes "i mod 16 = 15" "length c = 15" "length a = 17" "a ! 16 = nul" "take 15 a = map printable c"
  shows "dump_step n i b (out @ seg c, a) = (out @ dump_line (c @ [b]), a[15 := printable b])"
proof -
  have m: "Suc i mod 16 = 0" "Suc i mod 8 = 0" using assms(1) mod8_of_mod16 [of "Suc i"] by (simp_all add: mod_Suc)
  have "take (length (c @ [b])) (a[15 := printable b]) = map printable (c @ [b])"
    using assms take_Suc_conv_app_nth [of 15 "a[15 := printable b]"] by simp
  then have "c_string (a[15 := printable b]) = map printable (c @ [b])"
    using assms by (intro c_string_prefix) simp_all
  with m assms(1) line_full [OF assms(2) refl, of b] show ?thesis
    by (simp add: dump_step_def ascii_column_def Let_def)
qed

lemma dump_step_last:
  assumes "i mod 16 = length c" "length c < 15" "length a = 17" "take (length c) a = map printable c"
  shows "fst (dump_step (Suc i) i b (out @ seg c, a)) = out @ dump_line (c @ [b])"
proof -
  let ?a = "a[length c := printable b, Suc (length c) := nul]"
  have m: "Suc i mod 16 = Suc (length c)" using assms(1,2) by (simp add: mod_Suc)
  have "take (length (c @ [b])) ?a = map printable (c @ [b])"
    using assms by (simp add: take_Suc_conv_app_nth)
  then have "c_string ?a = map printable (c @ [b])"
    using assms by (intro c_string_prefix) simp_all
  with m assms(1) line_part [OF assms(2) refl, of b] show ?thesis
    by (cases "length c < 8") (simp_all add: dump_step_def ascii_column_def blanks Let_def)
qed

lemma dump_step_mid:
  assumes "i mod 16 = length c" "length c < 15" "Suc i \<noteq> n"
  shows "dump_step n i b (out @ seg c, a) = (out @ seg (c @ [b]), a[length c := printable b])"
proof -
  have m: "Suc i mod 16 = Suc (length c)" using assms(1,2) by (simp add: mod_Suc)
  have "Suc i mod 8 = Suc (length c) mod 8" using mod8_of_mod16 [of "Suc i"] m by simp
  moreover have "Suc k mod 8 = 0 \<longleftrightarrow> k = 7" if "k < 15" for k :: nat using that by presburger
  ultimately have "Suc i mod 8 = 0 \<longleftrightarrow> length c = 7" using assms(2) by simp
  with m show ?thesis
    using seg_snoc [OF assms(2), of b] assms by (simp add: dump_step_def Let_def split: if_splits)
qed

lemma dump_step_inv:
  assumes "dump_inv bs i st" "i < length bs"
  shows "if Suc i = length bs then fst (dump_step (length bs) i (bs ! i) st) = dump_lines bs
    else dump_inv bs (Suc i) (dump_step (length bs) i (bs ! i) st)"
proof -
  let ?b = "bs ! i" and ?n = "length bs"
  from assms(1) obtain ds c a where h: "take i bs = ds @ c" "length ds mod 16 = 0" "length c < 16"
    "st = (dump_lines ds @ seg c, a)" "length a = 17" "a ! 16 = nul" "take (length c) a = map printable c"
    by (cases st) (auto simp: dump_inv_def)
  have "i = length ds + length c" using h(1) assms(2) by (metis length_append length_take min.absorb4)
  then have r: "i mod 16 = length c" using h(2,3) by (metis add_0 mod_add_left_eq mod_less)
  have nxt: "take (Suc i) bs = ds @ c @ [?b]" using h(1) assms(2) by (simp add: take_Suc_conv_app_nth)
  have line: "dump_lines (ds @ c @ [?b]) = dump_lines ds @ dump_line (c @ [?b])"
    using h(2,3) by (simp add: dump_lines_append dump_lines_short)
  have last: "Suc i = ?n \<Longrightarrow> dump_lines bs = dump_lines ds @ dump_line (c @ [?b])"
    using nxt line by simp
  show ?thesis
  proof (cases "length c = 15")
    case True
    then have s: "dump_step ?n i ?b st = (dump_lines ds @ dump_line (c @ [?b]), a[15 := printable ?b])"
      using dump_step_full [of i c a] h r by simp
    have "(length ds + 16) mod 16 = 0" using h(2) by simp
    then have "length (ds @ c @ [?b]) mod 16 = 0" using True by simp
    then have "dump_inv bs (Suc i) (dump_lines ds @ dump_line (c @ [?b]), a[15 := printable ?b])"
      using nxt h(5,6) line by (intro dump_invI [where ds = "ds @ c @ [?b]" and c = "[]"]) (simp_all add: seg_def)
    then show ?thesis using s last by simp
  next
    case False
    then have c: "length c < 15" using h(3) by simp
    show ?thesis
    proof (cases "Suc i = ?n")
      case True
      then show ?thesis using dump_step_last [OF r c h(5,7)] h(4) last by simp
    next
      case False
      have "dump_inv bs (Suc i) (dump_lines ds @ seg (c @ [?b]), a[length c := printable ?b])"
        using h(2,5,6,7) c nxt
        by (intro dump_invI [where ds = ds and c = "c @ [?b]"]) (simp_all add: take_Suc_conv_app_nth)
      then show ?thesis using dump_step_mid [OF r c False] h(4) False by simp
    qed
  qed
qed

lemma dump_fold:
  assumes "length junk = 17" "k < length bs"
  shows "dump_inv bs k (fold (\<lambda>i. dump_step (length bs) i (bs ! i)) [0..<k] ([], junk[16 := nul]))"
  using assms(2)
proof (induction k)
  case 0
  then show ?case
    using assms(1) by (auto intro!: dump_invI [where ds = "[]" and c = "[]"] simp: seg_def dump_lines.simps [of "[]"])
next
  case (Suc k)
  from dump_step_inv [OF Suc.IH] Suc.prems show ?case by simp
qed

section \<open>Properties\<close>

text \<open>
  C33. \<open>DumpHex\<close> prints the reference layout of the block: lines of sixteen bytes, each with two
  padded groups of eight in hexadecimal and the characters of its bytes, whatever the array
  \<open>ascii\<close> held before.
\<close>

theorem DumpHex_layout:
  assumes "length junk = 17"
  shows "DumpHex junk m data sz = dump_lines (load_bytes m data (unat sz))"
proof (cases "unat sz")
  case 0
  then show ?thesis by (simp add: DumpHex_def load_bytes_def dump_lines.simps [of "[]"])
next
  case (Suc k)
  let ?bs = "load_bytes m data (unat sz)"
  let ?st = "\<lambda>k. fold (\<lambda>i. dump_step (length ?bs) i (?bs ! i)) [0..<k] ([], junk[16 := nul])"
  have "DumpHex junk m data sz = fst (?st (Suc k))"
    unfolding DumpHex_def Suc [symmetric] by (intro arg_cong [where f = fst] fold_cong) simp_all
  also have "?st (Suc k) = dump_step (length ?bs) k (?bs ! k) (?st k)" by simp
  also have "fst \<dots> = dump_lines ?bs"
    using dump_step_inv [OF dump_fold [OF assms, of k ?bs]] Suc by simp
  finally show ?thesis .
qed

definition dump_sample :: memory where
  "dump_sample = store_bytes (\<lambda>_. 0) 64 [0x48, 0x69, 0x0A]"

lemma dump_sample_bytes: "load_bytes dump_sample 64 3 = [0x48, 0x69, 0x0A]"
  using load_store_same [of "[0x48, 0x69, 0x0A]" "\<lambda>_. 0" 64] by (simp add: dump_sample_def numeral_3_eq_3)

theorem DumpHex_layout_witness:
  "DumpHex (replicate 17 (CHR ''x'')) dump_sample 64 3 =
     ''48 69 0A '' @ replicate 15 (CHR '' '') @ '' '' @ replicate 24 (CHR '' '') @ '' |  Hi. '' @ [CHR 0x0A]"
proof -
  have "char_of (72 :: nat) = CHR ''H''" "char_of (105 :: nat) = CHR ''i''" by code_simp+
  then show ?thesis
    using DumpHex_layout [of "replicate 17 (CHR ''x'')" dump_sample 64 3]
    by (simp add: dump_sample_bytes dump_lines_short dump_line_def pad_def hex_byte_def hex_digit_def printable_def)
qed

end
