(* ===== verification/Htonl_Bench.thy ===== *)
theory Htonl_Bench
  imports Main_NF
begin

text \<open>
  The stand-alone timing program \<open>rpc_shm/test_htonl.c\<close>. The time-stamp counter is a parameter
  \<open>tsc\<close>: the halves that its successive readings return; the content of a fresh block comes
  from \<open>junk\<close>. Only the result of \<open>main\<close> is modelled, not what it prints.
\<close>

unbundle bit_operations_syntax

section \<open>The code\<close>

text \<open>\<open>cpu_tsc_start\<close> and \<open>cpu_tsc_end\<close> combine the two halves in the same way.\<close>

definition cpu_tsc :: "u32 \<times> u32 \<Rightarrow> u64" where
  "cpu_tsc r = (case r of (cyc_high, cyc_low) \<Rightarrow> push_bit 32 (ucast cyc_high) OR ucast cyc_low)"

fun fill_array :: "nat \<Rightarrow> int list \<Rightarrow> int list res" where
  "fill_array 0 arr = Inr arr"
| "fill_array (Suc i) arr = bindR (arr_set arr i (int i)) (fill_array i)"

fun bench_loop ::
  "(nat \<Rightarrow> u32 \<times> u32) \<Rightarrow> nat \<Rightarrow> int list \<Rightarrow> nat list \<Rightarrow> int \<Rightarrow> u64 \<Rightarrow> (int \<times> u64) res" where
  "bench_loop tsc sz arr [] accum total_time = Inr (accum, total_time)"
| "bench_loop tsc sz arr (i # is) accum total_time =
     (let start_t = cpu_tsc (tsc (2 * i)) in
      bindR (arr_get arr (sz - i)) (\<lambda>x.
      bindR (arr_get arr i) (\<lambda>y.
      bindR (c_int (x - y)) (\<lambda>d.
      let accum1 = accum + uint (htonl (word_of_int d));
          end_t = cpu_tsc (tsc (2 * i + 1))
      in bench_loop tsc sz arr is accum1 (total_time + (end_t - start_t))))))"

definition htonl_main ::
  "(u64 \<Rightarrow> addr option) \<Rightarrow> (nat \<Rightarrow> int) \<Rightarrow> (nat \<Rightarrow> u32 \<times> u32) \<Rightarrow> string list \<Rightarrow> int res" where
  "htonl_main malloc junk tsc args =
     (case args of
        [] \<Rightarrow> Inl Segv
      | s # _ \<Rightarrow>
          let sz = atoi s; block = malloc (word_of_int sz * 4) in
          bindR (if 0 < sz \<and> block = None then Inl Segv
                 else fill_array (nat sz) (map junk [0..<nat sz])) (\<lambda>arr.
          bindR (bench_loop tsc (nat sz) arr [0..<nat sz] 0 0) (\<lambda>(accum, total_time).
          let accum1 = accum mod 5;
              total1 = total_time + word_of_int accum1;
              total2 = push_bit 10 (word_of_int accum1) AND drop_bit 10 total1
          in Inr (sint (ucast total2 :: u32)))))"

section \<open>Lemmas\<close>

lemma fill_array_length: "k \<le> length arr \<Longrightarrow> \<exists>arr1. fill_array k arr = Inr arr1 \<and> length arr1 = length arr"
proof (induction k arbitrary: arr)
  case (Suc k)
  then show ?case using Suc.IH [of "arr[k := int k]"] by simp
qed simp

section \<open>Properties\<close>

text \<open>
  C40. The outcome of the program for every command line: without an argument and without memory it
  dereferences a null pointer; for a positive size its first iteration reads one element past the
  end of the array; for any other size it does nothing and returns 0.
\<close>

theorem htonl_main_outcome:
  "htonl_main malloc junk tsc args =
     (case args of
        [] \<Rightarrow> Inl Segv
      | s # _ \<Rightarrow> if atoi s \<le> 0 then Inr 0
                else if malloc (word_of_int (atoi s) * 4) = None then Inl Segv
                else Inl Out_of_bounds)"
proof (cases args)
  case (Cons s rest)
  show ?thesis
  proof (cases "0 < atoi s")
    case True
    then obtain k where k: "nat (atoi s) = Suc k" by (cases "nat (atoi s)") simp_all
    obtain arr where a: "fill_array (Suc k) (map junk [0..<Suc k]) = Inr arr" "length arr = Suc k"
      using fill_array_length [of "Suc k" "map junk [0..<Suc k]"] by auto
    have "bench_loop tsc (Suc k) arr [0..<Suc k] 0 0 = Inl Out_of_bounds"
      unfolding upt_conv_Cons [OF zero_less_Suc] using a(2) by (simp add: arr_get_def)
    with True k a(1) show ?thesis using Cons by (simp add: htonl_main_def Let_def del: upt_Suc fill_array.simps)
  qed (simp add: Cons htonl_main_def Let_def)
qed (simp add: htonl_main_def)

end
