(* ===== verification/Inline_Helpers.thy ===== *)
theory Inline_Helpers
  imports Htonl_Bench
begin

text \<open>
  The inline functions that no code of the program calls: the index operators of the buffers, the
  stream output of a local buffer (\<open>rpc_shm/rpc.h\<close>, \<open>rpc_shm/cbuf.h\<close>) and the reading of the time-stamp
  counter in \<open>simpNF/worker.c\<close>.
\<close>

section \<open>The code\<close>

text \<open>The address of \<open>buf[idx]\<close>, in an array of 32-bit words and in an array of bytes.\<close>

definition buffer_index :: "u32 \<Rightarrow> NIExposedBuffer \<Rightarrow> addr" where
  "buffer_index idx b = underlyingBuffer b + 4 * scast idx"

definition cbuf_index :: "u32 \<Rightarrow> CircularReceiveBuffer \<Rightarrow> addr" where
  "cbuf_index offset b = cb_basePointer b + scast offset"

text \<open>A number after \<open>std::hex\<close>: lower-case digits without leading zeros.\<close>

definition hex_low :: "nat \<Rightarrow> char" where
  "hex_low n = ''0123456789abcdef'' ! n"

fun hex_number :: "nat \<Rightarrow> string" where
  "hex_number n = (if n < 16 then [hex_low n] else hex_number (n div 16) @ [hex_low (n mod 16)])"

declare hex_number.simps [simp del]

definition buffer_output :: "NIExposedBuffer \<Rightarrow> memory \<Rightarrow> string" where
  "buffer_output b m =
     concat (map (\<lambda>i. ''0x'' @ hex_number (unat (load32 m (underlyingBuffer b + 4 * of_nat i))) @ '' '') [0..<64]) @
     [CHR 0x0A]"

text \<open>\<open>rdtsc\<close> leaves the two halves of the counter, zero-extended, in \<open>edx\<close> and \<open>eax\<close>.\<close>

definition rdtsc :: "u32 \<times> u32 \<Rightarrow> u64" where
  "rdtsc r = (case r of (edx, eax) \<Rightarrow> let lo = ucast eax; hi = ucast edx in lo OR push_bit 32 hi)"

section \<open>Reading the output back\<close>

definition hex_value :: "char \<Rightarrow> nat" where
  "hex_value c = length (takeWhile (\<lambda>d. d \<noteq> c) ''0123456789abcdef'')"

definition read_hex :: "string \<Rightarrow> nat" where
  "read_hex = foldl (\<lambda>n c. 16 * n + hex_value c) 0"

fun read_words :: "nat \<Rightarrow> string \<Rightarrow> nat list" where
  "read_words 0 s = []"
| "read_words (Suc k) s =
     (let w = takeWhile (\<lambda>c. c \<noteq> CHR '' '') s
      in read_hex (drop 2 w) # read_words k (drop (Suc (length w)) s))"

lemma below_16: "n < 16 \<Longrightarrow> n \<in> {0, 1, 2, 3, 4, 5, 6, 7, 8, 9, 10, 11, 12, 13, 14, 15 :: nat}"
  unfolding insert_iff empty_iff by arith

lemma hex_value_low: "n < 16 \<Longrightarrow> hex_value (hex_low n) = n \<and> hex_low n \<noteq> CHR '' ''"
  by (drule below_16) (auto simp: hex_value_def hex_low_def)

lemma read_hex_number: "read_hex (hex_number n) = n"
proof (induction n rule: hex_number.induct)
  case (1 n)
  show ?case
  proof (cases "n < 16")
    case True
    then show ?thesis by (subst hex_number.simps) (simp add: read_hex_def hex_value_low)
  next
    case False
    then have "read_hex (hex_number n) = 16 * read_hex (hex_number (n div 16)) + hex_value (hex_low (n mod 16))"
      by (subst hex_number.simps) (simp add: read_hex_def)
    also have "\<dots> = n" using 1 [OF False] by (simp add: hex_value_low)
    finally show ?thesis .
  qed
qed

lemma hex_number_no_blank: "CHR '' '' \<notin> set (hex_number n)"
proof (induction n rule: hex_number.induct)
  case (1 n)
  then show ?case using hex_value_low [of n] hex_value_low [of "n mod 16"]
    by (subst hex_number.simps) auto
qed

lemma takeWhile_word: "x \<notin> set w \<Longrightarrow> takeWhile (\<lambda>c. c \<noteq> x) (w @ x # r) = w"
  by (induction w) auto

lemma read_words_output:
  "read_words (length ws) (concat (map (\<lambda>w. ''0x'' @ hex_number w @ '' '') ws) @ r) = ws"
proof (induction ws)
  case (Cons w ws)
  have "takeWhile (\<lambda>c. c \<noteq> CHR '' '') ((''0x'' @ hex_number w) @ CHR '' '' # concat (map (\<lambda>w. ''0x'' @ hex_number w @ '' '') ws) @ r) =
      ''0x'' @ hex_number w"
    by (rule takeWhile_word) (use hex_number_no_blank in simp)
  then show ?case using Cons by (simp add: read_hex_number Let_def)
qed simp

section \<open>Lemmas\<close>

text \<open>What is printed determines the 64 words printed, which are those that the index operator reaches.\<close>

lemma buffer_output_words:
  "read_words 64 (buffer_output b m) = map (\<lambda>i. unat (load32 m (buffer_index (of_nat i) b))) [0..<64]"
proof -
  have s: "(scast (of_nat i :: u32) :: u64) = of_nat i" if "i < 64" for i
    using that by (simp add: scast_eq signed_of_nat signed_take_bit_int_eq_self)
  let ?ws = "map (\<lambda>i. unat (load32 m (underlyingBuffer b + 4 * of_nat i))) [0..<64]"
  have "buffer_output b m = concat (map (\<lambda>w. ''0x'' @ hex_number w @ '' '') ?ws) @ [CHR 0x0A]"
    by (simp add: buffer_output_def comp_def)
  then have "read_words 64 (buffer_output b m) = ?ws"
    using read_words_output [of ?ws "[CHR 0x0A]"] by simp
  then show ?thesis by (simp add: buffer_index_def s)
qed

lemma buffer_index_address: "buffer_index idx b = getUnderlyingAddress idx b"
  by (simp add: buffer_index_def getUnderlyingAddress_def)

lemma cbuf_index_address:
  assumes "unat (getHeadOffset b) < 2147483648"
  shows "cbuf_index (ucast (getHeadOffset b)) b = getHeadAddress b"
proof -
  let ?o = "getHeadOffset b"
  have u: "unat (ucast ?o :: u32) = unat ?o" using assms by (simp add: unsigned_ucast_eq take_bit_nat_eq_self)
  then have "unat (scast (ucast ?o :: u32) :: u64) = unat ?o" using assms unat_scast_u32 [of "ucast ?o"] by simp
  then have "(scast (ucast ?o :: u32) :: u64) = ?o" by (simp add: word_unat_eq_iff)
  then show ?thesis by (simp add: cbuf_index_def getHeadOffset_def getHeadAddress_def)
qed

lemma rdtsc_cpu_tsc: "rdtsc r = cpu_tsc r"
  by (simp add: rdtsc_def cpu_tsc_def or.commute Let_def split: prod.splits)

end
