(* ===== verification/Header_Macros.thy ===== *)
theory Header_Macros
  imports Zsim_Nic
begin

unbundle bit_operations_syntax

text \<open>
  The macros of the headers. A macro is replaced as text, so its value is that of the tokens around it
  after the replacement: this theory has the tables of macros as the headers define them, the
  replacement, and the evaluation of constant expressions with the precedences of C. It compares
  \<open>libzsim/zsim_nic_defines.hpp\<close>, the header of the NIC library, with \<open>libzsim/RMCdefines.h\<close>, the
  older header it was made from and which no file includes any more, and it justifies the constants
  that the other theories write as numbers.
\<close>

section \<open>Constant expressions\<close>

datatype ctok = Num int | Name string | Star | Plus | Minus | Shl | Neq | Bar | LPar | RPar

type_synonym macros = "(string \<times> ctok list) list"

text \<open>Replacement of the macros in a list of tokens, \<open>k\<close> times; an unknown name stays.\<close>

fun replace :: "macros \<Rightarrow> ctok \<Rightarrow> ctok list" where
  "replace tbl (Name n) = (case map_of tbl n of None \<Rightarrow> [Name n] | Some ts \<Rightarrow> ts)"
| "replace tbl t = [t]"

definition expand :: "macros \<Rightarrow> nat \<Rightarrow> ctok list \<Rightarrow> ctok list" where
  "expand tbl k = (\<lambda>ts. concat (map (replace tbl) ts)) ^^ k"

text \<open>The binary operators, from the loosest binding to the tightest.\<close>

fun prec :: "ctok \<Rightarrow> nat" where
  "prec Bar = 1" | "prec Neq = 2" | "prec Shl = 3" | "prec Plus = 4" | "prec Minus = 4" | "prec Star = 5"
| "prec _ = 0"

fun operate :: "ctok \<Rightarrow> int \<Rightarrow> int \<Rightarrow> int" where
  "operate Bar v w = v OR w"
| "operate Neq v w = (if v \<noteq> w then 1 else 0)"
| "operate Shl v w = push_bit (nat w) v"
| "operate Plus v w = v + w"
| "operate Minus v w = v - w"
| "operate Star v w = v * w"
| "operate _ v w = v"

text \<open>
  Precedence climbing: an expression whose operators bind at least as tight as \<open>p\<close>, and the tokens
  after it. The first argument bounds the depth; twenty levels suffice for every macro here.
\<close>

fun c_primary :: "nat \<Rightarrow> ctok list \<Rightarrow> (int \<times> ctok list) option"
  and c_expr :: "nat \<Rightarrow> nat \<Rightarrow> ctok list \<Rightarrow> (int \<times> ctok list) option"
  and c_climb :: "nat \<Rightarrow> nat \<Rightarrow> int \<Rightarrow> ctok list \<Rightarrow> (int \<times> ctok list) option" where
  "c_primary (Suc k) (Num v # ts) = Some (v, ts)"
| "c_primary (Suc k) (LPar # ts) =
     (case c_expr k 1 ts of Some (v, RPar # us) \<Rightarrow> Some (v, us) | _ \<Rightarrow> None)"
| "c_primary _ _ = None"
| "c_expr (Suc k) p ts = (case c_primary k ts of None \<Rightarrow> None | Some (v, us) \<Rightarrow> c_climb k p v us)"
| "c_expr 0 p ts = None"
| "c_climb (Suc k) p v [] = Some (v, [])"
| "c_climb (Suc k) p v (t # ts) =
     (if 0 < prec t \<and> p \<le> prec t then
        (case c_expr k (Suc (prec t)) ts of None \<Rightarrow> None | Some (w, us) \<Rightarrow> c_climb k p (operate t v w) us)
      else Some (v, t # ts))"
| "c_climb 0 p v ts = None"

definition c_value :: "ctok list \<Rightarrow> int option" where
  "c_value ts = (case c_expr 20 1 ts of Some (v, []) \<Rightarrow> Some v | _ \<Rightarrow> None)"

definition macro_value :: "macros \<Rightarrow> string \<Rightarrow> int option" where
  "macro_value tbl n = c_value (expand tbl 3 [Name n])"

section \<open>The tables\<close>

text \<open>The platforms the headers distinguish by \<open>#if\<close>.\<close>

datatype platform = ZSIM | FLEXUS | QFLEX | Linux_VM

instantiation platform :: enum
begin

definition "enum_platform = [ZSIM, FLEXUS, QFLEX, Linux_VM]"

definition "enum_all_platform P \<longleftrightarrow> P ZSIM \<and> P FLEXUS \<and> P QFLEX \<and> P Linux_VM"

definition "enum_ex_platform P \<longleftrightarrow> P ZSIM \<or> P FLEXUS \<or> P QFLEX \<or> P Linux_VM"

instance
proof
  show UNIV_platform: "UNIV = set (enum_class.enum :: platform list)"
    unfolding enum_platform_def by (auto intro: platform.exhaust)
  show "distinct (enum_class.enum :: platform list)" by (simp add: enum_platform_def)
  show "enum_class.enum_all P = Ball UNIV P" "enum_class.enum_ex P = Bex UNIV P" for P :: "platform \<Rightarrow> bool"
    unfolding UNIV_platform by (simp_all add: enum_platform_def enum_all_platform_def enum_ex_platform_def)
qed

end

subsection \<open>The header of the NIC library\<close>

definition nic_ring_macros :: macros where
  "nic_ring_macros =
    [(''MAX_NUM_WQ'', [Num 512]), (''NOTIFY_WQ_WRITE'', [Num 0xa])]"

definition nic_op_macros :: macros where
  "nic_op_macros =
    [(''RMC_READ'', [Num 1]), (''RMC_WRITE'', [Num 2]), (''RMC_RMW'', [Num 3]), (''RMC_SABRE'', [Num 4]),
     (''RMC_RECV'', [Num 5]), (''RMC_MSG_NACK'', [Num 6]), (''SEND_OP_SHIFT'', [Num 4]),
     (''PAIRED_SEND_SHIFT'', [Num 0]), (''INCOMING_SEND_SHIFT'', [Num 1]), (''INCOMING_RESP_SHIFT'', [Num 2]),
     (''RMC_SEND'', [LPar, Num 1, Shl, Name ''SEND_OP_SHIFT'', RPar]),
     (''RMC_PAIRED_SEND'', [LPar, Num 1, Shl, Name ''SEND_OP_SHIFT'', RPar,
        Bar, LPar, Num 1, Shl, Name ''PAIRED_SEND_SHIFT'', RPar]),
     (''RMC_INCOMING_SEND'', [LPar, Num 1, Shl, Name ''SEND_OP_SHIFT'', RPar,
        Bar, LPar, Num 1, Shl, Name ''INCOMING_SEND_SHIFT'', RPar]),
     (''RMC_INCOMING_RESP'', [LPar, Num 1, Shl, Name ''SEND_OP_SHIFT'', RPar,
        Bar, LPar, Num 1, Shl, Name ''INCOMING_RESP_SHIFT'', RPar]),
     (''RMC_INVAL'', [Num 42]), (''PADBYTES'', [Num 60])]"

definition nic_queue_macros :: macros where
  "nic_queue_macros =
    [(''MAX_NUM_SHARED_CQ'', [Num 10, Star, Name ''MAX_NUM_WQ'']), (''DEFAULT_CTX_VAL'', [Num 0]),
     (''SR_CTX_ID'', [Num 7])]"

definition nic_walk_macros :: macros where
  "nic_walk_macros =
    [(''PT_I'', [Num 3]), (''PT_J'', [Num 10]), (''PT_K'', [Num 4]), (''CACHE_BLOCK_BITS'', [Num 6])]"

definition page_macros :: "bool \<Rightarrow> macros" where
  "page_macros large =
     (if large then [(''EMULATOR_SW_PAGE_SIZE'', [Num 8192]), (''EMULATOR_SW_PAGE_BITS'', [Num 0xffffffffffffe000])]
      else [(''EMULATOR_SW_PAGE_SIZE'', [Num 4096]), (''EMULATOR_SW_PAGE_BITS'', [Num 0xfffffffffffff000])])"

definition nic_page_macros :: "platform \<Rightarrow> macros" where
  "nic_page_macros b = page_macros (b \<noteq> QFLEX \<and> (b = FLEXUS \<or> b = ZSIM))"

definition nic_wq_macros :: macros where
  "nic_wq_macros =
    [(''WQ_TYPE_OFFSET'', [Num 0]), (''WQ_NID_OFFSET'', [Num 8]), (''WQ_TID_OFFSET'', [Num 16]),
     (''WQ_CID_OFFSET'', [Num 24]), (''WQ_OFFSET_OFFSET'', [Num 32]), (''WQ_BUF_LENGTH_OFFSET'', [Num 48]),
     (''WQ_BUF_ADDRESS_OFFSET'', [Num 64]), (''RECV_ID'', [Num 255])]"

definition nic_msg_macros :: macros where
  "nic_msg_macros =
    [(''RMC_KILL'', [Num 10]), (''CACHE_BLOCK_SIZE'', [Num 64]), (''BBUFF_SIZE'', [Num 256]),
     (''PL_SIZE'', [Num 60])]"

definition nic_rw_macros :: "platform \<Rightarrow> macros" where
  "nic_rw_macros b = [(''RW_THR'', [Num (if b = FLEXUS \<or> b = QFLEX \<or> b = ZSIM then 100000 else 1024)])]"

definition nic_macros :: "platform \<Rightarrow> macros" where
  "nic_macros b = nic_ring_macros @ nic_op_macros @ nic_queue_macros @ nic_walk_macros @ nic_page_macros b @
     nic_wq_macros @ nic_msg_macros @ nic_rw_macros b"

subsection \<open>The older header\<close>

definition legacy_queue_macros :: macros where
  "legacy_queue_macros =
    [(''MAX_NUM_SHARED_CQ'', [Num 10, Star, Name ''MAX_NUM_WQ'']), (''DEFAULT_CTX_VAL'', [Num 0]),
     (''SR_CTX_ID'', [Num 7])]"

definition legacy_breakpoints :: macros where
  "legacy_breakpoints =
    [(''WQUEUE'', [Num 1]), (''CQUEUE'', [Num 2]), (''BUFFER'', [Num 3]), (''PTENTRY'', [Num 4]),
     (''NEWWQENTRY'', [Num 5]), (''WQENTRYDONE'', [Num 6]), (''ALL_SET'', [Num 7]), (''TID_COUNTERS'', [Num 8]),
     (''CONTEXT'', [Num 9]), (''CONTEXTMAP'', [Num 10]), (''WQHEAD'', [Num 11]), (''WQTAIL'', [Num 12]),
     (''CQHEAD'', [Num 13]), (''CQTAIL'', [Num 14]), (''SIM_BREAK'', [Num 15]), (''NETPIPE_START'', [Num 16]),
     (''NETPIPE_END'', [Num 17]), (''RMC_DEBUG_BP'', [Num 18]), (''BENCHMARK_END'', [Num 19]),
     (''BUFFER_SIZE'', [Num 20]), (''CONTEXT_SIZE'', [Num 21]), (''NEWWQENTRY_START'', [Num 22]),
     (''NEW_SABRE'', [Num 23]), (''SABRE_SUCCESS'', [Num 24]), (''SABRE_ABORT'', [Num 25]),
     (''OBJECT_WRITE'', [Num 26]), (''LOCK_SPINNING'', [Num 27]), (''CS_START'', [Num 28]),
     (''SEND_BUF'', [Num 31]), (''RECV_BUF'', [Num 32]), (''MSG_BUF_ENTRY_SIZE'', [Num 33]),
     (''NUM_NODES'', [Num 34]), (''MSG_BUF_ENTRY_COUNT'', [Num 35]), (''SENDREQRECEIVED'', [Num 36]),
     (''SENDENQUEUED'', [Num 37]), (''SHARED_CQUEUE'', [Num 38]), (''MCS_BREAKPOINT'', [Num 39]),
     (''MICA_BREAKPOINT'', [Num 40]), (''MEASUREMENT'', [Num 99]), (''QFLEX_READY_FOR_TIMING'', [Num 999]),
     (''CONTROL_FLOW'', [Num 101])]"

definition legacy_walk_macros :: macros where
  "legacy_walk_macros =
    [(''PT_I'', [Num 3]), (''PT_J'', [Num 10]), (''PT_K'', [Num 4]), (''CACHE_BLOCK_BITS'', [Num 6])]"

definition legacy_page_macros :: "platform \<Rightarrow> macros" where
  "legacy_page_macros b = page_macros (b \<noteq> QFLEX \<and> b = FLEXUS)"

definition legacy_wq_macros :: macros where
  "legacy_wq_macros =
    [(''WQ_TYPE_OFFSET'', [Num 0]), (''WQ_NID_OFFSET'', [Num 8]), (''WQ_TID_OFFSET'', [Num 16]),
     (''WQ_CID_OFFSET'', [Num 24]), (''WQ_OFFSET_OFFSET'', [Num 32]), (''WQ_BUF_LENGTH_OFFSET'', [Num 48]),
     (''WQ_BUF_ADDRESS_OFFSET'', [Num 64])]"

definition legacy_op_macros :: macros where
  "legacy_op_macros =
    [(''RMC_READ'', [Num 1]), (''RMC_WRITE'', [Num 2]), (''RMC_RMW'', [Num 3]), (''RMC_SABRE'', [Num 4]),
     (''RMC_RECV'', [Num 5]), (''RMC_MSG_NACK'', [Num 6]), (''SEND_OP_SHIFT'', [Num 4]),
     (''PAIRED_SEND_SHIFT'', [Num 0]), (''INCOMING_SEND_SHIFT'', [Num 1]), (''INCOMING_RESP_SHIFT'', [Num 2]),
     (''RMC_SEND'', [LPar, Num 1, Shl, Name ''SEND_OP_SHIFT'', RPar]),
     (''RMC_PAIRED_SEND'', [LPar, Num 1, Shl, Name ''SEND_OP_SHIFT'', RPar,
        Bar, LPar, Num 1, Shl, Name ''PAIRED_SEND_SHIFT'', RPar]),
     (''RMC_INCOMING_SEND'', [LPar, Num 1, Shl, Name ''SEND_OP_SHIFT'', RPar,
        Bar, LPar, Num 1, Shl, Name ''INCOMING_SEND_SHIFT'', RPar]),
     (''RMC_INCOMING_RESP'', [LPar, Num 1, Shl, Name ''SEND_OP_SHIFT'', RPar,
        Bar, LPar, Num 1, Shl, Name ''INCOMING_RESP_SHIFT'', RPar]),
     (''RMC_INVAL'', [Num 42]), (''PADBYTES'', [Num 60]), (''RECV_ID'', [Num 255])]"

definition legacy_kal_macros :: macros where
  "legacy_kal_macros =
    [(''KAL_REG_WQ'', [Num 1]), (''KAL_UNREG_WQ'', [Num 6]), (''KAL_REG_CQ'', [Num 5]),
     (''KAL_REG_CTX'', [Num 3]), (''KAL_PIN_BUFF'', [Num 4]), (''KAL_PIN'', [Num 14]), (''RMC_KILL'', [Num 10]),
     (''CACHE_BLOCK_SIZE'', [Num 64]), (''BBUFF_SIZE'', [Num 256]), (''PL_SIZE'', [Num 60])]"

definition legacy_rw_macros :: "platform \<Rightarrow> macros" where
  "legacy_rw_macros b = [(''RW_THR'', [Num (if b = FLEXUS \<or> b = QFLEX \<or> b = ZSIM then 100000 else 1024)])]"

definition legacy_macros :: "platform \<Rightarrow> macros" where
  "legacy_macros b = legacy_queue_macros @ legacy_breakpoints @ legacy_walk_macros @ legacy_page_macros b @
     legacy_wq_macros @ legacy_op_macros @ legacy_kal_macros @ legacy_rw_macros b"

subsection \<open>The header of the main program\<close>

text \<open>The build files define the size of the values.\<close>

definition main_macros :: macros where
  "main_macros =
    [(''HERD_GET_REQ_SIZE'', [LPar, Num 16, Plus, Num 2, Plus, Num 2, RPar]),
     (''HERD_PUT_REQ_SIZE'', [LPar, Name ''MICA_VALUE_SIZE_CMAKE'', RPar]), (''MAX_SERVER_PORTS'', [Num 4]),
     (''NUM_WORKERS'', [Num 12]), (''NUM_CLIENTS'', [Num 70]), (''WINDOW_SIZE'', [Num 32]),
     (''NUM_UD_QPS'', [Num 1]), (''USE_POSTLIST'', [Num 1]), (''UNSIG_BATCH'', [Num 64]),
     (''UNSIG_BATCH_'', [LPar, Name ''UNSIG_BATCH'', Minus, Num 1, RPar]), (''MASTER_SHM_KEY'', [Num 24]),
     (''RR_SIZE'', [LPar, Num 16, Star, Num 1024, Star, Num 1024, RPar])]"

text \<open>\<open>OFFSET(wn, cn, ws)\<close>, whose parameters are replaced by the tokens of the arguments.\<close>

definition macro_OFFSET :: "ctok list \<Rightarrow> ctok list \<Rightarrow> ctok list \<Rightarrow> ctok list" where
  "macro_OFFSET wn cn ws =
     [LPar, LPar] @ wn @ [Star, Name ''NUM_CLIENTS'', Star, Name ''WINDOW_SIZE'', RPar, Plus, LPar] @ cn @
     [Star, Name ''WINDOW_SIZE'', RPar, Plus] @ ws @ [RPar]"

section \<open>What the macros mean\<close>

text \<open>The macros of both headers that do not have the same value.\<close>

definition disagreements :: "platform \<Rightarrow> string list" where
  "disagreements b = filter (\<lambda>n. n \<in> set (map fst (nic_macros b)) \<and>
     macro_value (legacy_macros b) n \<noteq> macro_value (nic_macros b) n) (map fst (legacy_macros b))"

text \<open>A comparison with \<open>RMC_INCOMING_SEND\<close>, without and with parentheses around the macro.\<close>

lemma bare_test:
  "c_value (expand (nic_macros b) 3 [Num v, Neq, Name ''RMC_INCOMING_SEND'']) = Some ((if v \<noteq> 16 then 1 else 0) OR 2)"
proof -
  have "expand (nic_macros b) 3 [Num v, Neq, Name ''RMC_INCOMING_SEND''] =
      [Num v, Neq, LPar, Num 1, Shl, Num 4, RPar, Bar, LPar, Num 1, Shl, Num 1, RPar]"
    by (simp add: expand_def numeral_eq_Suc nic_macros_def nic_op_macros_def nic_ring_macros_def)
  then show ?thesis by (simp add: c_value_def numeral_eq_Suc)
qed

lemma guarded_test:
  "c_value (expand (nic_macros b) 3 [Num v, Neq, LPar, Name ''RMC_INCOMING_SEND'', RPar]) = Some (if v \<noteq> 18 then 1 else 0)"
proof -
  have "expand (nic_macros b) 3 [Num v, Neq, LPar, Name ''RMC_INCOMING_SEND'', RPar] =
      [Num v, Neq, LPar, LPar, Num 1, Shl, Num 4, RPar, Bar, LPar, Num 1, Shl, Num 1, RPar, RPar]"
    by (simp add: expand_def numeral_eq_Suc nic_macros_def nic_op_macros_def nic_ring_macros_def)
  then show ?thesis by (simp add: c_value_def numeral_eq_Suc)
qed

text \<open>The request slots: \<open>OFFSET\<close> numbers them row by row.\<close>

lemma row_split:
  fixes x y k :: nat
  assumes "y < k"
  shows "(x * k + y) div k = x \<and> (x * k + y) mod k = y"
  using assms by simp

lemma OFFSET_value:
  "c_value (expand main_macros 3 (macro_OFFSET [Num w] [Num c] [Num s])) = Some (w * 70 * 32 + c * 32 + s)"
  by (simp add: expand_def numeral_eq_Suc main_macros_def macro_OFFSET_def c_value_def)

text \<open>The comparison of the headers, platform by platform.\<close>

lemma macro_names:
  "map fst (nic_macros b) = map fst (nic_macros ZSIM)" "map fst (legacy_macros b) = map fst (legacy_macros ZSIM)"
  by (simp_all add: nic_macros_def nic_page_macros_def page_macros_def nic_rw_macros_def
      legacy_macros_def legacy_page_macros_def legacy_rw_macros_def)

lemma macros_once_ZSIM: "distinct (map fst (nic_macros ZSIM))" "distinct (map fst (legacy_macros ZSIM))"
  by code_simp+

lemma macros_once: "distinct (map fst (nic_macros b)) \<and> distinct (map fst (legacy_macros b))"
  using macros_once_ZSIM by (simp add: macro_names [of b])

lemma legacy_cq_macro: "macro_value (legacy_macros b) ''MAX_NUM_SHARED_CQ'' = None"
proof -
  have "\<forall>b. macro_value (legacy_macros b) ''MAX_NUM_SHARED_CQ'' = None" by code_simp
  then show ?thesis ..
qed

lemma disagreements_ZSIM:
  "disagreements ZSIM = [''MAX_NUM_SHARED_CQ'', ''EMULATOR_SW_PAGE_SIZE'', ''EMULATOR_SW_PAGE_BITS'']"
  by code_simp

lemma disagreements_FLEXUS: "disagreements FLEXUS = [''MAX_NUM_SHARED_CQ'']"
  by code_simp

lemma disagreements_QFLEX: "disagreements QFLEX = [''MAX_NUM_SHARED_CQ'']"
  by code_simp

lemma disagreements_Linux_VM: "disagreements Linux_VM = [''MAX_NUM_SHARED_CQ'']"
  by code_simp

text \<open>The values the other theories write as numbers.\<close>

lemma model_constants:
  "map (macro_value (nic_macros ZSIM))
     [''MAX_NUM_WQ'', ''NOTIFY_WQ_WRITE'', ''RMC_SABRE'', ''RMC_RECV'', ''RMC_SEND'', ''RMC_INCOMING_SEND'',
      ''RMC_INCOMING_RESP'', ''RMC_INVAL'', ''SR_CTX_ID'', ''CACHE_BLOCK_BITS'', ''CACHE_BLOCK_SIZE'', ''EMULATOR_SW_PAGE_SIZE''] =
   map Some
     [int MAX_NUM_WQ, uint NOTIFY_WQ_WRITE, uint RMC_SABRE, uint RMC_RECV, uint RMC_SEND, uint RMC_INCOMING_SEND,
      uint RMC_INCOMING_RESP, uint RMC_INVAL, uint SR_CTX_ID, int CACHE_BLOCK_BITS, uint CACHE_BLOCK_SIZE, uint EMULATOR_SW_PAGE_SIZE]"
  by code_simp

lemma op_codes:
  "map (macro_value (nic_macros b))
     [''RMC_READ'', ''RMC_WRITE'', ''RMC_RMW'', ''RMC_SABRE'', ''RMC_RECV'', ''RMC_MSG_NACK'', ''RMC_SEND'', ''RMC_PAIRED_SEND'',
      ''RMC_INCOMING_SEND'', ''RMC_INCOMING_RESP'', ''RMC_INVAL''] = map Some [1, 2, 3, 4, 5, 6, 16, 17, 18, 20, 42]"
  by (cases b; hypsubst; code_simp)

lemma page_size_macro: "macro_value (nic_macros b) ''EMULATOR_SW_PAGE_SIZE'' = Some (if b = ZSIM \<or> b = FLEXUS then 8192 else 4096)"
  by (cases b; hypsubst; code_simp)

lemma page_bits_macro:
  "macro_value (nic_macros b) ''EMULATOR_SW_PAGE_BITS'' =
     Some (18446744073709551616 - (if b = ZSIM \<or> b = FLEXUS then 8192 else 4096))"
  by (cases b; hypsubst; code_simp)

section \<open>Properties\<close>


text \<open>
  The numbers of the model are the values of the macros in the ZSIM build; the operation codes are
  pairwise distinct and below \<open>RMC_INVAL\<close>, as the comment on them asks; and the mask of a page clears
  exactly the offset in the page, on every platform.
\<close>

lemma constants_are_macros:
  "map (macro_value (nic_macros ZSIM))
     [''MAX_NUM_WQ'', ''NOTIFY_WQ_WRITE'', ''RMC_SABRE'', ''RMC_RECV'', ''RMC_SEND'', ''RMC_INCOMING_SEND'',
      ''RMC_INCOMING_RESP'', ''RMC_INVAL'', ''SR_CTX_ID'', ''CACHE_BLOCK_BITS'', ''CACHE_BLOCK_SIZE'', ''EMULATOR_SW_PAGE_SIZE''] =
   map Some
     [int MAX_NUM_WQ, uint NOTIFY_WQ_WRITE, uint RMC_SABRE, uint RMC_RECV, uint RMC_SEND, uint RMC_INCOMING_SEND,
      uint RMC_INCOMING_RESP, uint RMC_INVAL, uint SR_CTX_ID, int CACHE_BLOCK_BITS, uint CACHE_BLOCK_SIZE, uint EMULATOR_SW_PAGE_SIZE] \<and>
   map (macro_value (nic_macros b))
     [''RMC_READ'', ''RMC_WRITE'', ''RMC_RMW'', ''RMC_SABRE'', ''RMC_RECV'', ''RMC_MSG_NACK'', ''RMC_SEND'', ''RMC_PAIRED_SEND'',
      ''RMC_INCOMING_SEND'', ''RMC_INCOMING_RESP'', ''RMC_INVAL''] = map Some [1, 2, 3, 4, 5, 6, 16, 17, 18, 20, 42] \<and>
   (\<exists>sz. macro_value (nic_macros b) ''EMULATOR_SW_PAGE_SIZE'' = Some sz \<and>
      macro_value (nic_macros b) ''EMULATOR_SW_PAGE_BITS'' = Some (2 ^ 64 - sz))"
  by (simp add: model_constants op_codes page_size_macro page_bits_macro del: list.map)

text \<open>
  The test of the receive loop, \<open>retd_from_rmc.op != (RMC_INCOMING_SEND)\<close>, means what the model
  says because of its parentheses: the macro itself has none around its two terms, so without them the
  comparison is never zero, and the loop would not stop at a message.
\<close>

lemma incoming_send_test:
  "c_value (expand (nic_macros b) 3 [Num (uint op1), Neq, LPar, Name ''RMC_INCOMING_SEND'', RPar]) =
     Some (if op1 \<noteq> RMC_INCOMING_SEND then 1 else 0) \<and>
   c_value (expand (nic_macros b) 3 [Num (uint op1), Neq, Name ''RMC_INCOMING_SEND'']) \<notin> {None, Some 0}"
proof -
  have "RMC_INCOMING_SEND = 18" by (simp add: RMC_INCOMING_SEND_def SEND_OP_SHIFT_def INCOMING_SEND_SHIFT_def)
  moreover have "uint op1 = 18 \<longleftrightarrow> op1 = 18" by (simp add: word_uint_eq_iff)
  ultimately show ?thesis unfolding bare_test guarded_test by simp
qed

text \<open>
  \<open>OFFSET\<close> gives every slot of every client at every worker a number of its own below the number of
  all slots.
\<close>

lemma OFFSET_slots:
  assumes "w < 12" and "c < 70" and "s < 32"
  shows "\<exists>k. c_value (expand main_macros 3 (macro_OFFSET [Num (int w)] [Num (int c)] [Num (int s)])) = Some (int k) \<and>
    k < 12 * 70 * 32 \<and> k div 32 div 70 = w \<and> k div 32 mod 70 = c \<and> k mod 32 = s"
proof -
  let ?k = "(w * 70 + c) * 32 + s"
  have "w * 70 + c < 12 * 70" using row_index_less [OF assms(1,2)] by simp
  then have "?k < 12 * 70 * 32" using row_index_less [OF _ assms(3)] by blast
  moreover have "?k div 32 = w * 70 + c" "?k mod 32 = s" using row_split [of s 32 "w * 70 + c"] assms(3) by blast+
  moreover have "(w * 70 + c) div 70 = w" "(w * 70 + c) mod 70 = c" using row_split [of c 70 w] assms(2) by blast+
  moreover have "int w * 70 * 32 + int c * 32 + int s = int ?k" by simp
  ultimately show ?thesis unfolding OFFSET_value by metis
qed

end
