(* ===== verification/C_Layout.thy ===== *)
theory C_Layout
  imports Header_Macros Nic_Kal
begin

text \<open>
  The layout of the structures in memory. The rings are shared with the simulated NIC, which reads
  their entries by offset, and \<open>kal_reg_send_recv_bufs\<close> asserts the size of a structure: this theory
  computes sizes, alignments and offsets of the structures of \<open>libzsim/zsim_nic_defines.hpp\<close>,
  \<open>rpc_shm/rpc.h\<close> and \<open>simpNF/main.h\<close>, and of the one structure of \<open>libzsim/RMCdefines.h\<close>, by the rules of the x86-64 ABI, in which a scalar is aligned to its
  size and a structure to its most aligned member.
\<close>

section \<open>Types and their layout\<close>

datatype ctype = Scalar nat | Array nat ctype | Struct "(string \<times> ctype) list"

definition round_up :: "nat \<Rightarrow> nat \<Rightarrow> nat" where
  "round_up a n = (n + (a - 1)) div a * a"

fun c_align :: "ctype \<Rightarrow> nat" where
  "c_align (Scalar n) = n"
| "c_align (Array k t) = c_align t"
| "c_align (Struct fs) = foldr max (map (\<lambda>f. c_align (snd f)) fs) 1"

text \<open>Where the members of a structure lie, given the alignment and the size of each.\<close>

fun place :: "nat \<Rightarrow> (nat \<times> nat) list \<Rightarrow> nat list \<times> nat" where
  "place n [] = ([], n)"
| "place n ((a, s) # fs) = (case place (round_up a n + s) fs of (ps, e) \<Rightarrow> (round_up a n # ps, e))"

fun c_size :: "ctype \<Rightarrow> nat" where
  "c_size (Scalar n) = n"
| "c_size (Array k t) = k * c_size t"
| "c_size (Struct fs) =
     round_up (c_align (Struct fs)) (snd (place 0 (map (\<lambda>f. (c_align (snd f), c_size (snd f))) fs)))"

definition member_places :: "(string \<times> ctype) list \<Rightarrow> nat list" where
  "member_places fs = fst (place 0 (map (\<lambda>f. (c_align (snd f), c_size (snd f))) fs))"

definition c_offsets :: "ctype \<Rightarrow> (string \<times> nat) list" where
  "c_offsets t = (case t of Struct fs \<Rightarrow> zip (map fst fs) (member_places fs) | _ \<Rightarrow> [])"

definition offset_of :: "ctype \<Rightarrow> string \<Rightarrow> nat option" where
  "offset_of t f = map_of (c_offsets t) f"

text \<open>The types the ABI has: scalars of one to eight bytes.\<close>

fun c_type :: "ctype \<Rightarrow> bool" where
  "c_type (Scalar n) \<longleftrightarrow> n = 1 \<or> n = 2 \<or> n = 4 \<or> n = 8"
| "c_type (Array k t) \<longleftrightarrow> c_type t"
| "c_type (Struct fs) \<longleftrightarrow> list_all (\<lambda>f. c_type (snd f)) fs"

text \<open>The scalars of an object at address \<open>b\<close>: their addresses and sizes.\<close>

function c_scalars :: "nat \<Rightarrow> ctype \<Rightarrow> (nat \<times> nat) list" where
  "c_scalars b (Scalar n) = [(b, n)]"
| "c_scalars b (Array k t) = concat (map (\<lambda>i. c_scalars (b + i * c_size t) t) [0..<k])"
| "c_scalars b (Struct fs) =
     concat (map (\<lambda>i. c_scalars (b + member_places fs ! i) (snd (fs ! i))) [0..<length fs])"
  by pat_completeness auto

termination c_scalars
proof (relation "measure (\<lambda>(b, t). size t)")
  show "((b + member_places fs ! i, snd (fs ! i)), (b, Struct fs)) \<in> measure (\<lambda>(b, t). size t)"
    if "i \<in> set [0..<length fs]" for b fs i
  proof -
    obtain f t where f: "fs ! i = (f, t)" by fastforce
    then have "(f, t) \<in> set fs" using that by (metis atLeastLessThan_iff nth_mem set_upt)
    then have "size t < size (Struct fs)" by (induction fs) auto
    then show ?thesis by (simp add: f)
  qed
qed simp_all

section \<open>The scalar types\<close>

abbreviation c_bool :: ctype where "c_bool \<equiv> Scalar 1"
abbreviation c_char :: ctype where "c_char \<equiv> Scalar 1"
abbreviation c_uint8 :: ctype where "c_uint8 \<equiv> Scalar 1"
abbreviation c_uint16 :: ctype where "c_uint16 \<equiv> Scalar 2"
abbreviation c_int4 :: ctype where "c_int4 \<equiv> Scalar 4"
abbreviation c_uint32 :: ctype where "c_uint32 \<equiv> Scalar 4"
abbreviation c_uint64 :: ctype where "c_uint64 \<equiv> Scalar 8"
abbreviation c_ptr :: ctype where "c_ptr \<equiv> Scalar 8"

section \<open>The structures\<close>

definition c_wq_entry :: ctype where
  "c_wq_entry = Struct [(''op'', c_uint32), (''SR'', c_bool), (''valid'', c_bool), (''buf_addr'', c_uint64),
     (''cid'', c_uint32), (''nid'', c_uint64), (''offset'', c_uint64), (''length'', c_uint64)]"

definition c_cq_entry :: ctype where
  "c_cq_entry = Struct [(''SR'', c_bool), (''valid'', c_bool), (''success'', c_uint32), (''tid'', c_uint32),
     (''recv_buf_addr'', c_uint64)]"

definition c_rmc_wq :: ctype where
  "c_rmc_wq = Struct [(''q'', Array MAX_NUM_WQ c_wq_entry), (''head'', c_uint32), (''SR'', c_bool)]"

definition c_rmc_cq :: ctype where
  "c_rmc_cq = Struct [(''q'', Array MAX_NUM_WQ c_cq_entry), (''tail'', c_uint32), (''SR'', c_bool)]"

definition c_successStruct :: ctype where
  "c_successStruct = Struct [(''success'', c_uint32), (''op'', c_uint32), (''tid'', c_uint32),
     (''recv_buf_addr'', c_uint64)]"

definition c_rpcArgument :: ctype where
  "c_rpcArgument = Struct [(''pointerToAppData'', c_ptr), (''is_nack'', c_bool)]"

definition c_send_buf_entry :: ctype where
  "c_send_buf_entry = Struct [(''valid'', c_uint8), (''padding'', Array 15 c_uint8), (''data_size'', c_uint64),
     (''data_address'', c_ptr)]"

definition c_send_buf_management :: ctype where
  "c_send_buf_management = Struct [(''head'', c_uint16), (''tail'', c_uint16), (''lock'', c_uint8),
     (''padding'', Array 59 c_uint8)]"

definition c_context :: ctype where
  "c_context = Struct [(''ctx_id'', c_uint16), (''ctx_base_addr'', c_ptr), (''send_buf_addr'', c_ptr),
     (''recv_buf_addr'', c_ptr), (''num_nodes'', c_uint16), (''msg_entry_size'', c_uint64),
     (''msgs_per_dest'', c_uint64), (''buf_management'', c_ptr)]"

definition c_soNUMAMessagingDomain :: ctype where
  "c_soNUMAMessagingDomain = Struct [(''recv_slots'', c_ptr), (''ctx_struct'', c_context), (''send_buf'', c_ptr),
     (''send_ctrl'', c_ptr), (''per_node_chunk'', c_uint64)]"

definition c_RPCWithHeader :: ctype where
  "c_RPCWithHeader = Struct [(''rpc_len'', c_uint32), (''rpc_type'', c_char), (''rpc_id'', c_uint16),
     (''senders_qp'', c_uint16), (''senders_nid'', c_uint16), (''payload'', c_ptr), (''payload_len'', c_uint32)]"

definition c_qp_info :: ctype where
  "c_qp_info = Struct [(''node_cnt'', c_int4), (''this_nid'', c_int4)]"

definition c_thread_params :: ctype where
  "c_thread_params = Struct [(''id'', c_uint32), (''start_core'', c_uint32), (''local_tid'', c_uint32),
     (''base_port_index'', c_int4), (''num_server_ports'', c_int4), (''num_client_ports'', c_int4),
     (''update_percentage'', c_int4), (''postlist'', c_int4), (''node_cnt'', c_uint32), (''sonuma_nid'', c_uint32),
     (''qps_per_node'', c_uint32), (''num_serv_threads'', c_uint32), (''num_client_threads'', c_uint32),
     (''packet_size'', c_uint32), (''batch_size'', c_uint32), (''num_keys'', c_uint64),
     (''num_hash_buckets'', c_uint64), (''log_capacity_bytes'', c_uint64), (''run_debug_mode'', c_int4),
     (''ctx'', c_ptr), (''barrier'', c_ptr), (''init_lock'', c_ptr)]"

section \<open>Rounding up\<close>

lemma round_up_ge: "0 < a \<Longrightarrow> n \<le> round_up a n"
  using div_mult_mod_eq [of "n + (a - 1)" a] mod_less_divisor [of a "n + (a - 1)"]
  unfolding round_up_def by linarith

lemma round_up_dvd [simp]: "a dvd round_up a n"
  by (simp add: round_up_def)

lemma round_up_least:
  assumes "0 < a" and "n \<le> m" and "a dvd m"
  shows "round_up a n \<le> m"
proof -
  obtain k where m: "m = a * k" using assms(3) ..
  have "n + (a - 1) < Suc k * a" using assms(1,2) by (simp add: m mult.commute)
  then have "(n + (a - 1)) div a \<le> k" by (simp only: less_mult_imp_div_less flip: less_Suc_eq_le)
  then show ?thesis unfolding round_up_def m by (simp only: mult.commute [of _ a] mult_le_mono2)
qed

section \<open>The members of a structure\<close>

lemma place_Cons [simp]:
  "place n ((a, s) # fs) =
     (round_up a n # fst (place (round_up a n + s) fs), snd (place (round_up a n + s) fs))"
  by (simp split: prod.splits)

declare place.simps(2) [simp del]

lemma length_place [simp]: "length (fst (place n fs)) = length fs"
  by (induction n fs rule: place.induct) simp_all

text \<open>A place is right when it is aligned, after everything before it and as low as that allows.\<close>

lemma place_bounds:
  assumes "\<forall>f \<in> set fs. 0 < fst f"
  shows "n \<le> snd (place n fs) \<and> (\<forall>i < length fs. n \<le> fst (place n fs) ! i \<and>
    fst (fs ! i) dvd fst (place n fs) ! i \<and> fst (place n fs) ! i + snd (fs ! i) \<le> snd (place n fs))"
  using assms
proof (induction n fs rule: place.induct)
  case (2 n a s fs)
  have a: "n \<le> round_up a n" using 2 by (simp add: round_up_ge)
  have IH: "round_up a n + s \<le> snd (place (round_up a n + s) fs)"
    "\<forall>i < length fs. round_up a n + s \<le> fst (place (round_up a n + s) fs) ! i \<and>
      fst (fs ! i) dvd fst (place (round_up a n + s) fs) ! i \<and>
      fst (place (round_up a n + s) fs) ! i + snd (fs ! i) \<le> snd (place (round_up a n + s) fs)"
    using 2 by simp_all
  show ?case using a IH by (auto simp: nth_Cons split: nat.splits)
qed simp

lemma place_sorted:
  assumes "\<forall>f \<in> set fs. 0 < fst f" and "i < j" and "j < length fs"
  shows "fst (place n fs) ! i + snd (fs ! i) \<le> fst (place n fs) ! j"
  using assms
proof (induction n fs arbitrary: i j rule: place.induct)
  case (2 n a s fs)
  have b: "\<forall>k < length fs. round_up a n + s \<le> fst (place (round_up a n + s) fs) ! k"
    using place_bounds [of fs "round_up a n + s"] 2(2) by simp
  show ?case
  proof (cases i)
    case 0
    then show ?thesis using b 2(3,4) by (cases j) simp_all
  next
    case (Suc k)
    then show ?thesis using 2(1) [of k "j - 1"] 2(2-) by (cases j) simp_all
  qed
qed simp

section \<open>Alignments and sizes\<close>

lemma foldr_max_in: "foldr max xs (d :: nat) \<in> insert d (set xs)"
  by (induction xs) (auto simp: max_def)

lemma foldr_max_ge: "x \<in> set xs \<Longrightarrow> x \<le> foldr max xs (d :: nat)"
  by (induction xs) auto

lemma c_align_cases: "c_type t \<Longrightarrow> c_align t \<in> {1, 2, 4, 8}"
proof (induction t)
  case (Struct fs)
  have "c_align (snd f) \<in> {1, 2, 4, 8}" if "f \<in> set fs" for f
    using Struct.IH [OF that snds.intros] Struct.prems that by (simp add: list_all_iff)
  then have "insert 1 (set (map (\<lambda>f. c_align (snd f)) fs)) \<subseteq> {1, 2, 4, 8}" by (simp add: image_subset_iff)
  then show ?case unfolding c_align.simps using foldr_max_in by (rule subsetD)
qed auto

lemma c_align_pos: "c_type t \<Longrightarrow> 0 < c_align t"
  using c_align_cases by force

lemma powers_dvd: "a \<in> {1, 2, 4, 8 :: nat} \<Longrightarrow> b \<in> {1, 2, 4, 8} \<Longrightarrow> a \<le> b \<Longrightarrow> a dvd b"
  by auto

lemma member_align:
  assumes "c_type (Struct fs)" and "f \<in> set fs"
  shows "c_align (snd f) dvd c_align (Struct fs)"
proof (rule powers_dvd)
  show "c_align (snd f) \<in> {1, 2, 4, 8}" using assms by (intro c_align_cases) (simp add: list_all_iff)
  show "c_align (Struct fs) \<in> {1, 2, 4, 8}" using assms(1) by (rule c_align_cases)
  show "c_align (snd f) \<le> c_align (Struct fs)" using assms(2) by (auto intro!: foldr_max_ge)
qed

lemma c_align_dvd_size: "c_type t \<Longrightarrow> c_align t dvd c_size t"
  by (induction t) auto

text \<open>The members of a structure are aligned, disjoint, in order and inside it.\<close>

lemma members_sound:
  assumes "c_type (Struct fs)" and "i < length fs"
  shows "c_align (snd (fs ! i)) dvd member_places fs ! i"
    and "member_places fs ! i + c_size (snd (fs ! i)) \<le> c_size (Struct fs)"
    and "j < i \<Longrightarrow> member_places fs ! j + c_size (snd (fs ! j)) \<le> member_places fs ! i"
proof -
  let ?ms = "map (\<lambda>f. (c_align (snd f), c_size (snd f))) fs"
  have pos: "\<forall>f \<in> set ?ms. 0 < fst f" using assms(1) by (auto simp: list_all_iff c_align_pos)
  have i: "i < length ?ms" using assms(2) by simp
  note b = place_bounds [OF pos, of 0]
  show "c_align (snd (fs ! i)) dvd member_places fs ! i"
    using b i unfolding member_places_def by simp
  have "member_places fs ! i + c_size (snd (fs ! i)) \<le> snd (place 0 ?ms)"
    using b i unfolding member_places_def by simp
  also have "\<dots> \<le> c_size (Struct fs)"
    using c_align_pos [OF assms(1)] round_up_ge by (simp del: c_align.simps)
  finally show "member_places fs ! i + c_size (snd (fs ! i)) \<le> c_size (Struct fs)" .
  show "j < i \<Longrightarrow> member_places fs ! j + c_size (snd (fs ! j)) \<le> member_places fs ! i"
    using place_sorted [OF pos _ i, of j 0] i unfolding member_places_def by simp
qed

section \<open>Scalars\<close>

text \<open>A piece \<open>(o, n)\<close> of memory lies in \<open>[b, e)\<close> and is aligned; a list of pieces does so without overlap.\<close>

definition pieces_in :: "nat \<Rightarrow> nat \<Rightarrow> (nat \<times> nat) list \<Rightarrow> bool" where
  "pieces_in b e ps \<longleftrightarrow> (\<forall>(q, n) \<in> set ps. n dvd q \<and> b \<le> q \<and> q + n \<le> e) \<and>
     sorted_wrt (\<lambda>(q, n) (r, _). q + n \<le> r) ps"

lemma pieces_in_append:
  "pieces_in b e ps \<Longrightarrow> pieces_in c d qs \<Longrightarrow> b \<le> c \<Longrightarrow> e \<le> c \<Longrightarrow> e \<le> d \<Longrightarrow> pieces_in b d (ps @ qs)"
  by (fastforce simp: pieces_in_def sorted_wrt_append)

lemma pieces_in_mono: "pieces_in c d ps \<Longrightarrow> b \<le> c \<Longrightarrow> d \<le> e \<Longrightarrow> pieces_in b e ps"
  by (fastforce simp: pieces_in_def)

text \<open>Pieces in consecutive intervals.\<close>

lemma pieces_in_concat:
  assumes "\<And>i. i < k \<Longrightarrow> pieces_in (l i) (r i) (f i)" and "\<And>i. i < k \<Longrightarrow> b \<le> l i \<and> l i \<le> r i \<and> r i \<le> e"
    and "\<And>i j. i < j \<Longrightarrow> j < k \<Longrightarrow> r i \<le> l j"
  shows "pieces_in b e (concat (map f [0..<k]))"
  using assms
proof (induction k arbitrary: e)
  case 0
  then show ?case by (simp add: pieces_in_def)
next
  case (Suc k)
  have "pieces_in b (l k) (concat (map f [0..<k]))"
  proof (rule Suc.IH)
    show "b \<le> l i \<and> l i \<le> r i \<and> r i \<le> l k" if "i < k" for i
      using Suc.prems(2) [of i] Suc.prems(3) [of i k] that by simp
  qed (use Suc.prems in simp_all)
  moreover have "pieces_in (l k) (r k) (f k)" using Suc.prems(1) by simp
  ultimately have "pieces_in b (r k) (concat (map f [0..<k]) @ f k)"
    using Suc.prems(2) [of k] by (intro pieces_in_append [where c = "l k"]) auto
  then show ?case using Suc.prems(2) [of k] by (simp add: pieces_in_mono [of b "r k"])
qed

lemma pieces_in_array:
  assumes "\<And>i. i < k \<Longrightarrow> pieces_in (b + i * s) (b + i * s + s) (f i)"
  shows "pieces_in b (b + k * s) (concat (map f [0..<k]))"
proof (rule pieces_in_concat [OF assms])
  have less: "i * s + s \<le> j * s" if "i < j" for i j
    using mult_le_mono1 [of "Suc i" j s] that by simp
  show "b \<le> b + i * s \<and> b + i * s \<le> b + i * s + s \<and> b + i * s + s \<le> b + k * s" if "i < k" for i
    using less [OF that] by simp
  show "b + i * s + s \<le> b + j * s" if "i < j" for i j
    using less [OF that] by simp
qed

lemma pieces_in_struct:
  assumes "c_type (Struct fs)"
    and "\<And>i. i < length fs \<Longrightarrow> pieces_in (b + member_places fs ! i) (b + member_places fs ! i + c_size (snd (fs ! i))) (f i)"
  shows "pieces_in b (b + c_size (Struct fs)) (concat (map f [0..<length fs]))"
proof (rule pieces_in_concat [OF assms(2)])
  show "b \<le> b + member_places fs ! i \<and>
      b + member_places fs ! i \<le> b + member_places fs ! i + c_size (snd (fs ! i)) \<and>
      b + member_places fs ! i + c_size (snd (fs ! i)) \<le> b + c_size (Struct fs)" if "i < length fs" for i
    using members_sound(2) [OF assms(1) that] by (simp del: c_size.simps)
  show "b + member_places fs ! i + c_size (snd (fs ! i)) \<le> b + member_places fs ! j" if "i < j" "j < length fs" for i j
    using members_sound(3) [OF assms(1) that(2,1)] by simp
qed

text \<open>The scalars of an aligned object are aligned and disjoint, and lie in the object.\<close>

lemma scalars_in:
  "c_type t \<Longrightarrow> c_align t dvd b \<Longrightarrow> pieces_in b (b + c_size t) (c_scalars b t)"
proof (induction b t rule: c_scalars.induct)
  case (1 b n)
  then show ?case by (simp add: pieces_in_def)
next
  case (2 b k t)
  have "c_align t dvd b + i * c_size t" for i using 2 c_align_dvd_size [of t] by simp
  with 2 show ?case by (simp add: pieces_in_array)
next
  case (3 b fs)
  have "c_align (snd (fs ! i)) dvd b + member_places fs ! i" if "i < length fs" for i
    using members_sound(1) [OF 3(2) that] dvd_trans [OF member_align [OF 3(2) nth_mem [OF that]] 3(3)] by simp
  moreover have "c_type (snd (fs ! i))" if "i < length fs" for i using 3(2) that by (simp add: list_all_length)
  ultimately show ?case using 3(1) unfolding c_scalars.simps by (intro pieces_in_struct [OF 3(2)]) simp
qed

section \<open>The structures of the program\<close>

lemmas ring_types = c_rmc_wq_def c_rmc_cq_def c_wq_entry_def c_cq_entry_def MAX_NUM_WQ_def

lemma upto_entries: "[0..<2] = [0, 1 :: nat]" "[0..<3] = [0, 1, 2 :: nat]" "[0..<4] = [0, 1, 2, 3 :: nat]"
  "[0..<5] = [0, 1, 2, 3, 4 :: nat]" "[0..<8] = [0, 1, 2, 3, 4, 5, 6, 7 :: nat]"
  by code_simp+

lemma ring_types_ok: "c_type c_rmc_wq" "c_type c_rmc_cq" "c_align c_rmc_wq = 8" "c_align c_rmc_cq = 8"
  by (simp_all add: ring_types)

lemma round_up_simps [simp]:
  "round_up (Suc 0) n = n" "round_up 2 n = n + n mod 2" "round_up (Suc (Suc 0)) n = n + n mod 2" "round_up 4 n = (n + 3) div 4 * 4" "round_up 8 n = (n + 7) div 8 * 8"
proof -
  show "round_up 2 n = n + n mod 2" unfolding round_up_def by presburger
  then show "round_up (Suc (Suc 0)) n = n + n mod 2" by (simp add: numeral_2_eq_2)
qed (simp_all add: round_up_def)

declare place_Cons [simp del] place.simps(2) [simp]

lemmas layout_defs = c_offsets_def member_places_def

lemma entry_sizes: "c_size c_wq_entry = 48" "c_size c_cq_entry = 24"
  by (simp_all add: c_wq_entry_def c_cq_entry_def)

lemma entry_aligns: "c_align c_wq_entry = 8" "c_align c_cq_entry = 8"
  by (simp_all add: c_wq_entry_def c_cq_entry_def)

lemma entry_offsets:
  "c_offsets c_wq_entry = [(''op'', 0), (''SR'', 4), (''valid'', 5), (''buf_addr'', 8), (''cid'', 16), (''nid'', 24),
     (''offset'', 32), (''length'', 40)]"
  "c_offsets c_cq_entry = [(''SR'', 0), (''valid'', 1), (''success'', 4), (''tid'', 8), (''recv_buf_addr'', 16)]"
  by (simp_all add: c_wq_entry_def c_cq_entry_def layout_defs)

lemma ring_sizes: "c_size c_rmc_wq = 24584" "c_size c_rmc_cq = 12296"
  by (simp_all add: c_rmc_wq_def c_rmc_cq_def MAX_NUM_WQ_def entry_sizes entry_aligns)

lemma ring_offsets:
  "c_offsets c_rmc_wq = [(''q'', 0), (''head'', 24576), (''SR'', 24580)]"
  "c_offsets c_rmc_cq = [(''q'', 0), (''tail'', 12288), (''SR'', 12292)]"
  by (simp_all add: c_rmc_wq_def c_rmc_cq_def MAX_NUM_WQ_def entry_sizes entry_aligns layout_defs)

lemma entry_scalars:
  "c_scalars b c_wq_entry = [(b, 4), (b + 4, 1), (b + 5, 1), (b + 8, 8), (b + 16, 4), (b + 24, 8), (b + 32, 8), (b + 40, 8)]"
  "c_scalars b c_cq_entry = [(b, 1), (b + 1, 1), (b + 4, 4), (b + 8, 4), (b + 16, 8)]"
  by (simp_all add: c_wq_entry_def c_cq_entry_def member_places_def upto_entries)

lemma ring_scalar_list:
  "c_scalars b c_rmc_wq = c_scalars b (Array 512 c_wq_entry) @ [(b + 24576, 4), (b + 24580, 1)]"
  "c_scalars b c_rmc_cq = c_scalars b (Array 512 c_cq_entry) @ [(b + 12288, 4), (b + 12292, 1)]"
  by (simp_all add: c_rmc_wq_def c_rmc_cq_def MAX_NUM_WQ_def member_places_def entry_sizes entry_aligns
      upto_entries del: c_scalars.simps(2))

lemma manager_size: "c_size c_send_buf_management = 64"
  by (simp add: c_send_buf_management_def)

lemma manager_scalars: "take 3 (c_scalars b c_send_buf_management) = [(b, 2), (b + 2, 2), (b + 4, 1)]"
  by (simp add: c_send_buf_management_def member_places_def upto_entries del: c_scalars.simps(2))

lemma context_layout:
  "c_offsets c_context = [(''ctx_id'', 0), (''ctx_base_addr'', 8), (''send_buf_addr'', 16), (''recv_buf_addr'', 24),
     (''num_nodes'', 32), (''msg_entry_size'', 40), (''msgs_per_dest'', 48), (''buf_management'', 56)]"
  "c_size c_context = 64" "c_align c_context = 8"
  by (simp_all add: c_context_def layout_defs)

lemma header_layout:
  "c_offsets c_RPCWithHeader = [(''rpc_len'', 0), (''rpc_type'', 4), (''rpc_id'', 6), (''senders_qp'', 8),
     (''senders_nid'', 10), (''payload'', 16), (''payload_len'', 24)]"
  "c_size c_RPCWithHeader = 32"
  by (simp_all add: c_RPCWithHeader_def layout_defs)

lemma c_size_successStruct: "c_size c_successStruct = 24"
  by (simp add: c_successStruct_def)

lemma c_size_rpcArgument: "c_size c_rpcArgument = 16"
  by (simp add: c_rpcArgument_def)

lemma c_size_send_buf_entry: "c_size c_send_buf_entry = 32"
  by (simp add: c_send_buf_entry_def)

lemma c_size_domain: "c_size c_soNUMAMessagingDomain = 96"
  by (simp add: c_soNUMAMessagingDomain_def context_layout)

lemma c_size_thread_params: "c_size c_thread_params = 120"
  by (simp add: c_thread_params_def)

lemma c_size_qp_info: "c_size c_qp_info = 8"
  by (simp add: c_qp_info_def)

lemmas other_sizes = c_size_qp_info c_size_successStruct c_size_rpcArgument c_size_send_buf_entry c_size_domain c_size_thread_params

text \<open>The macros of the header for the offsets of the work-queue entry, with the members they name.\<close>

definition wq_offset_names :: "(string \<times> string) list" where
  "wq_offset_names = [(''WQ_TYPE_OFFSET'', ''op''), (''WQ_NID_OFFSET'', ''nid''), (''WQ_CID_OFFSET'', ''cid''),
     (''WQ_OFFSET_OFFSET'', ''offset''), (''WQ_BUF_LENGTH_OFFSET'', ''length''), (''WQ_BUF_ADDRESS_OFFSET'', ''buf_addr'')]"

lemma wq_offset_values:
  "map (macro_value nic_wq_macros) (map fst wq_offset_names) = [Some 0, Some 8, Some 24, Some 32, Some 48, Some 64]"
  by code_simp

lemma wq_offsets_right:
  "filter (\<lambda>(m, f). macro_value nic_wq_macros m = map_option int (offset_of c_wq_entry f)) wq_offset_names =
     [(''WQ_TYPE_OFFSET'', ''op''), (''WQ_OFFSET_OFFSET'', ''offset'')]"
  using wq_offset_values by (simp add: wq_offset_names_def offset_of_def entry_offsets)

lemma blocks_apart:
  fixes a x y i j :: nat
  assumes "16 dvd a" and "i < j" and "x < 16"
  shows "(a + i * 64 + x) div 64 < (a + j * 64 + y) div 64"
proof -
  obtain k where "a = 16 * k" using assms(1) ..
  moreover have "(16 * k + x) div 64 = k div 4" using assms(3) div_mult2_eq [of "16 * k + x" 16 4] by simp
  ultimately have "(a + i * 64 + x) div 64 = i + k div 4" by (simp add: add.assoc add.commute [of "i * 64"])
  moreover have "(a + j * 64 + y) div 64 = j + (a + y) div 64" by (simp add: add.assoc add.left_commute [of a "j * 64"])
  moreover have "k div 4 \<le> (a + y) div 64"
    using \<open>a = 16 * k\<close> div_mult2_eq [of "16 * k" 16 4] div_le_mono [of "16 * k" "16 * k + y" 64] by simp
  ultimately show ?thesis using assms(2) by linarith
qed

section \<open>Properties\<close>


text \<open>
  Every access of the program and the NIC to a queue pair is aligned and touches one member only:
  in a work queue and in a completion queue at addresses a multiple of eight, the scalars of the 512
  entries and the counters after them lie in the order the code declares them, aligned to their sizes,
  without overlap and inside the object.
\<close>

theorem ring_scalars:
  assumes "8 dvd a"
  shows "pieces_in a (a + 24584) (c_scalars a c_rmc_wq) \<and> pieces_in a (a + 12296) (c_scalars a c_rmc_cq) \<and>
    c_scalars a c_rmc_wq = concat (map (\<lambda>i. let e = a + i * 48 in
      [(e, 4), (e + 4, 1), (e + 5, 1), (e + 8, 8), (e + 16, 4), (e + 24, 8), (e + 32, 8), (e + 40, 8)]) [0..<512]) @
      [(a + 24576, 4), (a + 24580, 1)] \<and>
    c_scalars a c_rmc_cq = concat (map (\<lambda>i. let e = a + i * 24 in
      [(e, 1), (e + 1, 1), (e + 4, 4), (e + 8, 4), (e + 16, 8)]) [0..<512]) @ [(a + 12288, 4), (a + 12292, 1)]"
  using scalars_in [of c_rmc_wq a] scalars_in [of c_rmc_cq a] assms
  by (simp add: ring_types_ok ring_sizes ring_scalar_list entry_scalars entry_sizes Let_def)

theorem ring_scalars_witness:
  "pieces_in 4096 28680 (c_scalars 4096 c_rmc_wq) \<and> pieces_in 4096 16392 (c_scalars 4096 c_rmc_cq)"
proof -
  have "8 dvd (4096 :: nat)" by simp
  from ring_scalars [OF this] show ?thesis by (elim conjE) (intro conjI; simp only: arith_simps)
qed

text \<open>
  C22. The managers of the send buffers do not share cache blocks, although \<open>malloc\<close> aligns their array to
  16 bytes only and not to a block: the blocks of the members in use of one manager (head, tail, lock)
  all come before those of the next.
\<close>

theorem managers_own_blocks:
  assumes "16 dvd a" and "i < j"
    and "(q, n) \<in> set (take 3 (c_scalars (a + i * c_size c_send_buf_management) c_send_buf_management))"
    and "(r, m) \<in> set (take 3 (c_scalars (a + j * c_size c_send_buf_management) c_send_buf_management))"
  shows "(q + n - 1) div unat CACHE_BLOCK_SIZE < r div unat CACHE_BLOCK_SIZE"
proof -
  from assms(3) have "\<exists>x < 16. q + n - 1 = a + i * 64 + x" by (auto simp: manager_scalars manager_size)
  moreover from assms(4) have "\<exists>y. r = a + j * 64 + y" by (auto simp: manager_scalars manager_size add.assoc)
  ultimately show ?thesis using blocks_apart [OF assms(1,2)] by (auto simp: CACHE_BLOCK_SIZE_def)
qed

theorem managers_own_blocks_witness:
  "(1044 + 1 - 1) div unat CACHE_BLOCK_SIZE < 1104 div unat CACHE_BLOCK_SIZE"
  using managers_own_blocks [of 1040 0 1 1044 1 1104 2]
  by (simp add: manager_scalars manager_size)

end
