(* ===== verification/Byte_Ring.thy ===== *)
theory Byte_Ring
  imports Zsim_Nic
begin

text \<open>
  A ring in memory: 512 entries of a fixed size, a 32-bit position and a sense bit behind them. The
  locale has the effect of a store to one part on what is read of all parts; it serves the work queue
  and the completion queue.
\<close>

section \<open>Pieces of an object by their offsets\<close>

lemma disjoint_ranges_sym: "disjoint_ranges a n b k \<Longrightarrow> disjoint_ranges b k a n"
  by (auto simp: disjoint_ranges_def)

lemma offsets_after:
  fixes p :: addr
  assumes "i + n \<le> j" and "j + k \<le> 18446744073709551616"
  shows "disjoint_ranges (p + of_nat i) n (p + of_nat j) k"
proof (cases "n = 0 \<or> k = 0")
  case False
  define d where "d = j - i"
  have d: "0 < d" "d < 18446744073709551616" "i \<le> j" "n \<le> d" "d + k \<le> 18446744073709551616"
    using False assms unfolding d_def by linarith+
  then have u: "unat (of_nat d :: addr) = d" by (intro unat_of_nat_less) simp
  have e: "(of_nat j :: addr) - of_nat i = of_nat d" unfolding d_def using d(3) by (rule of_nat_diff [symmetric])
  have "unat (- (of_nat d :: addr)) = 18446744073709551616 - d"
    using d(1) unat_sub_if_size [of 0 "of_nat d :: addr"] u by (simp add: word_size)
  moreover have "p + of_nat j - (p + of_nat i) = of_nat d" "p + of_nat i - (p + of_nat j) = - of_nat d"
    by (simp_all add: algebra_simps flip: e)
  moreover have "k \<le> 18446744073709551616 - d" using d(5) by linarith
  ultimately show ?thesis using u d(4) by (simp add: disjoint_ranges_def)
qed (auto simp: disjoint_ranges_def)

lemma offsets_apart:
  fixes p :: addr
  assumes "i + n \<le> j \<or> j + k \<le> i" and "i + n \<le> 18446744073709551616" "j + k \<le> 18446744073709551616"
  shows "disjoint_ranges (p + of_nat i) n (p + of_nat j) k"
  using assms offsets_after disjoint_ranges_sym [OF offsets_after] by blast

text \<open>Loads of one piece after a store to another.\<close>

lemma load_apart:
  assumes "i + length bs \<le> j \<or> j + k \<le> i" and "i + length bs \<le> 18446744073709551616" "j + k \<le> 18446744073709551616"
  shows "load_bytes (store_bytes m (p + of_nat i) bs) (p + of_nat j) k = load_bytes m (p + of_nat j) k"
  by (intro load_store_disjoint offsets_apart assms)

lemma byte_apart:
  assumes "i + length bs \<le> j \<or> j < i" and "i + length bs \<le> 18446744073709551616" "j < 18446744073709551616"
  shows "store_bytes m (p + of_nat i) bs (p + of_nat j) = m (p + of_nat j)"
proof -
  have "load_bytes (store_bytes m (p + of_nat i) bs) (p + of_nat j) 1 = load_bytes m (p + of_nat j) 1"
    using assms by (intro load_apart) auto
  then show ?thesis by (simp add: load_bytes_def)
qed

lemma store_byte_image:
  assumes "k < n" and "n < 18446744073709551616"
  shows "store_bytes m (a + of_nat k) [b] = store_bytes m a ((load_bytes m a n)[k := b])"
proof
  fix x
  have k: "unat (of_nat k :: addr) = k" using assms by (intro unat_of_nat_less) simp
  have "unat (x - (a + of_nat k)) < 1 \<longleftrightarrow> unat (x - a) = k"
  proof (cases "k \<le> unat (x - a)")
    case True
    then show ?thesis by (auto simp: unat_minus_offset)
  next
    case False
    have "x \<noteq> a + of_nat k" using False k by auto
    then have "unat (x - (a + of_nat k)) \<noteq> 0" by (simp add: unat_eq_zero)
    with False show ?thesis by simp
  qed
  then show "store_bytes m (a + of_nat k) [b] x = store_bytes m a ((load_bytes m a n)[k := b]) x"
    using assms(1) by (auto simp: store_bytes_def Let_def nth_list_update)
qed

section \<open>The ring\<close>

definition bool_byte :: "bool \<Rightarrow> u8" where
  "bool_byte b = (if b then 1 else 0)"

lemma bool_byte_neq [simp]: "bool_byte b \<noteq> 0 \<longleftrightarrow> b"
  by (simp add: bool_byte_def)

type_synonym 'e ring_view = "'e list \<times> u32 \<times> bool"

locale byte_ring =
  fixes sz :: nat and dec :: "u8 list \<Rightarrow> 'e"
  assumes sz: "0 < sz" "sz < 65536"
begin

definition slot :: "addr \<Rightarrow> nat \<Rightarrow> addr" where
  "slot p i = p + of_nat (i * sz)"

definition pos :: "addr \<Rightarrow> addr" where
  "pos p = p + of_nat (512 * sz)"

definition sense :: "addr \<Rightarrow> addr" where
  "sense p = p + of_nat (512 * sz + 4)"

definition entries :: "memory \<Rightarrow> addr \<Rightarrow> 'e list" where
  "entries m p = map (\<lambda>i. dec (load_bytes m (slot p i) sz)) [0..<512]"

definition view :: "memory \<Rightarrow> addr \<Rightarrow> 'e ring_view" where
  "view m p = (entries m p, load32 m (pos p), m (sense p) \<noteq> 0)"

lemma slot_below: "i < 512 \<Longrightarrow> i * sz + sz \<le> 512 * sz"
  using mult_le_mono1 [of "Suc i" 512 sz] by simp

lemma slot_order: "i < j \<Longrightarrow> i * sz + sz \<le> j * sz"
  using mult_le_mono1 [of "Suc i" j sz] by simp

lemma ring_end: "512 * sz + 8 \<le> 33554440"
  using sz by simp

lemma slot_bound: "i < 512 \<Longrightarrow> i * sz + sz \<le> 33554432"
  using slot_below [of i] ring_end by linarith

lemma load_other_slot:
  assumes "i < 512" "j < 512" "j \<noteq> i" and "length bs = sz"
  shows "load_bytes (store_bytes m (slot p i) bs) (slot p j) sz = load_bytes m (slot p j) sz"
proof -
  have "i * sz + sz \<le> j * sz \<or> j * sz + sz \<le> i * sz" using assms(3) slot_order [of i j] slot_order [of j i] by linarith
  then show ?thesis unfolding slot_def using slot_bound [OF assms(1)] slot_bound [OF assms(2)] assms(4)
    by (intro load_apart) linarith+
qed

lemma view_store_slot:
  assumes "i < 512" and "length bs = sz"
  shows "view (store_bytes m (slot p i) bs) p = (case view m p of (q, h, s) \<Rightarrow> (q[i := dec bs], h, s))"
proof -
  note b = slot_below [OF assms(1)] slot_bound [OF assms(1)] ring_end
  have "length bs \<le> 2 ^ 64" using assms(2) sz by simp
  from load_store_same [OF this] have "load_bytes (store_bytes m (slot p i) bs) (slot p i) sz = bs"
    using assms(2) by simp
  then have "entries (store_bytes m (slot p i) bs) p ! j = (entries m p)[i := dec bs] ! j" if "j < 512" for j
    using that assms(1) load_other_slot [OF assms(1) that _ assms(2), of m p]
    by (cases "j = i") (simp_all add: entries_def)
  then have "entries (store_bytes m (slot p i) bs) p = (entries m p)[i := dec bs]"
    by (intro nth_equalityI) (simp_all add: entries_def)
  moreover have "load32 (store_bytes m (slot p i) bs) (pos p) = load32 m (pos p)"
    unfolding load32_def slot_def pos_def using b assms(2) by (intro arg_cong [where f = from_le32] load_apart) linarith+
  moreover have "store_bytes m (slot p i) bs (sense p) = m (sense p)"
    unfolding slot_def sense_def using b assms(2) by (intro byte_apart) linarith+
  ultimately show ?thesis by (simp add: view_def)
qed

lemma load_slot_behind:
  assumes "512 * sz \<le> k" "k + length bs \<le> 33554440" and "j < 512"
  shows "load_bytes (store_bytes m (p + of_nat k) bs) (slot p j) sz = load_bytes m (slot p j) sz"
  unfolding slot_def using assms slot_below [OF assms(3)] slot_bound [OF assms(3)] by (intro load_apart) linarith+

lemma view_store_pos: "view (store32 m (pos p) w) p = (case view m p of (q, h, s) \<Rightarrow> (q, w, s))"
proof -
  have "entries (store32 m (pos p) w) p = entries m p"
    using ring_end by (simp add: entries_def store32_def pos_def load_slot_behind del: of_nat_mult)
  moreover have "store32 m (pos p) w (sense p) = m (sense p)"
    unfolding store32_def pos_def sense_def using ring_end by (intro byte_apart) auto
  ultimately show ?thesis by (simp add: view_def)
qed

lemma view_store_sense: "view (store_bytes m (sense p) [b]) p = (case view m p of (q, h, s) \<Rightarrow> (q, h, b \<noteq> 0))"
proof -
  have "entries (store_bytes m (sense p) [b]) p = entries m p"
    using ring_end by (simp add: entries_def sense_def load_slot_behind del: of_nat_mult of_nat_add)
  moreover have "load32 (store_bytes m (sense p) [b]) (pos p) = load32 m (pos p)"
    unfolding load32_def pos_def sense_def using ring_end by (subst load_apart) auto
  moreover have "store_bytes m (sense p) [b] (sense p) = b"
    using store_bytes_at [of 0 "[b]" m "sense p"] by simp
  ultimately show ?thesis by (simp add: view_def)
qed

text \<open>Stores into the ring leave the other memory alone, and stores elsewhere the ring.\<close>

lemma store_outside:
  assumes "512 * sz + 8 \<le> unat (x - p)" and "k + length bs \<le> 512 * sz + 8"
  shows "store_bytes m (p + of_nat k) bs x = m x"
proof (rule store_bytes_outside)
  have "unat (x - (p + of_nat k)) = unat (x - p) - k"
    using assms by (intro unat_minus_offset) linarith
  then show "length bs \<le> unat (x - (p + of_nat k))" using assms by linarith
qed

lemma view_cong:
  assumes "\<And>k. k < 512 * sz + 8 \<Longrightarrow> m1 (p + of_nat k) = m2 (p + of_nat k)"
  shows "view m1 p = view m2 p"
proof -
  have load: "load_bytes m1 (p + of_nat k) n = load_bytes m2 (p + of_nat k) n" if "k + n \<le> 512 * sz + 8" for k n
  proof (rule nth_equalityI)
    fix i assume "i < length (load_bytes m1 (p + of_nat k) n)"
    then have i: "i < n" by simp
    have e: "p + of_nat k + of_nat i = p + of_nat (k + i)" by (simp add: add.assoc)
    show "load_bytes m1 (p + of_nat k) n ! i = load_bytes m2 (p + of_nat k) n ! i"
      using assms [of "k + i"] that i by (simp add: e del: of_nat_add)
  qed simp
  have "load_bytes m1 (slot p i) sz = load_bytes m2 (slot p i) sz" if "i < 512" for i
    unfolding slot_def using slot_below [OF that] by (intro load) linarith
  then show ?thesis
    using load [of "512 * sz" 4] assms [of "512 * sz + 4"]
    by (simp add: view_def entries_def load32_def pos_def sense_def)
qed

end

end
