(* ===== verification/Ring_Bytes.thy ===== *)
theory Ring_Bytes
  imports C_Layout Nic_Wq Byte_Ring
begin

text \<open>
  The work queue in memory. The NIC library and the NIC share the rings as bytes, while \<open>Zsim_Nic\<close>
  keeps them as records beside the memory. Here the posting operations work on the bytes, at the
  offsets of \<open>C_Layout\<close>, and are shown to implement those on the records.
\<close>

section \<open>The bytes of a ring\<close>

definition member_offset :: "ctype \<Rightarrow> string \<Rightarrow> nat" where
  "member_offset t f = (case offset_of t f of None \<Rightarrow> 0 | Some k \<Rightarrow> k)"

definition member_bytes :: "ctype \<Rightarrow> string \<Rightarrow> nat \<Rightarrow> u8 list \<Rightarrow> u8 list" where
  "member_bytes t f n bs = take n (drop (member_offset t f) bs)"

definition entry_of :: "u8 list \<Rightarrow> wq_entry_t" where
  "entry_of bs = (let w32 = \<lambda>f. from_le32 (member_bytes c_wq_entry f 4 bs);
       w64 = \<lambda>f. from_le64 (member_bytes c_wq_entry f 8 bs);
       b = \<lambda>f. hd (member_bytes c_wq_entry f 1 bs) \<noteq> 0
     in \<lparr>wqe_op = w32 ''op'', wqe_SR = b ''SR'', wqe_valid = b ''valid'', wqe_buf_addr = w64 ''buf_addr'',
         wqe_cid = w32 ''cid'', wqe_nid = w64 ''nid'', wqe_offset = w64 ''offset'', wqe_length = w64 ''length''\<rparr>)"

text \<open>An entry in memory; the bytes between its members have no defined value.\<close>

definition entry_bytes :: "(nat \<Rightarrow> u8) \<Rightarrow> wq_entry_t \<Rightarrow> u8 list" where
  "entry_bytes pad e = le32 (wqe_op e) @ [bool_byte (wqe_SR e), bool_byte (wqe_valid e), pad 6, pad 7] @
     le64 (wqe_buf_addr e) @ le32 (wqe_cid e) @ [pad 20, pad 21, pad 22, pad 23] @ le64 (wqe_nid e) @
     le64 (wqe_offset e) @ le64 (wqe_length e)"

definition slot_addr :: "addr \<Rightarrow> nat \<Rightarrow> addr" where
  "slot_addr p i = p + of_nat (i * c_size c_wq_entry)"

definition head_addr :: "addr \<Rightarrow> addr" where
  "head_addr p = p + of_nat (member_offset c_rmc_wq ''head'')"

definition SR_addr :: "addr \<Rightarrow> addr" where
  "SR_addr p = p + of_nat (member_offset c_rmc_wq ''SR'')"

definition wq_of :: "memory \<Rightarrow> addr \<Rightarrow> rmc_wq_t" where
  "wq_of m p = \<lparr>wq_q = map (\<lambda>i. entry_of (load_bytes m (slot_addr p i) (c_size c_wq_entry))) [0..<MAX_NUM_WQ],
     wq_head = load32 m (head_addr p), wq_SR = (m (SR_addr p) \<noteq> 0)\<rparr>"

section \<open>The operations on bytes\<close>

definition create_wq_entry_b ::
  "(nat \<Rightarrow> u8) \<Rightarrow> u32 \<Rightarrow> bool \<Rightarrow> u32 \<Rightarrow> u64 \<Rightarrow> u64 \<Rightarrow> u64 \<Rightarrow> u64 \<Rightarrow> addr \<Rightarrow> machine \<Rightarrow> machine" where
  "create_wq_entry_b pad op SR cid nid buf_addr offset len wq_entry_addr m =
     (let anEntry = \<lparr>wqe_op = op, wqe_SR = SR, wqe_valid = True, wqe_buf_addr = buf_addr,
                     wqe_cid = cid, wqe_nid = nid, wqe_offset = offset, wqe_length = len\<rparr>
      in register_buffer (Imm NULL) NOTIFY_WQ_WRITE
           (m\<lparr>mem := store_bytes (mem m) wq_entry_addr (entry_bytes pad anEntry)\<rparr>))"

definition bump_wq_b :: "addr \<Rightarrow> memory \<Rightarrow> memory" where
  "bump_wq_b p m =
     (let m1 = store32 m (head_addr p) (load32 m (head_addr p) + 1)
      in if MAX_NUM_WQ \<le> unat (load32 m1 (head_addr p))
         then let m2 = store32 m1 (head_addr p) 0
              in store_bytes m2 (SR_addr p) [bool_byte (\<not> m2 (SR_addr p) \<noteq> 0)]
         else m1)"

definition rmc_hw_send_b ::
  "(nat \<Rightarrow> u8) \<Rightarrow> addr \<Rightarrow> u32 \<Rightarrow> u64 \<Rightarrow> u64 \<Rightarrow> u64 \<Rightarrow> machine \<Rightarrow> int \<times> machine" where
  "rmc_hw_send_b pad p ctx_id data_address len nid m =
     (let slot = slot_addr p (unat (load32 (mem m) (head_addr p)))
      in if mem m (slot + of_nat (member_offset c_wq_entry ''valid'')) \<noteq> 0 then (-1, m)
         else
           let len1 = len + (CACHE_BLOCK_SIZE - 1);
               len2 = drop_bit CACHE_BLOCK_BITS len1;
               m1 = create_wq_entry_b pad RMC_SEND (mem m (SR_addr p) \<noteq> 0) ctx_id nid data_address 0 len2 slot m
           in (0, m1\<lparr>mem := bump_wq_b p (mem m1)\<rparr>))"

definition rmc_hw_recv_b ::
  "(nat \<Rightarrow> u8) \<Rightarrow> addr \<Rightarrow> u32 \<Rightarrow> u64 \<Rightarrow> u64 \<Rightarrow> machine \<Rightarrow> int \<times> machine" where
  "rmc_hw_recv_b pad p ctx_id recv_buf len m =
     (let slot = slot_addr p (unat (load32 (mem m) (head_addr p)))
      in if mem m (slot + of_nat (member_offset c_wq_entry ''valid'')) \<noteq> 0 then (-1, m)
         else
           let m1 = create_wq_entry_b pad RMC_RECV (mem m (SR_addr p) \<noteq> 0) ctx_id 0 recv_buf 0 len slot m
           in (0, m1\<lparr>mem := bump_wq_b p (mem m1)\<rparr>))"

text \<open>A schedule of posts by the code and completions by the NIC, which clears the valid bit in memory.\<close>

definition nic_complete_b :: "addr \<Rightarrow> nat \<times> nat \<times> machine \<Rightarrow> (nat \<times> nat \<times> machine) \<times> wq_entry_t list" where
  "nic_complete_b p = (\<lambda>(t, n, m).
     if n = 0 then ((t, n, m), [])
     else ((Suc t mod MAX_NUM_WQ, n - 1,
            m\<lparr>mem := store_bytes (mem m) (slot_addr p t + of_nat (member_offset c_wq_entry ''valid'')) [bool_byte False]\<rparr>),
           [entry_of (load_bytes (mem m) (slot_addr p t) (c_size c_wq_entry))]))"

fun wq_script_b ::
  "(nat \<Rightarrow> u8) \<Rightarrow> addr \<Rightarrow> wq_act list \<Rightarrow> nat \<times> nat \<times> machine \<Rightarrow> (nat \<times> nat \<times> machine) \<times> wq_entry_t list" where
  "wq_script_b pad p [] v = (v, [])"
| "wq_script_b pad p (Post_send c a l d # xs) (t, n, m) =
     (case rmc_hw_send_b pad p c a l d m of (r, m1) \<Rightarrow> wq_script_b pad p xs (t, if r = 0 then Suc n else n, m1))"
| "wq_script_b pad p (Post_recv c a l # xs) (t, n, m) =
     (case rmc_hw_recv_b pad p c a l m of (r, m1) \<Rightarrow> wq_script_b pad p xs (t, if r = 0 then Suc n else n, m1))"
| "wq_script_b pad p (Complete # xs) v =
     (case nic_complete_b p v of (v1, fin) \<Rightarrow>
        (case wq_script_b pad p xs v1 of (v2, outs) \<Rightarrow> (v2, fin @ outs)))"

section \<open>Offsets\<close>

lemma wq_entry_members:
  "member_offset c_wq_entry ''op'' = 0" "member_offset c_wq_entry ''SR'' = 4" "member_offset c_wq_entry ''valid'' = 5"
  "member_offset c_wq_entry ''buf_addr'' = 8" "member_offset c_wq_entry ''cid'' = 16" "member_offset c_wq_entry ''nid'' = 24"
  "member_offset c_wq_entry ''offset'' = 32" "member_offset c_wq_entry ''length'' = 40"
  "member_offset c_rmc_wq ''head'' = 24576" "member_offset c_rmc_wq ''SR'' = 24580"
  by (simp_all add: member_offset_def offset_of_def entry_offsets ring_offsets)

lemma length_entry_bytes [simp]: "length (entry_bytes pad e) = 48"
  by (simp add: entry_bytes_def)

lemma entry_of_bytes [simp]: "entry_of (entry_bytes pad e) = e"
  by (simp add: entry_of_def Let_def member_bytes_def wq_entry_members entry_bytes_def bool_byte_def)

section \<open>The ring after a store\<close>

interpretation wq_bytes: byte_ring 48 entry_of
  by unfold_locales simp_all

lemma wq_addrs: "slot_addr p i = wq_bytes.slot p i" "head_addr p = wq_bytes.pos p" "SR_addr p = wq_bytes.sense p"
  by (simp_all add: slot_addr_def head_addr_def SR_addr_def wq_bytes.slot_def wq_bytes.pos_def wq_bytes.sense_def
      wq_entry_members entry_sizes)

lemma wq_of_view: "wq_of m p = (case wq_bytes.view m p of (q, h, s) \<Rightarrow> \<lparr>wq_q = q, wq_head = h, wq_SR = s\<rparr>)"
  by (simp add: wq_of_def wq_bytes.view_def wq_bytes.entries_def wq_addrs entry_sizes MAX_NUM_WQ_def)

lemma wq_of_store_slot:
  assumes "i < MAX_NUM_WQ" and "length bs = 48"
  shows "wq_of (store_bytes m (slot_addr p i) bs) p =
    (wq_of m p)\<lparr>wq_q := (wq_q (wq_of m p))[i := entry_of bs]\<rparr>"
  using assms by (simp add: wq_of_view wq_addrs wq_bytes.view_store_slot MAX_NUM_WQ_def split: prod.splits)

lemma wq_of_store_head: "wq_of (store32 m (head_addr p) w) p = (wq_of m p)\<lparr>wq_head := w\<rparr>"
  by (simp add: wq_of_view wq_addrs wq_bytes.view_store_pos split: prod.splits)

lemma wq_of_store_SR: "wq_of (store_bytes m (SR_addr p) [b]) p = (wq_of m p)\<lparr>wq_SR := b \<noteq> 0\<rparr>"
  by (simp add: wq_of_view wq_addrs wq_bytes.view_store_sense split: prod.splits)

lemma wq_of_bump: "wq_of (bump_wq_b p m) p = bump_wq (wq_of m p)"
proof -
  have h: "load32 m1 (head_addr p) = wq_head (wq_of m1 p)" "(m1 (SR_addr p) \<noteq> 0) = wq_SR (wq_of m1 p)" for m1
    by (simp_all add: wq_of_def)
  show ?thesis
    by (simp add: bump_wq_b_def bump_wq_def Let_def wq_of_store_head wq_of_store_SR bool_byte_def h)
qed

text \<open>The valid bit of the slot at the head.\<close>

lemma wq_of_valid:
  assumes "i < MAX_NUM_WQ"
  shows "m (slot_addr p i + of_nat (member_offset c_wq_entry ''valid'')) \<noteq> 0 \<longleftrightarrow> wqe_valid (wq_q (wq_of m p) ! i)"
  using assms
  by (simp add: wq_of_def entry_sizes entry_of_def Let_def member_bytes_def wq_entry_members hd_conv_nth)

section \<open>Outside the ring\<close>

lemma store_in_ring:
  "c_size c_rmc_wq \<le> unat (x - p) \<Longrightarrow> k + length bs \<le> 24584 \<Longrightarrow> store_bytes m (p + of_nat k) bs x = m x"
  using wq_bytes.store_outside [of x p k bs m] by (simp add: ring_sizes)

lemma store_slot_outside:
  assumes "c_size c_rmc_wq \<le> unat (x - p)" and "i < MAX_NUM_WQ" and "length bs = 48"
  shows "store_bytes m (slot_addr p i) bs x = m x"
  unfolding wq_addrs wq_bytes.slot_def using assms by (intro store_in_ring) (simp_all add: MAX_NUM_WQ_def)

lemma bump_outside: "c_size c_rmc_wq \<le> unat (x - p) \<Longrightarrow> bump_wq_b p m x = m x"
  by (simp add: bump_wq_b_def Let_def store32_def wq_addrs wq_bytes.pos_def wq_bytes.sense_def store_in_ring
      del: of_nat_numeral of_nat_add of_nat_mult)

section \<open>The simulation\<close>

text \<open>
  The machine whose work queue at \<open>p\<close> is in its memory, and the machine that has it as a record, show the
  same to the simulator and to the rest of the program.
\<close>

definition ring_rel :: "addr \<Rightarrow> machine \<Rightarrow> machine \<Rightarrow> bool" where
  "ring_rel p mb mr \<longleftrightarrow> wq_at mr p = Some (wq_of (mem mb) p) \<and> wf_wq (wq_of (mem mb) p) \<and> magic mb = magic mr \<and>
     (\<forall>x. c_size c_rmc_wq \<le> unat (x - p) \<longrightarrow> mem mb x = mem mr x)"

lemma entry_of_clear:
  "length bs = 48 \<Longrightarrow> entry_of (bs[5 := bool_byte False]) = (entry_of bs)\<lparr>wqe_valid := False\<rparr>"
  by (simp add: entry_of_def Let_def member_bytes_def wq_entry_members hd_conv_nth bool_byte_def drop_update_swap)

lemma wq_of_clear:
  assumes "t < MAX_NUM_WQ"
  shows "wq_of (store_bytes m (slot_addr p t + of_nat (member_offset c_wq_entry ''valid'')) [bool_byte False]) p =
    (wq_of m p)\<lparr>wq_q := (wq_q (wq_of m p))[t := (wq_q (wq_of m p) ! t)\<lparr>wqe_valid := False\<rparr>]\<rparr>"
proof -
  have "wq_q (wq_of m p) ! t = entry_of (load_bytes m (slot_addr p t) 48)"
    using assms by (simp add: wq_of_def entry_sizes)
  then show ?thesis
    using assms store_byte_image [of 5 48 m "slot_addr p t" "bool_byte False"]
    by (simp add: wq_entry_members wq_of_store_slot entry_of_clear)
qed

definition post_bytes :: "(nat \<Rightarrow> u8) \<Rightarrow> addr \<Rightarrow> wq_entry_t \<Rightarrow> machine \<Rightarrow> machine" where
  "post_bytes pad p e m = m\<lparr>magic := magic m @ [(Imm NULL, NOTIFY_WQ_WRITE)],
     mem := bump_wq_b p (store_bytes (mem m) (slot_addr p (unat (wq_head (wq_of (mem m) p)))) (entry_bytes pad e))\<rparr>"

lemma hw_b_eqs:
  assumes "wf_wq (wq_of (mem m) p)" (is "wf_wq ?w")
  shows "rmc_hw_send_b pad p c a l d m =
      (if wqe_valid (head_slot ?w) then (-1, m) else (0, post_bytes pad p (send_entry ?w c a l d) m))"
    and "rmc_hw_recv_b pad p c a l m =
      (if wqe_valid (head_slot ?w) then (-1, m) else (0, post_bytes pad p (recv_entry ?w c a l) m))"
proof -
  have h: "load32 (mem m) (head_addr p) = wq_head ?w" "(mem m (SR_addr p) \<noteq> 0) = wq_SR ?w"
    by (simp_all add: wq_of_def)
  have i: "unat (wq_head ?w) < MAX_NUM_WQ" using assms by (simp add: wf_wq_def)
  note defs = create_wq_entry_b_def register_buffer_def Let_def h wq_of_valid [OF i] post_bytes_def
  show "rmc_hw_send_b pad p c a l d m =
      (if wqe_valid (head_slot ?w) then (-1, m) else (0, post_bytes pad p (send_entry ?w c a l d) m))"
    by (simp add: rmc_hw_send_b_def send_entry_def defs)
  show "rmc_hw_recv_b pad p c a l m =
      (if wqe_valid (head_slot ?w) then (-1, m) else (0, post_bytes pad p (recv_entry ?w c a l) m))"
    by (simp add: rmc_hw_recv_b_def recv_entry_def defs)
qed

lemma post_rel:
  assumes "ring_rel p mb mr"
  shows "ring_rel p (post_bytes pad p e mb) (post_machine p e (wq_of (mem mb) p) mr)"
proof -
  let ?w = "wq_of (mem mb) p"
  have wf: "wf_wq ?w" using assms by (simp add: ring_rel_def)
  then have i: "unat (wq_head ?w) < MAX_NUM_WQ" by (simp add: wf_wq_def)
  have "wq_of (mem (post_bytes pad p e mb)) p = wq_post e ?w"
    by (simp add: post_bytes_def wq_of_bump wq_of_store_slot [OF i] wq_post_def)
  then show ?thesis
    using assms wf_wq_post [OF wf, of e] i
    by (simp add: ring_rel_def post_bytes_def post_machine_def bump_outside store_slot_outside)
qed

lemma hw_b_rel:
  assumes "ring_rel p mb mr"
  shows "\<exists>mr1. rmc_hw_send p c a l d mr = Inr (fst (rmc_hw_send_b pad p c a l d mb), mr1) \<and>
      ring_rel p (snd (rmc_hw_send_b pad p c a l d mb)) mr1"
    and "\<exists>mr1. rmc_hw_recv p c a l mr = Inr (fst (rmc_hw_recv_b pad p c a l mb), mr1) \<and>
      ring_rel p (snd (rmc_hw_recv_b pad p c a l mb)) mr1"
proof -
  have w: "wq_at mr p = Some (wq_of (mem mb) p)" "wf_wq (wq_of (mem mb) p)" using assms by (simp_all add: ring_rel_def)
  show "\<exists>mr1. rmc_hw_send p c a l d mr = Inr (fst (rmc_hw_send_b pad p c a l d mb), mr1) \<and>
      ring_rel p (snd (rmc_hw_send_b pad p c a l d mb)) mr1"
    by (simp add: rmc_hw_send_eq [OF w] hw_b_eqs [OF w(2)] assms post_rel [OF assms])
  show "\<exists>mr1. rmc_hw_recv p c a l mr = Inr (fst (rmc_hw_recv_b pad p c a l mb), mr1) \<and>
      ring_rel p (snd (rmc_hw_recv_b pad p c a l mb)) mr1"
    by (simp add: rmc_hw_recv_eq [OF w] hw_b_eqs [OF w(2)] assms post_rel [OF assms])
qed

lemma complete_rel:
  assumes "ring_rel p mb mr" and "t < MAX_NUM_WQ" and "nic_complete_b p (t, n, mb) = ((t1, n1, mb1), outs)"
  shows "\<exists>mr1. nic_complete p (t, n, mr) = ((t1, n1, mr1), outs) \<and> ring_rel p mb1 mr1 \<and> t1 < MAX_NUM_WQ"
proof (cases "n = 0")
  case False
  let ?w = "wq_of (mem mb) p"
  have r: "wq_at mr p = Some ?w" "wf_wq ?w" "magic mb = magic mr"
    "\<And>x. c_size c_rmc_wq \<le> unat (x - p) \<Longrightarrow> mem mb x = mem mr x"
    using assms(1) by (simp_all add: ring_rel_def)
  have e: "entry_of (load_bytes (mem mb) (slot_addr p t) (c_size c_wq_entry)) = wq_q ?w ! t"
    using assms(2) by (simp add: wq_of_def)
  have out: "store_bytes (mem mb) (slot_addr p t + of_nat (member_offset c_wq_entry ''valid'')) [bool_byte False] x = mem mb x"
    if "c_size c_rmc_wq \<le> unat (x - p)" for x
    using store_in_ring [OF that, of "t * 48 + 5" "[bool_byte False]" "mem mb"] assms(2)
    by (simp add: wq_addrs wq_bytes.slot_def wq_entry_members MAX_NUM_WQ_def add.assoc)
  show ?thesis
    using assms(2,3) False r
    by (auto simp: nic_complete_b_def ring_rel_def e store_wq_def out wq_of_clear [OF assms(2)])
qed (use assms in \<open>auto simp: nic_complete_b_def ring_rel_def\<close>)

text \<open>
  C11. The rings as records are the rings in memory. Take a machine whose work queue at \<open>p\<close> is the bytes
  that the layout of \<open>rmc_wq_t\<close> gives it, and one that has the queue as a record. Along any schedule of
  sends, receive posts and completions by the NIC, the operations on the bytes (with any values in
  the padding) and those on the record return the same, hand the same entries to the NIC, notify the
  simulator alike, keep the bytes and the record equal and touch no memory outside the ring.
\<close>

theorem wq_bytes_simulation:
  assumes "ring_rel p mb mr" and "t < MAX_NUM_WQ" and "wq_script_b pad p xs (t, n, mb) = ((t1, n1, mb1), outs)"
  shows "\<exists>mr1. wq_script p xs (t, n, mr) = Inr ((t1, n1, mr1), outs) \<and> ring_rel p mb1 mr1"
  using assms
proof (induction xs arbitrary: t n mb mr outs)
  case (Cons x xs)
  show ?case
  proof (cases x)
    case (Post_send c a l d)
    with hw_b_rel(1) [OF Cons.prems(1), of c a l d pad] Cons.IH Cons.prems(2,3) show ?thesis
      by (fastforce split: prod.splits)
  next
    case (Post_recv c a l)
    with hw_b_rel(2) [OF Cons.prems(1), of c a l pad] Cons.IH Cons.prems(2,3) show ?thesis
      by (fastforce split: prod.splits)
  next
    case Complete
    obtain t2 n2 mb2 fin where c: "nic_complete_b p (t, n, mb) = ((t2, n2, mb2), fin)" by (metis prod.exhaust)
    obtain rest where s: "wq_script_b pad p xs (t2, n2, mb2) = ((t1, n1, mb1), rest)" "outs = fin @ rest"
      using Cons.prems(3) Complete c by (auto split: prod.splits)
    obtain mr2 where m: "nic_complete p (t, n, mr) = ((t2, n2, mr2), fin)" "ring_rel p mb2 mr2" "t2 < MAX_NUM_WQ"
      using complete_rel [OF Cons.prems(1,2) c] by blast
    from Cons.IH [OF m(2,3) s(1)] m(1) s(2) Complete show ?thesis by (auto simp del: nic_complete.simps)
  qed
qed auto

text \<open>Memory that is all zeros holds an empty queue.\<close>

definition zero_machine :: machine where
  "zero_machine = wq_demo\<lparr>wq_at := [0x1000 \<mapsto> wq_of (\<lambda>_. 0) 0x1000]\<rparr>"

lemma load_zeros: "load_bytes (\<lambda>_. 0) a n = replicate n 0"
  by (rule nth_equalityI) simp_all

lemma zero_ring: "wf_wq (wq_of (\<lambda>_. 0) p)" "\<not> wqe_valid (wq_q (wq_of (\<lambda>_. 0) p) ! 0)"
  "unat (wq_head (wq_of (\<lambda>_. 0) p)) = 0"
proof -
  show h: "unat (wq_head (wq_of (\<lambda>_. 0) p)) = 0" by (simp add: wq_of_def load32_def load_zeros from_le32_def)
  then show "wf_wq (wq_of (\<lambda>_. 0) p)" by (simp add: wf_wq_def) (simp add: wq_of_def)
  show "\<not> wqe_valid (wq_q (wq_of (\<lambda>_. 0) p) ! 0)"
    by (simp add: wq_of_def load_zeros entry_sizes entry_of_def Let_def member_bytes_def wq_entry_members)
qed

theorem wq_bytes_simulation_witness:
  "snd (wq_script_b (\<lambda>_. 0xFF) 0x1000 [Post_send 7 0x8000 512 3, Complete] (0, 0, zero_machine)) =
     [send_entry (wq_of (\<lambda>_. 0) 0x1000) 7 0x8000 512 3]"
proof -
  let ?w = "wq_of (\<lambda>_. 0) 0x1000" and ?xs = "[Post_send 7 0x8000 512 3, Complete]"
  obtain t1 n1 mb1 outs where b: "wq_script_b (\<lambda>_. 0xFF) 0x1000 ?xs (0, 0, zero_machine) = ((t1, n1, mb1), outs)"
    by (metis prod.exhaust)
  have rel: "ring_rel 0x1000 zero_machine zero_machine"
    by (simp add: ring_rel_def zero_machine_def wq_demo_def zero_ring)
  obtain mr1 where r: "wq_script 0x1000 ?xs (0, 0, zero_machine) = Inr ((t1, n1, mr1), outs)"
    using wq_bytes_simulation [OF rel _ b] by auto
  have w: "wq_at zero_machine 0x1000 = Some ?w" by (simp add: zero_machine_def)
  have "length (wq_q ?w) = MAX_NUM_WQ" using zero_ring(1) by (simp add: wf_wq_def)
  with r have "outs = [send_entry ?w 7 0x8000 512 3]"
    by (simp add: rmc_hw_send_eq [OF w zero_ring(1)] zero_ring(2,3) wq_post_q)
  with b show ?thesis by simp
qed

end
