(* ===== verification/Cq_Bytes.thy ===== *)
theory Cq_Bytes
  imports Ring_Bytes Nic_Cq
begin

text \<open>
  The poll on rings in memory: \<open>rmc_check_cq\<close> once more, reading and writing the bytes of both rings,
  and the proof that the poll on the records of \<open>Zsim_Nic\<close> shows what it does.
\<close>

section \<open>The bytes of a completion queue\<close>

definition cqe_of :: "u8 list \<Rightarrow> cq_entry_t" where
  "cqe_of bs = (let w32 = \<lambda>f. from_le32 (member_bytes c_cq_entry f 4 bs);
       b = \<lambda>f. hd (member_bytes c_cq_entry f 1 bs) \<noteq> 0
     in \<lparr>cqe_SR = b ''SR'', cqe_valid = b ''valid'', cqe_success = w32 ''success'', cqe_tid = w32 ''tid'',
         cqe_recv_buf_addr = from_le64 (member_bytes c_cq_entry ''recv_buf_addr'' 8 bs)\<rparr>)"

definition cslot_addr :: "addr \<Rightarrow> nat \<Rightarrow> addr" where
  "cslot_addr p i = p + of_nat (i * c_size c_cq_entry)"

definition tail_addr :: "addr \<Rightarrow> addr" where
  "tail_addr p = p + of_nat (member_offset c_rmc_cq ''tail'')"

definition cSR_addr :: "addr \<Rightarrow> addr" where
  "cSR_addr p = p + of_nat (member_offset c_rmc_cq ''SR'')"

definition load_cqe :: "memory \<Rightarrow> addr \<Rightarrow> nat \<Rightarrow> cq_entry_t" where
  "load_cqe m p i = cqe_of (load_bytes m (cslot_addr p i) (c_size c_cq_entry))"

definition cq_of :: "memory \<Rightarrow> addr \<Rightarrow> rmc_cq_t" where
  "cq_of m p = \<lparr>cq_q = map (load_cqe m p) [0..<MAX_NUM_WQ], cq_tail = load32 m (tail_addr p),
     cq_SR = (m (cSR_addr p) \<noteq> 0)\<rparr>"

section \<open>The poll on bytes\<close>

definition bump_cq_b :: "addr \<Rightarrow> memory \<Rightarrow> memory" where
  "bump_cq_b p m =
     (let m1 = store32 m (tail_addr p) (load32 m (tail_addr p) + 1)
      in if MAX_NUM_WQ \<le> unat (load32 m1 (tail_addr p))
         then let m2 = store32 m1 (tail_addr p) 0
              in store_bytes m2 (cSR_addr p) [bool_byte (\<not> m2 (cSR_addr p) \<noteq> 0)]
         else m1)"

definition check_cq_consume_b ::
  "addr \<Rightarrow> addr \<Rightarrow> nat \<Rightarrow> cq_entry_t \<Rightarrow> u32 \<Rightarrow> successStruct \<Rightarrow> machine \<Rightarrow> drain" where
  "check_cq_consume_b wqp cqp n raw ctail ret m =
     (let m0 = (if 1 < n then register_buffer (Imm 1) 0x11 m else m);
          valid = cslot_addr cqp (unat ctail) + of_nat (member_offset c_cq_entry ''valid'');
          m1 = m0\<lparr>mem := bump_cq_b cqp (store_bytes (mem m0) valid [bool_byte False])\<rparr>
      in if cqe_success raw = 0x7F then
           Returned (ret\<lparr>ss_recv_buf_addr := cqe_recv_buf_addr raw,
                         ss_op := RMC_INCOMING_SEND, ss_tid := cqe_tid raw\<rparr>) m1
         else if cqe_success raw = 1 then
           Returned (ret\<lparr>ss_recv_buf_addr := cqe_recv_buf_addr raw,
                         ss_op := RMC_INCOMING_RESP, ss_tid := cqe_tid raw\<rparr>) m1
         else
           let ret1 = ret\<lparr>ss_op := load32 (mem m1) (slot_addr wqp (unat (cqe_tid raw)) + of_nat (member_offset c_wq_entry ''op''))\<rparr>;
               ret2 = (if ss_op ret1 = RMC_SABRE then
                         let ret3 = ret1\<lparr>ss_success := cqe_success (load_cqe (mem m1) cqp (unat ctail))\<rparr>
                         in if ss_success ret3 = 0 then ret3\<lparr>ss_tid := cqe_tid raw\<rparr> else ret3
                       else ret1\<lparr>ss_op := 0\<rparr>)
           in Drained ret2 (load32 (mem m1) (tail_addr cqp)) m1)"

partial_function (option) check_cq_inner_b ::
  "nic \<Rightarrow> addr \<Rightarrow> addr \<Rightarrow> nat \<Rightarrow> cq_entry_t \<Rightarrow> u32 \<Rightarrow> successStruct \<Rightarrow> machine \<Rightarrow> drain option" where
  "check_cq_inner_b nic wqp cqp n raw ctail ret m =
     (if cqe_SR raw = (mem m (cSR_addr cqp) \<noteq> 0) \<and> ss_success ret \<noteq> 0 then
        (case check_cq_consume_b wqp cqp (Suc n) raw ctail ret m of
           Returned ret1 m1 \<Rightarrow> Some (Returned ret1 m1)
         | Drained ret1 ctail1 m1 \<Rightarrow>
             check_cq_inner_b nic wqp cqp (Suc n) (load_cqe (mem (nic_turn nic m1)) cqp (unat ctail1)) ctail1 ret1
               (nic_turn nic m1))
      else Some (Drained ret ctail m))"

partial_function (option) check_cq_outer_b ::
  "nic \<Rightarrow> addr \<Rightarrow> addr \<Rightarrow> nat \<Rightarrow> u32 \<Rightarrow> successStruct \<Rightarrow> machine \<Rightarrow> (successStruct \<times> machine) option" where
  "check_cq_outer_b nic wqp cqp n ctail ret m =
     (let m1 = outer_start nic n m;
          raw_wqe = entry_of (load_bytes (mem m1) (slot_addr wqp (unat (load32 (mem m1) (head_addr wqp)))) (c_size c_wq_entry))
      in case check_cq_inner_b nic wqp cqp 0 (load_cqe (mem m1) cqp (unat ctail)) ctail ret m1 of
           None \<Rightarrow> None
         | Some (Returned ret1 m2) \<Rightarrow> Some (ret1, m2)
         | Some (Drained ret1 ctail1 m2) \<Rightarrow>
             if wqe_valid raw_wqe \<and> ss_success ret1 \<noteq> 0
             then check_cq_outer_b nic wqp cqp (Suc n) ctail1 ret1 m2
             else Some (ret1, register_buffer (Imm 1) 0x11 m2))"

definition rmc_check_cq_b ::
  "nic \<Rightarrow> successStruct \<Rightarrow> addr \<Rightarrow> addr \<Rightarrow> machine \<Rightarrow> (successStruct \<times> machine) option" where
  "rmc_check_cq_b nic junk wqp cqp m =
     check_cq_outer_b nic wqp cqp 0 (load32 (mem m) (tail_addr cqp)) (junk\<lparr>ss_success := 1, ss_op := RMC_INVAL\<rparr>) m"

section \<open>The completion queue after a store\<close>

lemma cq_entry_members:
  "member_offset c_cq_entry ''SR'' = 0" "member_offset c_cq_entry ''valid'' = 1" "member_offset c_cq_entry ''success'' = 4"
  "member_offset c_cq_entry ''tid'' = 8" "member_offset c_cq_entry ''recv_buf_addr'' = 16"
  "member_offset c_rmc_cq ''tail'' = 12288" "member_offset c_rmc_cq ''SR'' = 12292"
  by (simp_all add: member_offset_def offset_of_def entry_offsets ring_offsets)

interpretation cq_bytes: byte_ring 24 cqe_of
  by unfold_locales simp_all

lemma cq_addrs: "cslot_addr p i = cq_bytes.slot p i" "tail_addr p = cq_bytes.pos p" "cSR_addr p = cq_bytes.sense p"
  by (simp_all add: cslot_addr_def tail_addr_def cSR_addr_def cq_bytes.slot_def cq_bytes.pos_def cq_bytes.sense_def
      cq_entry_members entry_sizes)

lemma cq_of_view: "cq_of m p = (case cq_bytes.view m p of (q, h, s) \<Rightarrow> \<lparr>cq_q = q, cq_tail = h, cq_SR = s\<rparr>)"
  by (simp add: cq_of_def cq_bytes.view_def cq_bytes.entries_def load_cqe_def cq_addrs entry_sizes MAX_NUM_WQ_def)

lemma cq_of_store_slot:
  assumes "i < MAX_NUM_WQ" and "length bs = 24"
  shows "cq_of (store_bytes m (cslot_addr p i) bs) p = (cq_of m p)\<lparr>cq_q := (cq_q (cq_of m p))[i := cqe_of bs]\<rparr>"
  using assms by (simp add: cq_of_view cq_addrs cq_bytes.view_store_slot MAX_NUM_WQ_def split: prod.splits)

lemma cq_of_store_tail: "cq_of (store32 m (tail_addr p) w) p = (cq_of m p)\<lparr>cq_tail := w\<rparr>"
  by (simp add: cq_of_view cq_addrs cq_bytes.view_store_pos split: prod.splits)

lemma cq_of_store_SR: "cq_of (store_bytes m (cSR_addr p) [b]) p = (cq_of m p)\<lparr>cq_SR := b \<noteq> 0\<rparr>"
  by (simp add: cq_of_view cq_addrs cq_bytes.view_store_sense split: prod.splits)

lemma cq_of_bump: "cq_of (bump_cq_b p m) p = bump_cq (cq_of m p)"
proof -
  have h: "load32 m1 (tail_addr p) = cq_tail (cq_of m1 p)" "(m1 (cSR_addr p) \<noteq> 0) = cq_SR (cq_of m1 p)" for m1
    by (simp_all add: cq_of_def)
  show ?thesis
    by (simp add: bump_cq_b_def bump_cq_def Let_def cq_of_store_tail cq_of_store_SR h)
qed

lemma nonempty_24: "length bs = 24 \<Longrightarrow> bs \<noteq> [] \<and> drop (Suc 0) bs \<noteq> []"
  by auto

lemma cqe_of_clear: "length bs = 24 \<Longrightarrow> cqe_of (bs[Suc 0 := bool_byte False]) = (cqe_of bs)\<lparr>cqe_valid := False\<rparr>"
  by (simp add: cqe_of_def Let_def member_bytes_def cq_entry_members hd_conv_nth bool_byte_def drop_update_swap nonempty_24)

lemma cq_of_nth: "i < MAX_NUM_WQ \<Longrightarrow> cq_q (cq_of m p) ! i = load_cqe m p i"
  by (simp add: cq_of_def)

lemma cq_of_clear:
  assumes "t < MAX_NUM_WQ"
  shows "cq_of (store_bytes m (cslot_addr p t + of_nat (member_offset c_cq_entry ''valid'')) [bool_byte False]) p =
    (cq_of m p)\<lparr>cq_q := (cq_q (cq_of m p))[t := (cq_q (cq_of m p) ! t)\<lparr>cqe_valid := False\<rparr>]\<rparr>"
  using assms store_byte_image [of 1 24 m "cslot_addr p t" "bool_byte False"]
  by (simp add: cq_entry_members cq_of_store_slot cqe_of_clear cq_of_nth load_cqe_def entry_sizes)

section \<open>Both rings\<close>

lemma store_in_cq:
  "c_size c_rmc_cq \<le> unat (x - p) \<Longrightarrow> k + length bs \<le> 12296 \<Longrightarrow> store_bytes m (p + of_nat k) bs x = m x"
  using cq_bytes.store_outside [of x p k bs m] by (simp add: ring_sizes)

text \<open>The memory after the consumption of the entry under the cursor.\<close>

definition consumed :: "addr \<Rightarrow> u32 \<Rightarrow> memory \<Rightarrow> memory" where
  "consumed cqp ctail m = bump_cq_b cqp
     (store_bytes m (cslot_addr cqp (unat ctail) + of_nat (member_offset c_cq_entry ''valid'')) [bool_byte False])"

lemma consumed_outside:
  assumes "c_size c_rmc_cq \<le> unat (x - cqp)" and "unat ctail < MAX_NUM_WQ"
  shows "consumed cqp ctail m x = m x"
proof -
  have bump: "bump_cq_b cqp m1 x = m1 x" for m1
    using assms(1) by (simp add: bump_cq_b_def Let_def store32_def cq_addrs cq_bytes.pos_def cq_bytes.sense_def store_in_cq
      del: of_nat_numeral of_nat_add of_nat_mult)
  show ?thesis
    using store_in_cq [OF assms(1), of "unat ctail * 24 + 1" "[bool_byte False]" m] assms(2)
    by (simp add: consumed_def bump cq_addrs cq_bytes.slot_def cq_entry_members MAX_NUM_WQ_def ac_simps)
qed

lemma consumed_cq:
  "unat ctail < MAX_NUM_WQ \<Longrightarrow> cq_of (consumed cqp ctail m) cqp = bump_cq ((cq_of m cqp)\<lparr>cq_q :=
     (cq_q (cq_of m cqp))[unat ctail := (cq_q (cq_of m cqp) ! unat ctail)\<lparr>cqe_valid := False\<rparr>]\<rparr>)"
  by (simp add: consumed_def cq_of_bump cq_of_clear)

lemma consumed_wq:
  assumes "disjoint_ranges wqp (c_size c_rmc_wq) cqp (c_size c_rmc_cq)" and "unat ctail < MAX_NUM_WQ"
  shows "wq_of (consumed cqp ctail m) wqp = wq_of m wqp"
proof -
  have "consumed cqp ctail m (wqp + of_nat k) = m (wqp + of_nat k)" if "k < 512 * 48 + 8" for k
    using assms that offset_outside [of 12296 wqp cqp 24584 k]
    by (intro consumed_outside) (auto simp: disjoint_ranges_def ring_sizes)
  then show ?thesis by (simp add: wq_of_view wq_bytes.view_cong [of "consumed cqp ctail m" wqp m])
qed

definition rings_rel :: "addr \<Rightarrow> addr \<Rightarrow> machine \<Rightarrow> machine \<Rightarrow> bool" where
  "rings_rel wqp cqp mb mr \<longleftrightarrow> wq_at mr wqp = Some (wq_of (mem mb) wqp) \<and> cq_at mr cqp = Some (cq_of (mem mb) cqp) \<and>
     magic mb = magic mr \<and> now mb = now mr \<and>
     (\<forall>x. c_size c_rmc_wq \<le> unat (x - wqp) \<longrightarrow> c_size c_rmc_cq \<le> unat (x - cqp) \<longrightarrow> mem mb x = mem mr x)"

fun drain_rel :: "addr \<Rightarrow> addr \<Rightarrow> drain \<Rightarrow> drain \<Rightarrow> bool" where
  "drain_rel wqp cqp (Returned r mb) (Returned r1 mr) \<longleftrightarrow> r = r1 \<and> rings_rel wqp cqp mb mr"
| "drain_rel wqp cqp (Drained r t mb) (Drained r1 t1 mr) \<longleftrightarrow> r = r1 \<and> t = t1 \<and> rings_rel wqp cqp mb mr"
| "drain_rel wqp cqp _ _ \<longleftrightarrow> False"

lemma rings_rel_register: "rings_rel wqp cqp mb mr \<Longrightarrow> rings_rel wqp cqp (register_buffer a f mb) (register_buffer a f mr)"
  by (simp add: rings_rel_def register_buffer_def)

lemma entry_op: "load32 m (slot_addr p i + of_nat (member_offset c_wq_entry ''op'')) = wqe_op (wq_q (wq_of m p) ! i)"
  if "i < MAX_NUM_WQ"
  using that load_bytes_prefix [of 4 48 m "slot_addr p i"]
  by (simp add: wq_of_def entry_of_def Let_def member_bytes_def wq_entry_members entry_sizes load32_def)

lemma consumed_reads:
  assumes "unat ctail < MAX_NUM_WQ"
  shows "load32 (consumed cqp ctail m) (tail_addr cqp) = cq_tail (cq_of (consumed cqp ctail m) cqp)"
    and "cqe_success (load_cqe (consumed cqp ctail m) cqp (unat ctail)) = cqe_success (cq_q (cq_of m cqp) ! unat ctail)"
proof -
  show "load32 (consumed cqp ctail m) (tail_addr cqp) = cq_tail (cq_of (consumed cqp ctail m) cqp)" by (simp add: cq_of_def)
  have "length (cq_q (cq_of m cqp)) = MAX_NUM_WQ" by (simp add: cq_of_def)
  then have "cq_q (cq_of (consumed cqp ctail m) cqp) ! unat ctail = (cq_q (cq_of m cqp) ! unat ctail)\<lparr>cqe_valid := False\<rparr>"
    using assms by (simp add: consumed_cq)
  then show "cqe_success (load_cqe (consumed cqp ctail m) cqp (unat ctail)) = cqe_success (cq_q (cq_of m cqp) ! unat ctail)"
    by (simp add: cq_of_nth [OF assms])
qed

lemma consume_rel:
  assumes rel: "rings_rel wqp cqp mb mr" and dis: "disjoint_ranges wqp (c_size c_rmc_wq) cqp (c_size c_rmc_cq)"
    and d: "check_cq_consume wqp cqp n raw ctail ret mr = Inr d"
  shows "drain_rel wqp cqp (check_cq_consume_b wqp cqp n raw ctail ret mb) d"
proof -
  define mb0 where "mb0 = (if 1 < n then register_buffer (Imm 1) 0x11 mb else mb)"
  define mr0 where "mr0 = (if 1 < n then register_buffer (Imm 1) 0x11 mr else mr)"
  let ?c = "cq_of (mem mb0) cqp" and ?w = "wq_of (mem mb0) wqp"
  let ?c1 = "bump_cq (?c\<lparr>cq_q := (cq_q ?c)[unat ctail := (cq_q ?c ! unat ctail)\<lparr>cqe_valid := False\<rparr>]\<rparr>)"
  have rel0: "rings_rel wqp cqp mb0 mr0" using rel rings_rel_register by (simp add: mb0_def mr0_def)
  then have at: "load_wq wqp mr0 = Inr ?w" "load_cq cqp mr0 = Inr ?c" by (simp_all add: rings_rel_def load_wq_def load_cq_def)
  have len: "length (cq_q ?c) = MAX_NUM_WQ" "length (wq_q ?w) = MAX_NUM_WQ" by (simp_all add: cq_of_def wq_of_def)
  note on_rec = check_cq_consume_def [of wqp cqp n raw ctail ret mr, folded mr0_def, unfolded Let_def]
  have t: "unat ctail < MAX_NUM_WQ"
    using d at len unfolding on_rec by (auto simp: arr_get_def split: if_splits)
  have rel1: "rings_rel wqp cqp (mb0\<lparr>mem := consumed cqp ctail (mem mb0)\<rparr>) ((store_cq cqp ?c1 mr0)\<lparr>delivered := f\<rparr>)"
    "rings_rel wqp cqp (mb0\<lparr>mem := consumed cqp ctail (mem mb0)\<rparr>) (store_cq cqp ?c1 mr0)" for f
    using rel0 t by (simp_all add: rings_rel_def store_cq_def consumed_cq consumed_wq [OF dis t] consumed_outside)
  have op1: "load32 (consumed cqp ctail (mem mb0)) (slot_addr wqp (unat (cqe_tid raw)) + of_nat (member_offset c_wq_entry ''op'')) =
      wqe_op (wq_q ?w ! unat (cqe_tid raw))" if "unat (cqe_tid raw) < MAX_NUM_WQ"
    using entry_op [OF that, of "consumed cqp ctail (mem mb0)" wqp] consumed_wq [OF dis t] by simp
  have w: "load_wq wqp (store_cq cqp ?c1 mr0) = Inr ?w" using at(1) by (simp add: load_wq_def store_cq_def)
  have bytes: "check_cq_consume_b wqp cqp n raw ctail ret mb = check_cq_consume_b wqp cqp 0 raw ctail ret mb0"
    by (simp add: check_cq_consume_b_def mb0_def)
  show ?thesis using d at len t rel1 op1 w
    unfolding on_rec bytes
    by (auto simp: check_cq_consume_b_def Let_def arr_get_def consumed_def [symmetric] consumed_reads [OF t] consumed_cq [OF t]
        split: if_splits)
qed

section \<open>The loops\<close>

text \<open>A NIC that works on the bytes and one that works on the records, doing the same to the rings.\<close>

definition nic_alike :: "addr \<Rightarrow> addr \<Rightarrow> nic \<Rightarrow> nic \<Rightarrow> bool" where
  "nic_alike wqp cqp nicb nic \<longleftrightarrow>
     (\<forall>mb mr. rings_rel wqp cqp mb mr \<longrightarrow> rings_rel wqp cqp (nic_turn nicb mb) (nic_turn nic mr))"

lemma nic_alikeD: "nic_alike wqp cqp nicb nic \<Longrightarrow> rings_rel wqp cqp mb mr \<Longrightarrow> rings_rel wqp cqp (nic_turn nicb mb) (nic_turn nic mr)"
  by (simp add: nic_alike_def)

lemma rings_rel_cq: "rings_rel wqp cqp mb mr \<Longrightarrow> load_cq cqp mr = Inr (cq_of (mem mb) cqp)"
  "rings_rel wqp cqp mb mr \<Longrightarrow> load_wq wqp mr = Inr (wq_of (mem mb) wqp)"
  by (simp_all add: rings_rel_def load_cq_def load_wq_def)

lemma rings_rel_cqe:
  "rings_rel wqp cqp mb mr \<Longrightarrow> bindR (load_cq cqp mr) (\<lambda>cq. arr_get (cq_q cq) k) = Inr e \<Longrightarrow> load_cqe (mem mb) cqp k = e"
  by (auto simp: rings_rel_cq arr_get_def cq_of_nth cq_of_def split: if_splits)

text \<open>One turn of each loop, given the simulation for the turns after it.\<close>

lemma inner_turn_rel:
  assumes dis: "disjoint_ranges wqp (c_size c_rmc_wq) cqp (c_size c_rmc_cq)" and alike: "nic_alike wqp cqp nicb nic"
    and IH: "\<And>n raw ct ret m mb d. f nic wqp cqp n raw ct ret m = Some (Inr d) \<Longrightarrow> rings_rel wqp cqp mb m \<Longrightarrow>
      \<exists>db. check_cq_inner_b nicb wqp cqp n raw ct ret mb = Some db \<and> drain_rel wqp cqp db d"
    and eq: "(case load_cq cqp m of
        Inl e \<Rightarrow> Some (Inl e)
      | Inr cq \<Rightarrow>
          if cqe_SR raw = cq_SR cq \<and> ss_success ret \<noteq> 0 then
            (case check_cq_consume wqp cqp (Suc n) raw ct ret m of
               Inl e \<Rightarrow> Some (Inl e)
             | Inr (Returned ret1 m1) \<Rightarrow> Some (Inr (Returned ret1 m1))
             | Inr (Drained ret1 ctail1 m1) \<Rightarrow>
                 (case bindR (load_cq cqp (nic_turn nic m1)) (\<lambda>cq2. arr_get (cq_q cq2) (unat ctail1)) of
                    Inl e \<Rightarrow> Some (Inl e)
                  | Inr raw1 \<Rightarrow> f nic wqp cqp (Suc n) raw1 ctail1 ret1 (nic_turn nic m1)))
          else Some (Inr (Drained ret ct m))) = Some (Inr d)"
    and rel: "rings_rel wqp cqp mb m"
  shows "\<exists>db. check_cq_inner_b nicb wqp cqp n raw ct ret mb = Some db \<and> drain_rel wqp cqp db d"
proof -
  have sr: "(mem mb (cSR_addr cqp) \<noteq> 0) = cq_SR (cq_of (mem mb) cqp)" by (simp add: cq_of_def)
  note body = check_cq_inner_b.simps [of nicb wqp cqp n raw ct ret mb]
  consider "\<not> (cqe_SR raw = cq_SR (cq_of (mem mb) cqp) \<and> ss_success ret \<noteq> 0)"
    | r m1 where "cqe_SR raw = cq_SR (cq_of (mem mb) cqp)" "ss_success ret \<noteq> 0"
        "check_cq_consume wqp cqp (Suc n) raw ct ret m = Inr (Returned r m1)"
    | r t m1 raw1 where "cqe_SR raw = cq_SR (cq_of (mem mb) cqp)" "ss_success ret \<noteq> 0"
        "check_cq_consume wqp cqp (Suc n) raw ct ret m = Inr (Drained r t m1)"
        "bindR (load_cq cqp (nic_turn nic m1)) (\<lambda>cq2. arr_get (cq_q cq2) (unat t)) = Inr raw1"
        "f nic wqp cqp (Suc n) raw1 t r (nic_turn nic m1) = Some (Inr d)"
    using eq by (auto simp: rings_rel_cq [OF rel] split: sum.splits drain.splits if_splits)
  then show ?thesis
  proof cases
    case 1
    with eq rel show ?thesis unfolding body by (auto simp: sr rings_rel_cq [OF rel])
  next
    case 2
    with eq consume_rel [OF rel dis 2(3)] show ?thesis unfolding body
      by (auto simp: sr rings_rel_cq [OF rel] split: drain.splits)
  next
    case 3
    obtain m2 where b: "check_cq_consume_b wqp cqp (Suc n) raw ct ret mb = Drained r t m2" "rings_rel wqp cqp m2 m1"
      using consume_rel [OF rel dis 3(3)] by (auto elim: drain_rel.elims)
    note turn = nic_alikeD [OF alike b(2)]
    from IH [OF 3(5) turn] 3(1,2) b(1) rings_rel_cqe [OF turn 3(4)] show ?thesis unfolding body by (auto simp: sr)
  qed
qed

lemma inner_rel:
  assumes dis: "disjoint_ranges wqp (c_size c_rmc_wq) cqp (c_size c_rmc_cq)" and alike: "nic_alike wqp cqp nicb nic"
    and run: "check_cq_inner nic wqp cqp n raw ct ret mr = Some (Inr d)" and rel: "rings_rel wqp cqp mb mr"
  shows "\<exists>db. check_cq_inner_b nicb wqp cqp n raw ct ret mb = Some db \<and> drain_rel wqp cqp db d"
proof -
  let ?P = "\<lambda>nic' wqp' cqp' n raw ct ret m (y::drain res). nic' = nic \<longrightarrow> wqp' = wqp \<longrightarrow> cqp' = cqp \<longrightarrow>
    (\<forall>mb d. rings_rel wqp cqp mb m \<longrightarrow> y = Inr d \<longrightarrow>
      (\<exists>db. check_cq_inner_b nicb wqp cqp n raw ct ret mb = Some db \<and> drain_rel wqp cqp db d))"
  have "?P nic wqp cqp n raw ct ret mr (Inr d)"
    by (rule check_cq_inner.raw_induct [where P = ?P, OF _ run], intro impI allI, hypsubst,
        rule inner_turn_rel [OF dis alike, rotated], assumption, assumption) blast
  with rel show ?thesis by blast
qed

lemma outer_start_rel:
  "nic_alike wqp cqp nicb nic \<Longrightarrow> rings_rel wqp cqp mb mr \<Longrightarrow> rings_rel wqp cqp (outer_start nicb n mb) (outer_start nic n mr)"
  unfolding outer_start_def by (rule nic_alikeD) (simp_all add: rings_rel_register)

lemma fetch_rel:
  assumes "rings_rel wqp cqp mb mr" and "check_cq_fetch wqp cqp ct mr = Inr (we, ce)"
  shows "entry_of (load_bytes (mem mb) (slot_addr wqp (unat (load32 (mem mb) (head_addr wqp)))) (c_size c_wq_entry)) = we"
    and "load_cqe (mem mb) cqp (unat ct) = ce"
  using assms(2)
  by (auto simp: check_cq_fetch_def rings_rel_cq [OF assms(1)] arr_get_def cq_of_def wq_of_def bindR_eq_Inr split: if_splits)

lemma outer_turn_rel:
  assumes dis: "disjoint_ranges wqp (c_size c_rmc_wq) cqp (c_size c_rmc_cq)" and alike: "nic_alike wqp cqp nicb nic"
    and IH: "\<And>n ct ret m mb r m1. f nic wqp cqp n ct ret m = Some (Inr (r, m1)) \<Longrightarrow> rings_rel wqp cqp mb m \<Longrightarrow>
      \<exists>mb1. check_cq_outer_b nicb wqp cqp n ct ret mb = Some (r, mb1) \<and> rings_rel wqp cqp mb1 m1"
    and eq: "(case check_cq_fetch wqp cqp ct (outer_start nic n m) of
        Inl e \<Rightarrow> Some (Inl e)
      | Inr (raw_wqe, raw_cqe) \<Rightarrow>
          (case check_cq_inner nic wqp cqp 0 raw_cqe ct ret (outer_start nic n m) of
             None \<Rightarrow> None
           | Some (Inl e) \<Rightarrow> Some (Inl e)
           | Some (Inr (Returned ret1 m1)) \<Rightarrow> Some (Inr (ret1, m1))
           | Some (Inr (Drained ret1 ctail1 m1)) \<Rightarrow>
               if wqe_valid raw_wqe \<and> ss_success ret1 \<noteq> 0
               then f nic wqp cqp (Suc n) ctail1 ret1 m1
               else Some (Inr (ret1, register_buffer (Imm 1) 0x11 m1)))) = Some (Inr (r, m1))"
    and rel: "rings_rel wqp cqp mb m"
  shows "\<exists>mb1. check_cq_outer_b nicb wqp cqp n ct ret mb = Some (r, mb1) \<and> rings_rel wqp cqp mb1 m1"
proof -
  note start = outer_start_rel [OF alike rel, of n]
  obtain we ce where f: "check_cq_fetch wqp cqp ct (outer_start nic n m) = Inr (we, ce)"
    using eq by (auto split: sum.splits)
  then obtain d where d: "check_cq_inner nic wqp cqp 0 ce ct ret (outer_start nic n m) = Some (Inr d)"
    using eq by (auto split: sum.splits option.splits)
  obtain db where db: "check_cq_inner_b nicb wqp cqp 0 ce ct ret (outer_start nicb n mb) = Some db" "drain_rel wqp cqp db d"
    using inner_rel [OF dis alike d start] by blast
  note body = check_cq_outer_b.simps [of nicb wqp cqp n ct ret mb, unfolded Let_def fetch_rel [OF start f] db(1)]
  show ?thesis
  proof (cases d)
    case (Returned r2 m2)
    with eq f d db(2) show ?thesis unfolding body by (auto elim: drain_rel.elims)
  next
    case (Drained r2 t m2)
    then obtain m3 where m3: "db = Drained r2 t m3" "rings_rel wqp cqp m3 m2" using db(2) by (auto elim: drain_rel.elims)
    show ?thesis
    proof (cases "wqe_valid we \<and> ss_success r2 \<noteq> 0")
      case True
      with eq f d Drained have "f nic wqp cqp (Suc n) t r2 m2 = Some (Inr (r, m1))" by simp
      from IH [OF this m3(2)] True show ?thesis unfolding body by (simp add: m3(1))
    next
      case False
      with eq f d Drained m3 show ?thesis unfolding body by (auto simp: rings_rel_register)
    qed
  qed
qed

lemma outer_rel:
  assumes dis: "disjoint_ranges wqp (c_size c_rmc_wq) cqp (c_size c_rmc_cq)" and alike: "nic_alike wqp cqp nicb nic"
    and run: "check_cq_outer nic wqp cqp n ct ret mr = Some (Inr (r, mr1))" and rel: "rings_rel wqp cqp mb mr"
  shows "\<exists>mb1. check_cq_outer_b nicb wqp cqp n ct ret mb = Some (r, mb1) \<and> rings_rel wqp cqp mb1 mr1"
proof -
  let ?P = "\<lambda>nic' wqp' cqp' n ct ret m (y::(successStruct \<times> machine) res). nic' = nic \<longrightarrow> wqp' = wqp \<longrightarrow> cqp' = cqp \<longrightarrow>
    (\<forall>mb r m1. rings_rel wqp cqp mb m \<longrightarrow> y = Inr (r, m1) \<longrightarrow>
      (\<exists>mb1. check_cq_outer_b nicb wqp cqp n ct ret mb = Some (r, mb1) \<and> rings_rel wqp cqp mb1 m1))"
  have "?P nic wqp cqp n ct ret mr (Inr (r, mr1))"
    by (rule check_cq_outer.raw_induct [where P = ?P, OF _ run], intro impI allI, hypsubst,
        rule outer_turn_rel [OF dis alike, rotated], assumption, assumption) blast
  with rel show ?thesis by blast
qed

section \<open>Properties\<close>

text \<open>
  C13. The poll on the records is the poll on the bytes. Take disjoint rings, a machine that has them in
  its memory and one that has them as records, and surroundings that do the same to both. Whenever
  \<open>rmc_check_cq\<close> returns on the records it returns on the bytes, with the same result, and leaves the
  rings, the notifications and the memory outside the rings alike.
\<close>

theorem poll_bytes_simulation:
  assumes "disjoint_ranges wqp (c_size c_rmc_wq) cqp (c_size c_rmc_cq)" and "nic_alike wqp cqp nicb nic"
    and "rings_rel wqp cqp mb mr" and "rmc_check_cq nic junk wqp cqp mr = Some (Inr (ss, mr1))"
  shows "\<exists>mb1. rmc_check_cq_b nicb junk wqp cqp mb = Some (ss, mb1) \<and> rings_rel wqp cqp mb1 mr1"
proof -
  have t: "load32 (mem mb) (tail_addr cqp) = cq_tail (cq_of (mem mb) cqp)" by (simp add: cq_of_def)
  show ?thesis using outer_rel [OF assms(1,2) _ assms(3)] assms(4)
    by (simp add: rmc_check_cq_def rmc_check_cq_b_def rings_rel_cq [OF assms(3)] t)
qed

text \<open>A message of node 3 in slot 0 of a completion queue in memory.\<close>

definition mail_bytes :: "u8 list" where
  "mail_bytes = [1, 1, 0, 0] @ le32 0x7F @ le32 3 @ [0, 0, 0, 0] @ le64 0x9000"

definition mail_mem :: memory where
  "mail_mem = store_bytes (store_bytes (\<lambda>_. 0) (cSR_addr 0x20000) [bool_byte True]) (cslot_addr 0x20000 0) mail_bytes"

definition mail_machine :: machine where
  "mail_machine = wq_demo\<lparr>mem := mail_mem, wq_at := [0x10000 \<mapsto> wq_of mail_mem 0x10000],
     cq_at := [0x20000 \<mapsto> cq_of mail_mem 0x20000]\<rparr>"

abbreviation idle_nic :: nic where "idle_nic \<equiv> \<lambda>_ m. m"

lemma mail_cq: "cq_tail (cq_of mail_mem 0x20000) = 0" "cq_SR (cq_of mail_mem 0x20000)"
  "cq_q (cq_of mail_mem 0x20000) ! 0 =
     \<lparr>cqe_SR = True, cqe_valid = True, cqe_success = 0x7F, cqe_tid = 3, cqe_recv_buf_addr = 0x9000\<rparr>"
  "length (cq_q (cq_of mail_mem 0x20000)) = MAX_NUM_WQ"
proof -
  have l: "length mail_bytes = 24" by (simp add: mail_bytes_def)
  have e: "cqe_of mail_bytes = \<lparr>cqe_SR = True, cqe_valid = True, cqe_success = 0x7F, cqe_tid = 3, cqe_recv_buf_addr = 0x9000\<rparr>"
    by (simp add: mail_bytes_def cqe_of_def Let_def member_bytes_def cq_entry_members)
  have q: "cq_of mail_mem 0x20000 = (cq_of (\<lambda>_. 0) 0x20000)\<lparr>cq_SR := True,
      cq_q := (cq_q (cq_of (\<lambda>_. 0) 0x20000))[0 := cqe_of mail_bytes]\<rparr>"
    by (simp add: mail_mem_def cq_of_store_slot [OF _ l] cq_of_store_SR)
  show "cq_tail (cq_of mail_mem 0x20000) = 0" unfolding q by (simp add: cq_of_def load32_def load_zeros from_le32_def)
  show "cq_SR (cq_of mail_mem 0x20000)" unfolding q by simp
  show "length (cq_q (cq_of mail_mem 0x20000)) = MAX_NUM_WQ" by (simp add: cq_of_def)
  show "cq_q (cq_of mail_mem 0x20000) ! 0 =
     \<lparr>cqe_SR = True, cqe_valid = True, cqe_success = 0x7F, cqe_tid = 3, cqe_recv_buf_addr = 0x9000\<rparr>"
    unfolding q e [symmetric] by (simp add: cq_of_def)
qed

lemma mail_disjoint: "disjoint_ranges 0x10000 (c_size c_rmc_wq) (0x20000 :: addr) (c_size c_rmc_cq)"
  by (simp add: disjoint_ranges_def ring_sizes)

lemma mail_wq: "wq_of mail_mem 0x10000 = wq_of (\<lambda>_. 0) 0x10000"
proof -
  have "mail_mem (0x10000 + of_nat k) = 0" if "k < 512 * 48 + 8" for k
  proof -
    have o: "c_size c_rmc_cq \<le> unat (0x10000 + of_nat k - (0x20000 :: addr))"
      using offset_outside [of 12296 "0x10000" "0x20000" 24584 k] that by (simp add: ring_sizes)
    show ?thesis
      using store_in_cq [OF o, of 0 mail_bytes] store_in_cq [OF o, of 12292 "[bool_byte True]"]
      by (simp add: mail_mem_def cslot_addr_def cSR_addr_def cq_entry_members mail_bytes_def)
  qed
  then show ?thesis by (simp add: wq_of_view wq_bytes.view_cong [of mail_mem "0x10000" "\<lambda>_. 0"])
qed

theorem poll_bytes_simulation_witness:
  "\<exists>mb1. rmc_check_cq_b idle_nic \<lparr>ss_success = 0, ss_op = 0, ss_tid = 0, ss_recv_buf_addr = 0\<rparr> 0x10000 0x20000 mail_machine =
     Some (\<lparr>ss_success = 1, ss_op = RMC_INCOMING_SEND, ss_tid = 3, ss_recv_buf_addr = 0x9000\<rparr>, mb1)"
proof -
  let ?junk = "\<lparr>ss_success = 0, ss_op = 0, ss_tid = 0, ss_recv_buf_addr = 0\<rparr>"
  have rel: "rings_rel 0x10000 0x20000 mail_machine mail_machine"
    by (simp add: rings_rel_def mail_machine_def)
  have alike: "nic_alike 0x10000 0x20000 idle_nic idle_nic"
    by (simp add: nic_alike_def rings_rel_def nic_turn_def)
  have w: "length (wq_q (wq_of mail_mem 0x10000)) = MAX_NUM_WQ" "wq_head (wq_of mail_mem 0x10000) = 0"
    using zero_ring(1,3) [of "0x10000"] by (simp_all add: mail_wq wf_wq_def unat_eq_zero)
  have ne: "cq_q (cq_of mail_mem 0x20000) \<noteq> []" using mail_cq(4) by force
  obtain m1 where "rmc_check_cq idle_nic ?junk 0x10000 0x20000 mail_machine =
      Some (Inr (\<lparr>ss_success = 1, ss_op = RMC_INCOMING_SEND, ss_tid = 3, ss_recv_buf_addr = 0x9000\<rparr>, m1))"
    by (simp add: rmc_check_cq_def mail_machine_def load_wq_def load_cq_def check_cq_outer.simps check_cq_inner.simps
        check_cq_fetch_def outer_start_def nic_turn_def arr_get_def mail_cq w ne check_cq_consume_def Let_def)
  from poll_bytes_simulation [OF mail_disjoint alike rel this] show ?thesis by blast
qed

end
