(* ===== verification/Thread_Cores.thy ===== *)
theory Thread_Cores
  imports Main_NF
begin

text \<open>
  The cores of the threads: \<open>main\<close> and \<open>run_worker\<close> begin by pinning themselves with
  \<open>sched_setaffinity\<close>. The call is a parameter that takes the set of cores and the affinity the thread
  has and returns the result and the new affinity. A thread starts with the affinity of its creator,
  so a worker that cannot be pinned stays on the core of \<open>main\<close>.
\<close>

section \<open>The code\<close>

type_synonym cpu_set_t = "nat set"

type_synonym setaffinity = "cpu_set_t \<Rightarrow> cpu_set_t \<Rightarrow> int \<times> cpu_set_t"

text \<open>The macros of the C library ignore a number that a set of 1024 cores has no bit for.\<close>

definition CPU_ZERO :: cpu_set_t where
  "CPU_ZERO = {}"

definition CPU_SET :: "nat \<Rightarrow> cpu_set_t \<Rightarrow> cpu_set_t" where
  "CPU_SET cpu s = (if cpu < 1024 then insert cpu s else s)"

text \<open>What is printed: the format, without the end of the line, and the arguments for its \<open>%d\<close>.\<close>

type_synonym printed = "string \<times> int list"

definition main_bind :: "setaffinity \<Rightarrow> cpu_set_t \<Rightarrow> cpu_set_t \<times> printed" where
  "main_bind sched_setaffinity old =
     (let cpuset = CPU_SET 2 CPU_ZERO in
      case sched_setaffinity cpuset old of (error, aff) \<Rightarrow>
        (aff, if error \<noteq> 0 then (''Could not bind herd main thread to core 2! (error %d)'', [error])
               else (''Bound herd main thread to core'', [])))"

definition worker_bind :: "setaffinity \<Rightarrow> thread_params \<Rightarrow> cpu_set_t \<Rightarrow> cpu_set_t \<times> printed" where
  "worker_bind sched_setaffinity params old =
     (let cpuset = CPU_SET (unat (tp_id params + tp_start_core params)) CPU_ZERO in
      case sched_setaffinity cpuset old of (error, aff) \<Rightarrow>
        (aff, if error \<noteq> 0
          then (''Could not bind worker thread %d to core %d! (error %d)'', [sint (tp_id params), sint (tp_id params + 1), error])
          else (''Bound worker thread %d to core %d'', [sint (tp_id params), sint (tp_id params + 3)])))"

section \<open>Lemmas\<close>

text \<open>
  The documented behaviour of the call on a machine with the cores \<open>online\<close>: it fails, without effect,
  exactly if the set has no core of the machine.
\<close>

definition sched_ok :: "nat set \<Rightarrow> setaffinity \<Rightarrow> bool" where
  "sched_ok online f \<longleftrightarrow>
     (\<forall>s old. f s old = (if s \<inter> online = {} then (-1, old) else (0, s \<inter> online)))"

lemma sint_small: "n < 2147483648 \<Longrightarrow> sint (of_nat n :: u32) = int n"
  by (simp add: signed_of_nat signed_take_bit_int_eq_self)

text \<open>A worker is pinned to its core if the machine has it, and otherwise stays where it is.\<close>

lemma worker_bind_cases:
  assumes "sched_ok online f" and "tp_id p = of_nat i" and "online \<subseteq> {..<1024}" and "i < 2147483645"
    and "i + unat (tp_start_core p) < 4294967296"
  shows "worker_bind f p old =
    (if unat (tp_start_core p) + i \<in> online
     then ({unat (tp_start_core p) + i}, ''Bound worker thread %d to core %d'', [int i, int i + 3])
     else (old, ''Could not bind worker thread %d to core %d! (error %d)'', [int i, int i + 1, -1]))"
proof -
  have i: "unat (of_nat i :: u32) = i" using assms(4) by (intro unat_of_nat_less) simp
  then have c: "unat (of_nat i + tp_start_core p) = unat (tp_start_core p) + i"
    using assms(5) by (simp add: unat_plus_if')
  have s: "sint (of_nat i :: u32) = int i" "sint (of_nat i + 1 :: u32) = int i + 1" "sint (of_nat i + 3 :: u32) = int i + 3"
    using sint_small [of i] sint_small [of "i + 1"] sint_small [of "i + 3"] assms(4) by (simp_all add: add.commute)
  show ?thesis using assms(1,3)
    by (auto simp: worker_bind_def CPU_SET_def CPU_ZERO_def sched_ok_def c assms(2) s Let_def)
qed

lemma launched_params:
  assumes "i < unat (mo_num_threads o1)"
  shows "tp_id (fst (launch_threads lc o1 tjunk ! i)) = of_nat i"
    and "tp_start_core (fst (launch_threads lc o1 tjunk ! i)) = mo_start_core o1"
  using assms by (simp_all add: launch_threads_def thread_args_def)

section \<open>Properties\<close>

text \<open>
  C21. The threads that \<open>main\<close> launches: when the machine has the cores from \<open>start-core\<close> on, one per
  thread, the \<open>i\<close>-th thread is pinned to the core \<open>start-core + i\<close>, a core of its own, which is not
  that of \<open>main\<close> unless the cores of the threads include core 2; a thread whose core does not exist
  runs on the core of \<open>main\<close>. The core it prints is \<open>i + 3\<close> when it was pinned, whatever \<open>start-core\<close>
  is, and \<open>i + 1\<close> when it was not.
\<close>

theorem threads_pinned:
  fixes o1 :: main_opts
  defines "start \<equiv> unat (mo_start_core o1)" and "n \<equiv> unat (mo_num_threads o1)"
  assumes "sched_ok online f" and "online \<subseteq> {..<1024}" and "2 \<in> online"
    and "n < 2147483645" and "n + start < 4294967296" and "i < n"
  shows "worker_bind f (fst (launch_threads lc o1 tjunk ! i)) (fst (main_bind f initial)) =
    (if start + i \<in> online
     then ({start + i}, ''Bound worker thread %d to core %d'', [int i, int i + 3])
     else ({2}, ''Could not bind worker thread %d to core %d! (error %d)'', [int i, int i + 1, -1]))"
proof -
  have "fst (main_bind f initial) = {2}"
    using assms(3,5) by (simp add: main_bind_def CPU_SET_def CPU_ZERO_def sched_ok_def)
  then show ?thesis
    using worker_bind_cases [OF assms(3) _ assms(4), of "fst (launch_threads lc o1 tjunk ! i)" i "{2}"]
      launched_params [of i o1 lc tjunk] assms(6-) by (simp add: start_def n_def)
qed

text \<open>Four cores: the first thread gets core 3, the second stays with \<open>main\<close> on core 2.\<close>

definition demo_setaffinity :: setaffinity where
  "demo_setaffinity s old = (if s \<inter> {..<4} = {} then (-1, old) else (0, s \<inter> {..<4}))"

theorem threads_pinned_witness:
  "worker_bind demo_setaffinity (fst (launch_threads demo_libc (default_opts\<lparr>mo_num_threads := 2\<rparr>) (\<lambda>_. demo_params 0) ! 0))
     (fst (main_bind demo_setaffinity {0, 1, 2, 3})) = ({3}, ''Bound worker thread %d to core %d'', [0, 3]) \<and>
   fst (worker_bind demo_setaffinity (fst (launch_threads demo_libc (default_opts\<lparr>mo_num_threads := 2\<rparr>) (\<lambda>_. demo_params 0) ! 1))
     (fst (main_bind demo_setaffinity {0, 1, 2, 3}))) = {2}"
proof -
  have ok: "sched_ok {..<4} demo_setaffinity" by (simp add: sched_ok_def demo_setaffinity_def)
  show ?thesis
    using threads_pinned [OF ok, of "default_opts\<lparr>mo_num_threads := 2\<rparr>" 0]
      threads_pinned [OF ok, of "default_opts\<lparr>mo_num_threads := 2\<rparr>" 1]
    by (simp add: default_opts_def)
qed

end
