(* ===== verification/Spec2Isabelle.thy ===== *)
theory Spec2Isabelle
  imports Threads_End Worker_Memory Threads_Log NF_Spec Main_NF Context_Life Dump_Hex Inline_Helpers Cq_Bytes Thread_Cores
begin

text \<open>
  simpleNF is a network function that runs on a simulated NIC (zsim). Its worker threads take
  packets from a completion queue, collect them into batches and send every packet back to its
  sender through a work queue. This development models the whole program in its ZSIM build and
  proves what makes it correct.

  \<^bold>\<open>The program and its model.\<close>

  \<^item> \<open>libzsim/zsim_nic_defines.{hpp,cpp}\<close>, the NIC library. \<open>Zsim_Nic\<close>: the entries, the two rings
    of 512 slots with their sense bits, \<open>register_buffer\<close> (the magic instruction), \<open>rmc_hw_send\<close>,
    \<open>rmc_hw_recv\<close> and \<open>rmc_check_cq\<close> with its two nested loops. \<open>Nic_Kal\<close>: \<open>kal_reg_ctx\<close> and
    \<open>kal_reg_send_recv_bufs\<close>, the allocators being parameters. The state is the record
    \<open>machine\<close>: the work queues, completion queues and flags by address, the log of magic
    instructions, a clock, and the histories of the entries posted to and consumed from each queue,
    which no operation reads.
  \<^item> \<open>rpc_shm/cbuf.{h,cpp}\<close>, the circular receive buffer: \<open>Cbuf\<close>.
  \<^item> \<open>rpc_shm/statContainer.tpp\<close>, the container of service times and its file format: \<open>Stats\<close>.
  \<^item> \<open>rpc_shm/rpc.{h,cpp}\<close>. \<open>Rpc_Wire\<close>: packing and unpacking of RPCs in a byte memory
    (\<open>C_Memory\<close>). \<open>Rpc_Context\<close>: the context, its creation, registrations, notifications,
    circular buffers and destruction. \<open>Rpc_Messaging\<close>: \<open>sendToNode_zsim\<close>,
    \<open>receiveRPCRequest_zsim_l3fwd\<close>, \<open>do_Recv_zsim\<close>.
  \<^item> \<open>simpNF/worker.c\<close>: \<open>Worker\<close> (\<open>batch_process_simpNF\<close> and \<open>run_worker\<close>, the body of its loop in
    the parts receive, count and flush). \<open>simpNF/main.{h,c}\<close>: \<open>Main_NF\<close> (options, checks, creation of
    the context, launch of the threads).
    \<open>Thread_Cores\<close>: the pinning of \<open>main\<close> and of the workers to cores.
  \<^item> \<open>rpc_shm/DumpHex.c\<close>: \<open>Dump_Hex\<close>; \<open>rpc_shm/test_htonl.c\<close>: \<open>Htonl_Bench\<close>. \<open>Inline_Helpers\<close>: the
    inline functions of the headers and of \<open>worker.c\<close> that nothing calls.
  \<^item> The headers themselves. \<open>Header_Macros\<close>: the macros of \<open>zsim_nic_defines.hpp\<close>, \<open>main.h\<close> and of the
    older \<open>libzsim/RMCdefines.h\<close>, as tables of tokens, with their replacement and the evaluation of
    constant expressions. \<open>C_Layout\<close>: the structures as types of C, with their sizes, alignments and
    offsets. \<open>Ring_Bytes\<close>, \<open>Cq_Bytes\<close>: the posting operations and the poll once more, on the bytes of the
    rings in memory.

  Each definition has the name of the C or C++ function it translates; the parts a long function is
  cut into and the loops have names of their own. Integers keep their widths as words; an \<open>int\<close>
  whose overflow C leaves undefined goes through \<open>c_int\<close>. Faults are values (\<open>fault\<close> in
  \<open>NF_Prelude\<close>: null pointers, array bounds, \<open>std::vector::at\<close>, assertions, signed overflow, division
  by zero). A pointer to an object with one owner is the object; memory the code does not initialise
  comes from parameters named \<open>junk\<close>.

  \<^bold>\<open>The surroundings.\<close> The NIC, the simulator and, from the point of view of one thread, the other
  threads are one parameter \<open>nic\<close>, a function of the machine that gets a turn (\<open>nic_turn\<close>) whenever
  the code waits for it or polls. What the code relies on is stated as hypotheses on it:
  \<open>nic_frame\<close> (it keeps the cursors and the shape of a queue pair and its histories), \<open>nic_silent\<close>
  (no more completions from some moment on), \<open>nic_live\<close> (posted entries are completed again and
  again), \<open>nic_flag_quiet\<close> and \<open>nic_sets\<close> (when the flags of the simulator change), \<open>nic_mem_quiet\<close> (it
  does not write to an address) and \<open>log_quiet\<close> (no magic instructions but the thread's own).

  \<^bold>\<open>Interfaces as locales.\<close> \<open>sense_ring\<close> is the cursor discipline of a ring with a sense bit,
  interpreted for both NIC rings and the circular buffer; \<open>bounded_fifo\<close> is the contract of a
  bounded queue, from which the results on arbitrary schedules follow, interpreted for the work queue
  (code inserts, NIC removes) and the completion queue (NIC inserts, code removes); \<open>spin_loop\<close> is
  a loop that waits for a moment of the clock, interpreted for the retry loop of a send and for the
  outer loop of a poll; \<open>byte_ring\<close> is a ring in memory, interpreted for the bytes of
  both NIC rings. A hierarchy of locales carries an invariant of the machine through the operations:
  \<open>nic_stable\<close> (turns of the NIC), \<open>poll_stable\<close> (polls and receives,
  \<open>Nic_Poll\<close>), \<open>post_stable\<close> and \<open>slot_stable\<close> (posts, sends
  from a buffer, \<open>Rpc_Messaging\<close>) and \<open>turn_stable\<close> (a whole turn of the
  worker loop, \<open>Worker_Stable\<close>). They are interpreted for the clock, the flags, the
  received packets, the queue pairs of other threads, the bytes outside a thread's buffer and the
  log of magic instructions.

  \<^bold>\<open>What is proved.\<close>

  \<^item> \<open>Nic_Wq\<close>, \<open>Nic_Cq\<close>, \<open>Nic_Poll\<close>: posts and polls refine bounded first-in first-out queues; along any
    schedule nothing is lost, duplicated or reordered; when a poll returns, and when it never does.
  \<^item> \<open>Cbuf\<close>: an invariant of the reachable buffers that ties the flags and counters to the number of
    slots in flight, and where the counters do not say that.
  \<^item> \<open>Stats\<close>, \<open>Rpc_Wire\<close>: round trips, and when they fail.
  \<^item> \<open>Rpc_Context\<close>, \<open>Context_Life\<close>: creation with good and bad packet sizes, the layout of the circular
    buffers, a type invariant of all contexts the operations can produce, destruction.
  \<^item> \<open>Rpc_Messaging\<close>: functional behaviour, safety and termination of sends and receives; what a reply
    carries.
  \<^item> \<open>Worker\<close>, \<open>Worker_Props\<close>, \<open>Worker_Run\<close>: the invariant of the loop (the replies answer the received
    packets once each, in order, to their senders, from the right slots), the absence of faults,
    progress of a turn, the termination of the whole thread once the clients are done, and what it
    loses then. \<open>Worker_Log\<close>, \<open>Threads_Log\<close>: the notifications and time stamps that reach the simulator
    from one thread, and from all threads under every schedule.
  \<^item> \<open>Threads\<close>: the invariant for any number of threads on one machine, for every interleaving of the
    turns of their loops. \<open>NF_Spec\<close>: an abstract network function that answers packets in batches, and
    that every thread refines it, one event per turn. \<open>Worker_Memory\<close>: the threads write only to the
    slots of their own buffers. \<open>Threads_End\<close>: the turns of all threads are bounded under every
    schedule, and every run can be completed.
  \<^item> \<open>Main_NF\<close> and this theory: the program from its command line to the replies of its threads and to
    their end.
  \<^item> \<open>Dump_Hex\<close>: equivalence with a reference layout. \<open>Htonl_Bench\<close>: the outcome for every input.
  \<^item> \<open>Header_Macros\<close>: where the two headers agree, and that the numbers of the model are the values of
    the macros. \<open>C_Layout\<close>: alignment and disjointness of the scalars of any object, and from them the
    layout of the queue pairs and the absence of false sharing between the managers of the send
    buffers. \<open>Ring_Bytes\<close>, \<open>Cq_Bytes\<close>: the rings in memory and the records of \<open>Zsim_Nic\<close> behave
    alike, along every schedule of posts and completions and for every poll that returns. \<open>Thread_Cores\<close>: every thread on a core of its own.

  \<^bold>\<open>Loops and bounds.\<close> The loops of \<open>rmc_check_cq\<close>, of a send and of the worker can run forever and
  are partial functions into \<open>option\<close>; that they return is proved separately, under the hypotheses on
  the NIC above. All other loops of the program are structural recursions, so no fuel is used for them. The constants are those
  of the source: 512 slots per ring, 256 messages per destination, 500 polls per receive, 1010
  warm-up packets without batching, 8192-byte pages. The replacement of macros is iterated three
  times and the parser of constant expressions goes twenty levels deep, more than any of the macros needs.

  \<^bold>\<open>Not modelled.\<close> The code inside \<open>#if 0\<close> and comments, and the FLEXUS and QFLEX branches, are not
  compiled, and the structures in the comments of \<open>RMCdefines.h\<close>, which no file includes, are not code;
  \<open>RWRITE_Complete\<close> has an empty body; other printing than that of \<open>DumpHex\<close>, of a buffer and of the
  pinning, the joining of threads and the build files have no effect on the modelled state. The
  turns of the threads are interleaved as a whole: within a turn the other threads are part of the
  parameter \<open>nic\<close>, and the lemmas of \<open>Threads\<close> show that their turns satisfy what is asked of it. The
  C++ objects of different threads in one context are distinct, so the registrations of two threads
  are modelled one after the other, in any order. The packet counter of the worker is an \<open>int\<close> that
  overflows after \<open>2^31\<close> packets; the theorems name this fault and do not exclude it.
\<close>

section \<open>From the command line to the replies\<close>

text \<open>
  What the simulator gives to the \<open>n\<close> threads of the program: queue pairs of their own, in working
  order and without history, and surroundings that respect all of these queue pairs.
\<close>

definition placement :: "nat \<Rightarrow> (nat \<Rightarrow> worker_env) \<Rightarrow> machine \<Rightarrow> bool" where
  "placement n envs m \<longleftrightarrow> inj_on (\<lambda>i. we_wq (envs i)) {..<n} \<and> inj_on (\<lambda>i. we_cq (envs i)) {..<n} \<and>
     (\<forall>i < n. heartbeat_frame (we_heartbeat (envs i)) \<and> junk_ok (envs i) \<and>
        fresh_machine (envs i) \<lparr>qp_id = of_nat i, qp_wq = we_wq (envs i), qp_cq = we_cq (envs i)\<rparr> m \<and>
        (\<forall>j < n. nic_frame (we_nic (envs i)) (we_wq (envs j)) (we_cq (envs j))))"

text \<open>The launched threads, in the order in which they come to their registrations.\<close>

definition launched :: "(nat \<Rightarrow> worker_env) \<Rightarrow> (thread_params \<times> int) list \<Rightarrow> nat list \<Rightarrow>
  (worker_env \<times> thread_params) list" where
  "launched envs ps order = map (\<lambda>i. (envs i, fst (ps ! i))) order"

lemma launched_ok:
  assumes "placement (length ps) envs m" "ctx_sized S ctx" "distinct order" "set order \<subseteq> {..<length ps}"
    and "length (rc_qps ctx) = length ps" "length (rc_app_buffers ctx) = length ps"
    and "\<And>i. i < length ps \<Longrightarrow> unat (tp_id (fst (ps ! i))) = i \<and> 0 < unat (tp_batch_size (fst (ps ! i)))"
  shows "threads_ok S (launched envs ps order) ctx m"
proof -
  let ?n = "length ps"
  have o: "i < ?n" if "i \<in> set order" for i using that assms(4) by auto
  have id: "tp_id (fst (ps ! i)) = of_nat i" if "i < ?n" for i using assms(7) [OF that] by (metis of_nat_unat ucast_id)
  have "map (\<lambda>t. unat (tp_id (snd t))) (launched envs ps order) = order"
    using assms(7) o by (simp add: launched_def o_def map_idI)
  moreover have "distinct (map (\<lambda>t. we_wq (fst t)) (launched envs ps order))"
    "distinct (map (\<lambda>t. we_cq (fst t)) (launched envs ps order))"
    using assms(1,3,4) by (auto simp: launched_def o_def placement_def distinct_map intro: inj_on_subset)
  ultimately show ?thesis
    using assms o id by (auto simp: threads_ok_def launched_def placement_def own_qp_def)
qed

text \<open>Options that the program can serve: at least one thread, no more threads than queue pairs.\<close>

lemma nf_main_threads:
  assumes "parse_opts argv default_opts = Inr o1" and "mo_num_threads o1 \<le> mo_qps o1" and "0 < mo_num_threads o1"
    and "64 dvd unat (mo_packet_size o1)" and "unat (mo_packet_size o1) < 8388608" and "0 < mo_batch_size o1"
    and "libc_ok lc" and "placement (unat (mo_num_threads o1)) envs m"
    and "distinct order" and "set order = {..<unat (mo_num_threads o1)}"
  shows "\<exists>ctx. nf_main lc junk junk_ctrl tjunk argv = Inr (Launch (Some ctx) (launch_threads lc o1 tjunk)) \<and>
    threads_ok (unat (mo_packet_size o1)) (launched envs (launch_threads lc o1 tjunk) order) ctx m"
proof -
  let ?ps = "launch_threads lc o1 tjunk"
  from nf_main_launches [OF assms(1-5,7), of junk junk_ctrl tjunk] obtain ctx where
    c: "nf_main lc junk junk_ctrl tjunk argv = Inr (Launch (Some ctx) ?ps)" "ctx_sized (unat (mo_packet_size o1)) ctx"
    "length (rc_qps ctx) = unat (mo_num_threads o1)" "length (rc_app_buffers ctx) = unat (mo_num_threads o1)" by blast
  have "threads_ok (unat (mo_packet_size o1)) (launched envs ?ps order) ctx m"
    using assms(6,8-10) c(2-4) thread_args_id by (intro launched_ok) (simp_all add: launch_threads_def word_less_nat_alt)
  with c(1) show ?thesis by blast
qed

text \<open>
  C1. End to end: with options that ask for at least one thread, no more threads than queue pairs, a
  positive batch size and packets of a whole number of cache blocks below 8 MB, and a C library that
  does not fail, the program creates its context and launches its threads; they register without an
  error in whatever order they come, and in every state they reach by turns in any order, every
  thread has answered the packets of its queue once each, in the order of arrival, to their senders
  and from the right slots, all but at most a batch of the last ones.
\<close>

theorem nf_replies_in_order:
  assumes "parse_opts argv default_opts = Inr o1" and "mo_num_threads o1 \<le> mo_qps o1" and "0 < mo_num_threads o1"
    and "64 dvd unat (mo_packet_size o1)" and "unat (mo_packet_size o1) < 8388608" and "0 < mo_batch_size o1"
    and "libc_ok lc" and "placement (unat (mo_num_threads o1)) envs m"
    and "distinct order" and "set order = {..<unat (mo_num_threads o1)}"
  shows "\<exists>ctx ps ctx1 m1. nf_main lc junk junk_ctrl tjunk argv = Inr (Launch (Some ctx) ps) \<and>
    register_threads (launched envs ps order) ctx m = Inr (ctx1, m1) \<and>
    (\<forall>sched m2 ws i. nf_reach (launched envs ps order) ctx1 m1 sched m2 ws \<and> i < unat (mo_num_threads o1) \<longrightarrow>
       replied (unat (mo_packet_size o1)) (envs i) (fst (ps ! i)) m2)"
proof -
  let ?n = "unat (mo_num_threads o1)" and ?S = "unat (mo_packet_size o1)" and ?ps = "launch_threads lc o1 tjunk"
  let ?ts = "launched envs ?ps order"
  from nf_main_threads [OF assms, of junk junk_ctrl tjunk] obtain ctx where
    c: "nf_main lc junk junk_ctrl tjunk argv = Inr (Launch (Some ctx) ?ps)" and ok: "threads_ok ?S ?ts ctx m" by blast
  from threads_start [OF ok] obtain ctx1 m1 where r: "register_threads ?ts ctx m = Inr (ctx1, m1)"
    and st: "threads_started ?S ?ts ctx1 m1" by blast
  have "replied ?S (envs i) (fst (?ps ! i)) m2" if "nf_reach ?ts ctx1 m1 sched m2 ws" "i < ?n" for sched m2 ws i
  proof -
    from assms(10) that(2) obtain k where "k < length order" "order ! k = i" by (metis in_set_conv_nth lessThan_iff)
    with nf_reach_inv [OF that(1) ok st] show ?thesis by (auto simp: nf_inv_def launched_def)
  qed
  with c r show ?thesis by blast
qed

text \<open>The command line of \<open>Main_NF\<close> with two threads, the second one registering first.\<close>

definition duo_envs :: "nat \<Rightarrow> worker_env" where
  "duo_envs i = (if i = 0 then demo_env else second_env)"

lemma duo_placement: "placement 2 duo_envs duo_machine"
proof -
  have all: "(\<forall>i < 2. P i) \<longleftrightarrow> P 0 \<and> P (Suc 0)" for P :: "nat \<Rightarrow> bool" by (auto simp: less_2_cases_iff)
  have "{..<2 :: nat} = {0, Suc 0}" by auto
  then show ?thesis
    using duo_ok unfolding placement_def all
    by (simp add: threads_ok_def duo_def duo_envs_def own_qp_def fresh_machine_def)
qed

theorem nf_replies_in_order_witness:
  "\<exists>ctx ps ctx1 m1. nf_main demo_libc demo_junk demo_ctrl (\<lambda>_. demo_params 0) demo_argv = Inr (Launch (Some ctx) ps) \<and>
     register_threads (launched duo_envs ps [1, 0]) ctx duo_machine = Inr (ctx1, m1) \<and>
     replied 512 demo_env (fst (ps ! 0)) m1 \<and> replied 512 second_env (fst (ps ! 1)) m1"
proof -
  have l: "libc_ok demo_libc" by (simp add: libc_ok_def demo_libc_def)
  have "set [1, 0] = {..<2 :: nat}" by auto
  then have "\<exists>ctx ps ctx1 m1. nf_main demo_libc demo_junk demo_ctrl (\<lambda>_. demo_params 0) demo_argv = Inr (Launch (Some ctx) ps) \<and>
      register_threads (launched duo_envs ps [1, 0]) ctx duo_machine = Inr (ctx1, m1) \<and>
      (\<forall>sched m2 ws i. nf_reach (launched duo_envs ps [1, 0]) ctx1 m1 sched m2 ws \<and> i < 2 \<longrightarrow>
        replied 512 (duo_envs i) (fst (ps ! i)) m2)"
    using nf_replies_in_order [OF demo_parse _ _ _ _ _ l, of duo_envs duo_machine "[1, 0]" demo_junk demo_ctrl "\<lambda>_. demo_params 0"]
      duo_placement by (simp add: default_opts_def)
  then obtain ctx ps ctx1 m1 where h: "nf_main demo_libc demo_junk demo_ctrl (\<lambda>_. demo_params 0) demo_argv = Inr (Launch (Some ctx) ps)"
    "register_threads (launched duo_envs ps [1, 0]) ctx duo_machine = Inr (ctx1, m1)"
    "\<And>sched m2 ws i. nf_reach (launched duo_envs ps [1, 0]) ctx1 m1 sched m2 ws \<Longrightarrow> i < 2 \<Longrightarrow>
      replied 512 (duo_envs i) (fst (ps ! i)) m2" by blast
  from h(3) [OF nf_reach.barrier, of 0] h(3) [OF nf_reach.barrier, of 1]
  have "replied 512 demo_env (fst (ps ! 0)) m1 \<and> replied 512 second_env (fst (ps ! 1)) m1" by (simp add: duo_envs_def)
  with h(1,2) show ?thesis by blast
qed

text \<open>
  C3. The program ends: with the options and the C library as above, under a NIC that keeps completing
  posted entries, and from its turn \<open>T\<close> on delivers no more completions while the clients are done, the
  program launches its threads, they register in whatever order they come, their turns are bounded in
  number under every schedule, and every run can go on until all threads have left their loops or
  stopped at one of two faults.
\<close>

theorem nf_ends:
  assumes "parse_opts argv default_opts = Inr o1" and "mo_num_threads o1 \<le> mo_qps o1" and "0 < mo_num_threads o1"
    and "64 dvd unat (mo_packet_size o1)" and "unat (mo_packet_size o1) < 8388608" and "0 < mo_batch_size o1"
    and "libc_ok lc" and "placement (unat (mo_num_threads o1)) envs m"
    and "distinct order" and "set order = {..<unat (mo_num_threads o1)}"
    and "\<forall>i < unat (mo_num_threads o1). winds_down (envs i) \<lparr>qp_id = of_nat i, qp_wq = we_wq (envs i), qp_cq = we_cq (envs i)\<rparr> T"
  shows "\<exists>ctx ps ctx1 m1. nf_main lc junk junk_ctrl tjunk argv = Inr (Launch (Some ctx) ps) \<and>
    register_threads (launched envs ps order) ctx m = Inr (ctx1, m1) \<and>
    (\<forall>sched m2 ws. nf_reach (launched envs ps order) ctx1 m1 sched m2 ws \<longrightarrow>
       length sched \<le> (T - now m) + unat (mo_num_threads o1) \<and>
       (\<exists>more m3 ws3. nf_reach (launched envs ps order) ctx1 m1 (sched @ more) m3 ws3 \<and>
          (\<forall>k < length order. thread_over ctx1 m3 (launched envs ps order ! k) (ws3 ! k))))"
proof -
  let ?ps = "launch_threads lc o1 tjunk"
  let ?ts = "launched envs ?ps order"
  from nf_main_threads [OF assms(1-10), of junk junk_ctrl tjunk] obtain ctx where
    c: "nf_main lc junk junk_ctrl tjunk argv = Inr (Launch (Some ctx) ?ps)" and
    ok: "threads_ok (unat (mo_packet_size o1)) ?ts ctx m" by blast
  have "all_wind_down ?ts T" using assms(10,11) by (auto simp: all_wind_down_def launched_def list_all_iff winds_down_def)
  note e = threads_end [OF ok this]
  have "length ?ts = unat (mo_num_threads o1)" "length ?ts = length order"
    using distinct_card [OF assms(9)] assms(10) by (simp_all add: launched_def)
  with c e show ?thesis by metis
qed

text \<open>The two threads of before, in surroundings that end the run at turn 5.\<close>

definition closing_envs :: "nat \<Rightarrow> worker_env" where
  "closing_envs i = (duo_envs i)\<lparr>we_nic := closing_nic\<rparr>"

lemma closing_envs_placement: "placement 2 closing_envs duo_machine"
  using duo_placement closing_nic_frame
  by (simp add: placement_def closing_envs_def fresh_machine_def junk_ok_def)

lemma closing_envs_wind_down: "winds_down (closing_envs i) qp 5"
  by (simp add: winds_down_def closing_envs_def duo_envs_def second_env_def demo_env_def)

theorem nf_ends_witness:
  "\<exists>ctx ps ctx1 m1 more m3 ws3. nf_main demo_libc demo_junk demo_ctrl (\<lambda>_. demo_params 0) demo_argv = Inr (Launch (Some ctx) ps) \<and>
     register_threads (launched closing_envs ps [1, 0]) ctx duo_machine = Inr (ctx1, m1) \<and>
     nf_reach (launched closing_envs ps [1, 0]) ctx1 m1 more m3 ws3 \<and> length more \<le> 7 \<and>
     thread_over ctx1 m3 (closing_envs 1, fst (ps ! 1)) (ws3 ! 0) \<and> thread_over ctx1 m3 (closing_envs 0, fst (ps ! 0)) (ws3 ! 1)"
proof -
  have l: "libc_ok demo_libc" by (simp add: libc_ok_def demo_libc_def)
  have o: "set [1, 0] = {..<2 :: nat}" by auto
  have t: "now duo_machine = 0" by (simp add: duo_machine_def demo_machine_def cq_demo_def wq_demo_def)
  from nf_ends [OF demo_parse _ _ _ _ _ l, of closing_envs duo_machine "[1, 0]" 5 demo_junk demo_ctrl "\<lambda>_. demo_params 0"]
    closing_envs_placement closing_envs_wind_down o t
  have "\<exists>ctx ps ctx1 m1. nf_main demo_libc demo_junk demo_ctrl (\<lambda>_. demo_params 0) demo_argv = Inr (Launch (Some ctx) ps) \<and>
      register_threads (launched closing_envs ps [1, 0]) ctx duo_machine = Inr (ctx1, m1) \<and>
      (\<forall>sched m2 ws. nf_reach (launched closing_envs ps [1, 0]) ctx1 m1 sched m2 ws \<longrightarrow> length sched \<le> 7 \<and>
        (\<exists>more m3 ws3. nf_reach (launched closing_envs ps [1, 0]) ctx1 m1 (sched @ more) m3 ws3 \<and>
          (\<forall>k < length [1 :: nat, 0]. thread_over ctx1 m3 (launched closing_envs ps [1, 0] ! k) (ws3 ! k))))"
    by (simp add: default_opts_def)
  then obtain ctx ps ctx1 m1 where c: "nf_main demo_libc demo_junk demo_ctrl (\<lambda>_. demo_params 0) demo_argv = Inr (Launch (Some ctx) ps)"
    "register_threads (launched closing_envs ps [1, 0]) ctx duo_machine = Inr (ctx1, m1)"
    and h: "\<And>sched m2 ws. nf_reach (launched closing_envs ps [1, 0]) ctx1 m1 sched m2 ws \<Longrightarrow> length sched \<le> 7 \<and>
      (\<exists>more m3 ws3. nf_reach (launched closing_envs ps [1, 0]) ctx1 m1 (sched @ more) m3 ws3 \<and>
        (\<forall>k < length [1 :: nat, 0]. thread_over ctx1 m3 (launched closing_envs ps [1, 0] ! k) (ws3 ! k)))" by blast
  from h [OF nf_reach.barrier] obtain more m3 ws3 where m: "nf_reach (launched closing_envs ps [1, 0]) ctx1 m1 more m3 ws3"
    "\<forall>k < length [1 :: nat, 0]. thread_over ctx1 m3 (launched closing_envs ps [1, 0] ! k) (ws3 ! k)" by auto
  from m(2) have "thread_over ctx1 m3 (closing_envs 1, fst (ps ! 1)) (ws3 ! 0)" "thread_over ctx1 m3 (closing_envs 0, fst (ps ! 0)) (ws3 ! 1)"
    by (auto simp: launched_def dest: spec [of _ 0] spec [of _ 1])
  with c m(1) h [OF m(1)] show ?thesis by blast
qed

end
